(* ===== verification/Gaia_Prelude.thy ===== *)
theory Gaia_Prelude
  imports Complex_Main "HOL-Library.AList" "HOL-Library.Word" "HOL-Library.Multiset"
begin

text \<open>
  Shared vocabulary of the GAIA-Server development: Python strings, bytes, dictionaries,
  dynamic values, exceptions, truth values and slices, and the operations that read or change
  the world outside a component. The generic lemmas on them are collected here, declared to
  the simplifier or into the collections \<open>op_simps\<close> (effects) and \<open>dict_simps\<close> (dictionaries).

  A Python \<^verbatim>\<open>str\<close> is a \<^typ>\<open>string\<close> holding its UTF-8 bytes. Concatenation, equality, prefix and
  suffix tests and searches for ASCII text agree with Python's on this representation.
\<close>

named_theorems op_simps \<open>evaluation of world-passing operations\<close>
named_theorems dict_simps \<open>lookup, store and key lists of dictionaries\<close>

section \<open>Bytes and strings\<close>

type_synonym bytes = "8 word list"

definition encode :: "string \<Rightarrow> bytes" where
  "encode s = map (\<lambda>c. of_nat (of_char c)) s"

definition decode_bytes :: "bytes \<Rightarrow> string" where
  "decode_bytes bs = map (\<lambda>b. char_of (unat b)) bs"

lemma unat_of_char [simp]: "unat (of_nat (of_char c :: nat) :: 8 word) = of_char c"
proof -
  have "(of_char c :: nat) < 256" by simp
  then show ?thesis by (simp add: unat_of_nat)
qed

lemma decode_encode [simp]: "decode_bytes (encode s) = s"
  by (induction s) (simp_all add: decode_bytes_def encode_def)

lemma encode_inject [simp]: "encode s = encode t \<longleftrightarrow> s = t"
  by (metis decode_encode)

lemma encode_eq_Nil [simp]: "encode s = [] \<longleftrightarrow> s = []"
  by (simp add: encode_def)

text \<open>\<^verbatim>\<open>s.endswith(t)\<close>, \<^verbatim>\<open>s.lstrip(c)\<close> for a single character, and \<^verbatim>\<open>s.replace(t, "")\<close>.\<close>

definition endswith :: "string \<Rightarrow> string \<Rightarrow> bool" where
  "endswith s t \<longleftrightarrow> length t \<le> length s \<and> drop (length s - length t) s = t"

definition startswith :: "string \<Rightarrow> string \<Rightarrow> bool" where
  "startswith s t \<longleftrightarrow> take (length t) s = t"

definition lstrip :: "char \<Rightarrow> string \<Rightarrow> string" where
  "lstrip c s = dropWhile (\<lambda>x. x = c) s"

lemma endswith_iff: "endswith s t \<longleftrightarrow> (\<exists>p. s = p @ t)"
proof
  assume "endswith s t"
  then have "s = take (length s - length t) s @ t"
    by (metis append_take_drop_id endswith_def)
  then show "\<exists>p. s = p @ t" ..
qed (auto simp: endswith_def)

lemma startswith_iff: "startswith s t \<longleftrightarrow> (\<exists>r. s = t @ r)"
  unfolding startswith_def by (metis append_eq_conv_conj append_take_drop_id)

section \<open>Dynamic values and dictionaries\<close>

text \<open>
  A Python \<^verbatim>\<open>dict\<close> keeps insertion order and overwrites a value in place, which is what
  \<^const>\<open>AList.update\<close> does on an association list with distinct keys.
\<close>

type_synonym ('k, 'v) dict = "('k \<times> 'v) list"

definition dict_ok :: "('k, 'v) dict \<Rightarrow> bool" where
  "dict_ok d \<longleftrightarrow> distinct (map fst d)"

definition dget :: "('k, 'v) dict \<Rightarrow> 'k \<Rightarrow> 'v \<Rightarrow> 'v" where
  "dget d k dflt = (case map_of d k of None \<Rightarrow> dflt | Some v \<Rightarrow> v)"

definition dset :: "('k, 'v) dict \<Rightarrow> 'k \<Rightarrow> 'v \<Rightarrow> ('k, 'v) dict" where
  "dset d k v = AList.update k v d"

definition ddel :: "('k, 'v) dict \<Rightarrow> 'k \<Rightarrow> ('k, 'v) dict" where
  "ddel d k = AList.delete k d"

abbreviation dkeys :: "('k, 'v) dict \<Rightarrow> 'k list" where
  "dkeys d \<equiv> map fst d"

abbreviation dvalues :: "('k, 'v) dict \<Rightarrow> 'v list" where
  "dvalues d \<equiv> map snd d"

lemma map_of_dset [simp, dict_simps]: "map_of (dset d k v) = (map_of d)(k \<mapsto> v)"
  by (simp add: dset_def update_conv')

lemma map_of_ddel [simp, dict_simps]: "map_of (ddel d k) = (map_of d)(k := None)"
  by (simp add: ddel_def delete_conv')

lemma dget_dset [simp, dict_simps]:
  "dget (dset d k v) k' dflt = (if k' = k then v else dget d k' dflt)"
  by (simp add: dget_def)

lemma dict_ok_Nil [simp]: "dict_ok []"
  by (simp add: dict_ok_def)

lemma dict_ok_dset [simp, intro]: "dict_ok d \<Longrightarrow> dict_ok (dset d k v)"
  by (simp add: dict_ok_def dset_def distinct_update)

lemma dict_ok_ddel [simp, intro]: "dict_ok d \<Longrightarrow> dict_ok (ddel d k)"
  by (simp add: dict_ok_def ddel_def distinct_delete)

lemma dkeys_dset [dict_simps]:
  "dkeys (dset d k v) = (if k \<in> set (dkeys d) then dkeys d else dkeys d @ [k])"
  by (simp add: dset_def update_keys)

lemma set_dkeys_dset [simp, dict_simps]: "set (dkeys (dset d k v)) = insert k (set (dkeys d))"
  by (auto simp: dkeys_dset)

lemma map_of_dkeys: "k \<in> set (dkeys d) \<longleftrightarrow> map_of d k \<noteq> None"
  by (simp add: map_of_eq_None_iff)

lemma map_of_key: "map_of d k = Some v \<Longrightarrow> k \<in> set (dkeys d)"
  by (force dest: map_of_SomeD)

lemma dset_absent: "k \<notin> set (dkeys d) \<Longrightarrow> dset d k v = d @ [(k, v)]"
  unfolding dset_def by (induction d) auto

lemma length_dset:
  "length (dset d k v) = (if k \<in> set (dkeys d) then length d else Suc (length d))"
  unfolding dset_def by (induction d) auto

text \<open>How storing an entry changes the number of values with a property.\<close>

definition count_values :: "('v \<Rightarrow> bool) \<Rightarrow> ('k, 'v) dict \<Rightarrow> nat" where
  "count_values P d = length (filter P (dvalues d))"

lemma count_values_dset:
  assumes "dict_ok d"
  shows "count_values P (dset d k v) + (case map_of d k of Some u \<Rightarrow> of_bool (P u) | None \<Rightarrow> 0) =
     count_values P d + of_bool (P v)"
  using assms unfolding dset_def dict_ok_def count_values_def by (induction d) auto

lemma map_of_dset_self: "dict_ok d \<Longrightarrow> (a, b) \<in> set (dset d k v) \<Longrightarrow> (a = k \<and> b = v) \<or> (a, b) \<in> set d"
  unfolding dict_ok_def dset_def by (induction d) (auto split: if_splits)

datatype pyfloat = Fin rat | PosInf | NegInf | NaN

datatype pyval =
    PNone
  | PBool bool
  | PInt int
  | PFloat pyfloat
  | PStr string
  | PList "pyval list"
  | PDict "(string \<times> pyval) list"

type_synonym pydict = "(string, pyval) dict"

text \<open>Truth values: \<^verbatim>\<open>None\<close>, the empty string and the empty container are false.\<close>

definition truthy_str :: "string option \<Rightarrow> bool" where
  "truthy_str s = (case s of None \<Rightarrow> False | Some t \<Rightarrow> t \<noteq> [])"

definition str_val :: "string option \<Rightarrow> string" where
  "str_val s = (case s of None \<Rightarrow> ''None'' | Some t \<Rightarrow> t)"

lemma truthy_str_simps [simp]:
  "truthy_str None = False" "truthy_str (Some t) = (t \<noteq> [])"
  by (simp_all add: truthy_str_def)

lemma str_val_Some [simp]: "str_val (Some t) = t"
  by (simp add: str_val_def)

lemma truthy_str_cases: "truthy_str s \<Longrightarrow> \<exists>t. s = Some t \<and> t \<noteq> []"
  by (cases s) auto

text \<open>\<^verbatim>\<open>xs[-n:]\<close> for an \<^verbatim>\<open>int\<close> n: Python reads \<open>-0\<close> as 0 and a negative n as a positive start.\<close>

definition tail_slice :: "'a list \<Rightarrow> int \<Rightarrow> 'a list" where
  "tail_slice xs n =
     (if n \<le> 0 then drop (nat (- n)) xs else drop (length xs - nat n) xs)"

lemma tail_slice_0 [simp]: "tail_slice xs 0 = xs"
  by (simp add: tail_slice_def)

lemma length_tail_slice: "0 < n \<Longrightarrow> length (tail_slice xs n) = min (length xs) (nat n)"
  by (auto simp: tail_slice_def)

section \<open>Exceptions\<close>

text \<open>
  One constructor per exception class the program raises or handles. An error raised with a
  formatted message carries the values that the message interpolates; the classes of
  \<^verbatim>\<open>gaia_server/restore/errors.py\<close> have one fault per \<^verbatim>\<open>raise\<close> statement.
  \<open>ExternalError\<close> is whatever a library under the program raises.
\<close>

datatype 'e manifest_fault =
    ManifestNotFound string
  | ManifestDeserialization 'e
  | ManifestUnsigned string
  | ManifestHashMismatch string string string
  | PayloadHashMismatch string string string
  | CriuNotPolicyGated

datatype replay_fault =
    CursorFormat string
  | NoEventsAfterCursor string string

datatype attestation_fault =
    AttestationRefMissing string
  | AttestationNotFound string

datatype py_exn =
    ValueError string
  | TypeError string
  | KeyError string
  | RuntimeError string
  | NotImplementedError string
  | AttributeError string
  | ImportError string
  | TimeoutError string
  | S3Error string
  | NotFoundError string
  | ExternalError string
  | SandboxAdmissionError string py_exn
  | ManifestError "py_exn manifest_fault"
  | CausalReplayError replay_fault
  | AttestationError attestation_fault
  | TrustPromotionError string
  | SystemExit int
  | CancelledError

text \<open>\<^verbatim>\<open>except Exception\<close> lets the two \<^verbatim>\<open>BaseException\<close>s through.\<close>

fun is_Exception :: "py_exn \<Rightarrow> bool" where
  "is_Exception (SystemExit _) = False"
| "is_Exception CancelledError = False"
| "is_Exception _ = True"

text \<open>\<^verbatim>\<open>except ImportError\<close>.\<close>

definition is_ImportError :: "py_exn \<Rightarrow> bool" where
  "is_ImportError e = (case e of ImportError _ \<Rightarrow> True | _ \<Rightarrow> False)"

lemma ImportError_is_Exception: "is_ImportError e \<Longrightarrow> is_Exception e"
  by (cases e) (simp_all add: is_ImportError_def)

section \<open>Operations on the world\<close>

text \<open>
  A call that reads or changes something outside the component (a store, a broker, a clock) is
  a function of the world that gives an exception or a value, and the world after it.
\<close>

type_synonym ('w, 'a) op = "'w \<Rightarrow> (py_exn + 'a) \<times> 'w"

definition opret :: "'a \<Rightarrow> ('w, 'a) op" where
  "opret x = (\<lambda>w. (Inr x, w))"

definition opraise :: "py_exn \<Rightarrow> ('w, 'a) op" where
  "opraise e = (\<lambda>w. (Inl e, w))"

definition opbind :: "('w, 'a) op \<Rightarrow> ('a \<Rightarrow> ('w, 'b) op) \<Rightarrow> ('w, 'b) op" where
  "opbind m k = (\<lambda>w. case m w of (Inl e, w') \<Rightarrow> (Inl e, w') | (Inr x, w') \<Rightarrow> k x w')"

definition opcatch :: "(py_exn \<Rightarrow> bool) \<Rightarrow> ('w, 'a) op \<Rightarrow> (py_exn \<Rightarrow> ('w, 'a) op) \<Rightarrow> ('w, 'a) op" where
  "opcatch cls m h = (\<lambda>w. case m w of
       (Inl e, w') \<Rightarrow> (if cls e then h e w' else (Inl e, w'))
     | (Inr x, w') \<Rightarrow> (Inr x, w'))"

text \<open>\<^verbatim>\<open>try: m except Exception as exc: h\<close>, and with the class of \<open>opcatch\<close> for a narrower handler.\<close>

abbreviation optry :: "('w, 'a) op \<Rightarrow> (py_exn \<Rightarrow> ('w, 'a) op) \<Rightarrow> ('w, 'a) op" where
  "optry \<equiv> opcatch is_Exception"

definition opfinally :: "('w, 'a) op \<Rightarrow> ('w, unit) op \<Rightarrow> ('w, 'a) op" where
  "opfinally m f = (\<lambda>w. case m w of (r, w') \<Rightarrow>
     (case f w' of (Inl e, w'') \<Rightarrow> (Inl e, w'') | (Inr _, w'') \<Rightarrow> (r, w'')))"

definition oplift :: "py_exn + 'a \<Rightarrow> ('w, 'a) op" where
  "oplift r = (\<lambda>w. (r, w))"

definition opassert :: "bool \<Rightarrow> py_exn \<Rightarrow> ('w, unit) op" where
  "opassert ok e = (if ok then opret () else opraise e)"

lemma opret_apply [simp, op_simps]: "opret x w = (Inr x, w)"
  by (simp add: opret_def)

lemma opraise_apply [simp, op_simps]: "opraise e w = (Inl e, w)"
  by (simp add: opraise_def)

lemma oplift_apply [simp, op_simps]: "oplift r w = (r, w)"
  by (simp add: oplift_def)

lemma opassert_apply [op_simps]: "opassert ok e w = (if ok then Inr () else Inl e, w)"
  by (simp add: opassert_def)

lemma opbind_Inl [op_simps]: "m w = (Inl e, w') \<Longrightarrow> opbind m k w = (Inl e, w')"
  by (simp add: opbind_def)

lemma opbind_Inr [op_simps]: "m w = (Inr x, w') \<Longrightarrow> opbind m k w = k x w'"
  by (simp add: opbind_def)

lemma opcatch_Inr [op_simps]: "m w = (Inr x, w') \<Longrightarrow> opcatch cls m h w = (Inr x, w')"
  by (simp add: opcatch_def)

lemma opcatch_Inl [op_simps]:
  "m w = (Inl e, w') \<Longrightarrow> opcatch cls m h w = (if cls e then h e w' else (Inl e, w'))"
  by (simp add: opcatch_def)

lemma opfinally_done [op_simps]:
  "m w = (r, w') \<Longrightarrow> f w' = (Inr u, w'') \<Longrightarrow> opfinally m f w = (r, w'')"
  by (simp add: opfinally_def)

lemma opbind_opret [simp]: "opbind (opret x) k = k x"
  by (simp add: opbind_def fun_eq_iff)

lemma opbind_opraise [simp]: "opbind (opraise e) k = opraise e"
  by (simp add: opbind_def fun_eq_iff)

lemma opbind_InrE:
  assumes "opbind m k w = (Inr y, w'')"
  obtains x w' where "m w = (Inr x, w')" and "k x w' = (Inr y, w'')"
  using assms by (auto simp: opbind_def split: prod.splits sum.splits)

lemma opbind_InlE:
  assumes "opbind m k w = (Inl e, w'')"
  obtains (first) "m w = (Inl e, w'')"
    | (second) x w' where "m w = (Inr x, w')" and "k x w' = (Inl e, w'')"
  using assms by (auto simp: opbind_def split: prod.splits sum.splits)

text \<open>An operation that leaves a view of the world alone, and its closure under the combinators.\<close>

definition op_keeps :: "('w \<Rightarrow> 'v) \<Rightarrow> ('w, 'a) op \<Rightarrow> bool" where
  "op_keeps view m \<longleftrightarrow> (\<forall>w. view (snd (m w)) = view w)"

lemma op_keepsD: "op_keeps view m \<Longrightarrow> m w = (r, w') \<Longrightarrow> view w' = view w"
  unfolding op_keeps_def by (metis snd_conv)

lemma op_keeps_Pair [simp, intro]: "op_keeps view (Pair r)"
  by (simp add: op_keeps_def)

lemma op_keeps_opret [simp, intro]: "op_keeps view (opret x)"
  by (simp add: op_keeps_def)

lemma op_keeps_opraise [simp, intro]: "op_keeps view (opraise e)"
  by (simp add: op_keeps_def)

lemma op_keeps_oplift [simp, intro]: "op_keeps view (oplift r)"
  by (simp add: op_keeps_def)

lemma op_keeps_opassert [simp, intro]: "op_keeps view (opassert b e)"
  by (simp add: op_keeps_def opassert_def)

lemma op_keeps_opbind [intro]:
  assumes "op_keeps view m" and "\<And>x. op_keeps view (k x)"
  shows "op_keeps view (opbind m k)"
  using assms by (auto simp: op_keeps_def opbind_def split: prod.split sum.split)
    (metis snd_conv)+

lemma op_keeps_opcatch [intro]:
  assumes "op_keeps view m" and "\<And>e. op_keeps view (h e)"
  shows "op_keeps view (opcatch cls m h)"
  using assms by (auto simp: op_keeps_def opcatch_def split: prod.split sum.split)
    (metis snd_conv)+

lemma op_keeps_opfinally [intro]:
  assumes "op_keeps view m" and "op_keeps view f"
  shows "op_keeps view (opfinally m f)"
  using assms by (auto simp: op_keeps_def opfinally_def split: prod.split sum.split)
    (metis snd_conv)+

text \<open>A call that raises only what \<^verbatim>\<open>except Exception\<close> handles.\<close>

definition raises_Exceptions :: "('w, 'a) op \<Rightarrow> bool" where
  "raises_Exceptions m \<longleftrightarrow> (\<forall>w e w'. m w = (Inl e, w') \<longrightarrow> is_Exception e)"

end
