(* ===== verification/Broadcast_Message.thy ===== *)
theory Broadcast_Message
  imports Gaia_Prelude
begin

text \<open>
  The message of \<^verbatim>\<open>gaia_server/ipc/causal_broadcast.py\<close> and the abstract delivery contract of the
  layer (\<^verbatim>\<open>docs/IPC_SPEC.md\<close>, causal ordering rules): over vector clocks as functions, a message is
  ready when its sender's counter is the next expected and every other counter is known.
  The locale \<open>causal_endpoint\<close> states what one endpoint promises on a receive, and what follows
  for any sequence of receives: conservation of messages, per-sender order, and a result
  that does not depend on the order of arrival.
\<close>

section \<open>Messages\<close>

record bmsg =
  message_id :: string
  source_core :: string
  bm_kind :: string
  bm_payload :: pydict
  vector_clock :: "(string, int) dict"
  bm_trace_id :: string
  bm_dependencies :: "string list"

definition CAUSAL_KINDS :: "string set" where
  "CAUSAL_KINDS = {''control'', ''memory'', ''policy''}"

definition HEALTH_KINDS :: "string set" where
  "HEALTH_KINDS = {''health''}"

abbreviation causal_msg :: "bmsg \<Rightarrow> bool" where
  "causal_msg m \<equiv> bm_kind m \<notin> HEALTH_KINDS"

lemma causal_kinds_not_health: "CAUSAL_KINDS \<inter> HEALTH_KINDS = {}"
  by (simp add: CAUSAL_KINDS_def HEALTH_KINDS_def)

section \<open>Vector clocks as functions\<close>

type_synonym vclock = "string \<Rightarrow> int"

definition mvc :: "bmsg \<Rightarrow> vclock" where
  "mvc m a = dget (vector_clock m) a 0"

definition mtime :: "bmsg \<Rightarrow> int" where
  "mtime m = mvc m (source_core m)"

definition wf_msg :: "bmsg \<Rightarrow> bool" where
  "wf_msg m \<longleftrightarrow> dict_ok (vector_clock m)"

definition ready :: "vclock \<Rightarrow> bmsg \<Rightarrow> bool" where
  "ready V m \<longleftrightarrow> mtime m = V (source_core m) + 1 \<and> (\<forall>a. a \<noteq> source_core m \<longrightarrow> mvc m a \<le> V a)"

definition bump :: "vclock \<Rightarrow> bmsg \<Rightarrow> vclock" where
  "bump V m = V(source_core m := max (V (source_core m)) (mtime m))"

fun ready_run :: "vclock \<Rightarrow> bmsg list \<Rightarrow> bool" where
  "ready_run V [] = True"
| "ready_run V (m # ms) = (ready V m \<and> ready_run (bump V m) ms)"

abbreviation run :: "vclock \<Rightarrow> bmsg list \<Rightarrow> vclock" where
  "run \<equiv> foldl bump"

lemma bump_ready: "ready V m \<Longrightarrow> bump V m = V(source_core m := V (source_core m) + 1)"
  by (simp add: bump_def ready_def)

lemma bump_mono: "V a \<le> bump V m a"
  by (simp add: bump_def)

lemma run_mono: "V a \<le> run V ms a"
  by (induction ms arbitrary: V) (auto intro: order_trans [OF bump_mono])

lemma ready_run_append:
  "ready_run V (xs @ ys) \<longleftrightarrow> ready_run V xs \<and> ready_run (run V xs) ys"
  by (induction xs arbitrary: V) auto

text \<open>The messages of one sender are delivered in the order of consecutive counters.\<close>

lemma ready_run_times:
  "ready_run V ms \<Longrightarrow>
     map mtime (filter (\<lambda>m. source_core m = s) ms) = [V s + 1..run V ms s]"
proof (induction ms arbitrary: V)
  case Nil
  then show ?case by simp
next
  case (Cons m ms)
  then have m: "ready V m" and rest: "ready_run (bump V m) ms" by auto
  note IH = Cons.IH [OF rest]
  show ?case
  proof (cases "source_core m = s")
    case True
    with m have b: "bump V m s = V s + 1" and t: "mtime m = V s + 1"
      by (simp_all add: bump_ready ready_def)
    have "V s + 1 \<le> run (bump V m) ms s"
      using run_mono [of "bump V m" s ms] b by simp
    then show ?thesis using IH True b t by (simp add: upto_rec1)
  next
    case False
    with m have "bump V m s = V s" by (simp add: bump_ready)
    with IH False show ?thesis by simp
  qed
qed

lemma ready_run_mem_times:
  assumes "ready_run V ms" and "m \<in> set ms"
  shows "V (source_core m) < mtime m" and "mtime m \<le> run V ms (source_core m)"
proof -
  have "mtime m \<in> set (map mtime (filter (\<lambda>x. source_core x = source_core m) ms))"
    using assms(2) by auto
  then have "mtime m \<in> {V (source_core m) + 1..run V ms (source_core m)}"
    unfolding ready_run_times [OF assms(1)] by simp
  then show "V (source_core m) < mtime m" and "mtime m \<le> run V ms (source_core m)" by auto
qed

lemma ready_run_covers:
  assumes "ready_run V ms" and "V s < t" and "t \<le> run V ms s"
  obtains m where "m \<in> set ms" and "source_core m = s" and "mtime m = t"
proof -
  have "t \<in> set [V s + 1..run V ms s]" using assms(2,3) by simp
  then have "t \<in> set (map mtime (filter (\<lambda>m. source_core m = s) ms))"
    unfolding ready_run_times [OF assms(1)] .
  then show thesis using that by auto
qed

lemma distinct_from_times:
  assumes "\<And>s. distinct (map mtime (filter (\<lambda>m. source_core m = s) ms))"
  shows "distinct ms"
  using assms
proof (induction ms)
  case Nil
  then show ?case by simp
next
  case (Cons m ms)
  have "distinct (map mtime (filter (\<lambda>x. source_core x = s) ms))" for s
    using Cons.prems [of s] by (simp split: if_splits)
  then have "distinct ms" by (rule Cons.IH)
  moreover have "m \<notin> set ms"
    using Cons.prems [of "source_core m"] by auto
  ultimately show ?case by simp
qed

lemma ready_run_distinct: "ready_run V ms \<Longrightarrow> distinct ms"
  by (rule distinct_from_times) (simp add: ready_run_times)

text \<open>Running a subset of the messages of another run ends in a smaller clock.\<close>

lemma run_subset_le:
  assumes "ready_run V xs" and "ready_run V ys" and "set xs \<subseteq> set ys"
  shows "run V xs s \<le> run V ys s"
proof (cases "V s < run V xs s")
  case True
  from ready_run_covers [OF assms(1) True order_refl]
  obtain m where m: "m \<in> set xs" "source_core m = s" "mtime m = run V xs s" by blast
  with assms(3) ready_run_mem_times(2) [OF assms(2)] show ?thesis by fastforce
next
  case False
  then show ?thesis using run_mono [of V s xs] run_mono [of V s ys] by linarith
qed

section \<open>Confluence of two drained runs\<close>

abbreviation unique_stamps :: "bmsg set \<Rightarrow> bool" where
  "unique_stamps M \<equiv> inj_on (\<lambda>m. (source_core m, mtime m)) M"

lemma drained_run_covers:
  assumes xs: "ready_run V xs" and ys: "ready_run V ys"
    and sub: "set xs \<subseteq> set ys \<union> set rest"
    and uniq: "unique_stamps (set ys \<union> set rest)"
    and drained: "\<forall>m \<in> set rest. \<not> ready (run V ys) m"
  shows "set xs \<subseteq> set ys"
  using xs sub
proof (induction xs rule: rev_induct)
  case Nil
  then show ?case by simp
next
  case (snoc m xs)
  then have IH: "set xs \<subseteq> set ys" and run_xs: "ready_run V xs" and m: "ready (run V xs) m"
    by (auto simp: ready_run_append)
  let ?s = "source_core m"
  have le: "run V xs a \<le> run V ys a" for a
    by (rule run_subset_le [OF run_xs ys IH])
  have "m \<in> set ys"
  proof (rule ccontr)
    assume notin: "m \<notin> set ys"
    with snoc.prems have rest: "m \<in> set rest" by auto
    have others: "mvc m a \<le> run V ys a" if "a \<noteq> ?s" for a
      using m that le [of a] by (auto simp: ready_def intro: order_trans)
    have "run V ys ?s < mtime m"
    proof (rule ccontr)
      assume "\<not> run V ys ?s < mtime m"
      then have "mtime m \<le> run V ys ?s" by simp
      moreover have "V ?s < mtime m"
        using m run_mono [of V ?s xs] by (simp add: ready_def)
      ultimately obtain d where "d \<in> set ys" "source_core d = ?s" "mtime d = mtime m"
        using ready_run_covers [OF ys] by metis
      with uniq rest have "d = m" by (auto dest: inj_onD)
      with \<open>d \<in> set ys\<close> notin show False by simp
    qed
    with le [of ?s] m have "mtime m = run V ys ?s + 1" by (simp add: ready_def)
    with others have "ready (run V ys) m" by (simp add: ready_def)
    with drained rest show False by blast
  qed
  with IH show ?case by simp
qed

lemma drained_runs_agree:
  assumes "ready_run V xs" and "ready_run V ys"
    and "mset xs + mset r1 = mset ys + mset r2"
    and "unique_stamps (set xs \<union> set r1)"
    and "\<forall>m \<in> set r1. \<not> ready (run V xs) m" and "\<forall>m \<in> set r2. \<not> ready (run V ys) m"
  shows "mset xs = mset ys" and "run V xs = run V ys"
proof -
  have un: "set xs \<union> set r1 = set ys \<union> set r2"
    using arg_cong [OF assms(3), of set_mset] by simp
  have "set xs \<subseteq> set ys"
    using drained_run_covers [OF assms(1,2)] un assms(4,6) by (metis Un_upper1)
  moreover have "set ys \<subseteq> set xs"
    using drained_run_covers [OF assms(2,1)] un assms(4,5) by (metis Un_upper1)
  ultimately have eq: "set xs = set ys" by blast
  with assms(1,2) show "mset xs = mset ys"
    by (metis ready_run_distinct set_eq_iff_mset_eq_distinct)
  show "run V xs = run V ys"
    by (rule ext) (simp add: order_antisym run_subset_le assms(1,2) eq)
qed


section \<open>The contract of an endpoint\<close>

definition drained :: "vclock \<Rightarrow> bmsg list \<Rightarrow> bool" where
  "drained V ms \<longleftrightarrow> (\<forall>m \<in> set ms. \<not> ready V m)"

text \<open>
  A receive of a causal message delivers a run of ready messages taken from the hold queue and
  the new message, keeps the others held, and stops only when no held message is ready.
\<close>

locale causal_endpoint =
  fixes clk :: "'s \<Rightarrow> vclock"
    and held :: "'s \<Rightarrow> bmsg list"
    and dlv :: "'s \<Rightarrow> string list"
    and recv :: "bmsg \<Rightarrow> 's \<Rightarrow> 's"
    and inv :: "'s \<Rightarrow> bool"
  assumes recv_inv: "inv st \<Longrightarrow> wf_msg m \<Longrightarrow> inv (recv m st)"
    and recv_causal: "inv st \<Longrightarrow> wf_msg m \<Longrightarrow> causal_msg m \<Longrightarrow>
      \<exists>ms. ready_run (clk st) ms \<and> clk (recv m st) = run (clk st) ms \<and>
        dlv (recv m st) = dlv st @ map message_id ms \<and>
        mset ms + mset (held (recv m st)) = mset (held st) + {#m#} \<and>
        drained (clk (recv m st)) (held (recv m st))"
begin

lemma recv_all_inv:
  "inv st \<Longrightarrow> \<forall>m \<in> set ms. wf_msg m \<Longrightarrow> inv (fold recv ms st)"
  by (induction ms arbitrary: st) (auto intro: recv_inv)

lemma recv_all_run:
  assumes "inv st" and "\<forall>m \<in> set ms. wf_msg m \<and> causal_msg m"
    and "drained (clk st) (held st)"
  shows "\<exists>ds. ready_run (clk st) ds \<and> clk (fold recv ms st) = run (clk st) ds \<and>
           dlv (fold recv ms st) = dlv st @ map message_id ds \<and>
           mset ds + mset (held (fold recv ms st)) = mset (held st) + mset ms \<and>
           drained (clk (fold recv ms st)) (held (fold recv ms st))"
  using assms
proof (induction ms arbitrary: st)
  case Nil
  then show ?case by (intro exI [of _ "[]"]) simp
next
  case (Cons m ms)
  let ?s = "recv m st"
  from recv_causal [of st m] Cons.prems obtain ds where
    ds: "ready_run (clk st) ds" "clk ?s = run (clk st) ds" "dlv ?s = dlv st @ map message_id ds"
      "mset ds + mset (held ?s) = mset (held st) + {#m#}" "drained (clk ?s) (held ?s)"
    by auto
  from Cons.prems have "inv ?s" by (auto intro: recv_inv)
  from Cons.IH [OF this _ ds(5)] Cons.prems(2) obtain es where
    es: "ready_run (clk ?s) es" "clk (fold recv ms ?s) = run (clk ?s) es"
      "dlv (fold recv ms ?s) = dlv ?s @ map message_id es"
      "mset es + mset (held (fold recv ms ?s)) = mset (held ?s) + mset ms"
      "drained (clk (fold recv ms ?s)) (held (fold recv ms ?s))"
    by auto
  have "mset (ds @ es) + mset (held (fold recv ms ?s)) = mset (held st) + mset (m # ms)"
    using ds(4) es(4) by (simp add: ac_simps)
  with ds es show ?case
    by (intro exI [of _ "ds @ es"]) (simp add: ready_run_append)
qed

lemma recv_all_confluent:
  assumes "inv st" and "held st = []" and "mset ms = mset ms'"
    and "\<forall>m \<in> set ms. wf_msg m \<and> causal_msg m" and "unique_stamps (set ms)"
  shows "clk (fold recv ms st) = clk (fold recv ms' st)"
    and "mset (dlv (fold recv ms st)) = mset (dlv (fold recv ms' st))"
    and "mset (held (fold recv ms st)) = mset (held (fold recv ms' st))"
proof -
  have set_eq: "set ms' = set ms" using assms(3) by (metis mset_eq_setD)
  have start: "drained (clk st) (held st)" by (simp add: drained_def assms(2))
  obtain xs where xs: "ready_run (clk st) xs" "clk (fold recv ms st) = run (clk st) xs"
      "dlv (fold recv ms st) = dlv st @ map message_id xs"
      "mset xs + mset (held (fold recv ms st)) = mset ms"
      "drained (clk (fold recv ms st)) (held (fold recv ms st))"
    using recv_all_run [OF assms(1,4) start] assms(2) by auto
  obtain ys where ys: "ready_run (clk st) ys" "clk (fold recv ms' st) = run (clk st) ys"
      "dlv (fold recv ms' st) = dlv st @ map message_id ys"
      "mset ys + mset (held (fold recv ms' st)) = mset ms'"
      "drained (clk (fold recv ms' st)) (held (fold recv ms' st))"
    using recv_all_run [OF assms(1) _ start, of ms'] assms(2,4) set_eq by auto
  have "set xs \<union> set (held (fold recv ms st)) = set ms"
    using arg_cong [OF xs(4), of set_mset] by simp
  then have uniq: "unique_stamps (set xs \<union> set (held (fold recv ms st)))"
    using assms(5) by simp
  have same: "mset xs + mset (held (fold recv ms st)) = mset ys + mset (held (fold recv ms' st))"
    using xs(4) ys(4) assms(3) by simp
  note agree = drained_runs_agree [OF xs(1) ys(1) same uniq
      xs(5) [unfolded drained_def xs(2)] ys(5) [unfolded drained_def ys(2)]]
  from agree xs(2,3) ys(2,3) show "clk (fold recv ms st) = clk (fold recv ms' st)"
    and "mset (dlv (fold recv ms st)) = mset (dlv (fold recv ms' st))"
    by (simp_all add: mset_map)
  from agree(1) same show "mset (held (fold recv ms st)) = mset (held (fold recv ms' st))"
    by simp
qed

end

end
