(* ===== verification/Causal_Broadcast.thy ===== *)
theory Causal_Broadcast
  imports Broadcast_Message
begin

text \<open>
  \<^verbatim>\<open>gaia_server/ipc/causal_broadcast.py\<close>: one endpoint of the causal broadcast layer. The state is
  the record \<open>cbcast\<close>; \<open>subscribe\<close>, \<open>send\<close>, \<open>receive\<close>, \<open>clock_snapshot\<close> and \<open>hold_queue_depth\<close>
  are its public operations, each atomic under the object's lock. Logging is left out.

  The lemmas give the shape of a drain: \<open>receive\<close> delivers a sequence of messages, each ready at
  the moment it is delivered, and leaves a hold queue in which none is ready.
\<close>

section \<open>State\<close>

text \<open>
  A delivery handler either returns or raises an \<^verbatim>\<open>Exception\<close>. \<open>handler_calls\<close> records every call
  made, with the index of the handler, the message and the exception caught, if any.
\<close>

type_synonym handler = "bmsg \<Rightarrow> py_exn option"

record cbcast =
  local_actor :: string
  cb_clock :: "(string, int) dict"
  hold_queue :: "bmsg list"
  delivered :: "string list"
  handlers :: "handler list"
  handler_calls :: "(nat \<times> bmsg \<times> py_exn option) list"

definition cbcast_init :: "string \<Rightarrow> cbcast" where
  "cbcast_init actor =
     \<lparr>local_actor = actor, cb_clock = [(actor, 0)], hold_queue = [], delivered = [],
      handlers = [], handler_calls = []\<rparr>"

section \<open>Operations\<close>

definition subscribe :: "handler \<Rightarrow> cbcast \<Rightarrow> cbcast" where
  "subscribe h st = st\<lparr>handlers := handlers st @ [h]\<rparr>"

text \<open>
  \<open>send\<close> takes the hexadecimal digits that \<^verbatim>\<open>uuid.uuid4().hex\<close> returned. It does not use
  \<open>target_cores\<close>.
\<close>

definition send :: "string \<Rightarrow> string \<Rightarrow> pydict \<Rightarrow> string list option \<Rightarrow> string \<Rightarrow> cbcast
    \<Rightarrow> bmsg \<times> cbcast" where
  "send uuid_hex knd pl target_cores trace st =
     (let clock = dset (cb_clock st) (local_actor st) (dget (cb_clock st) (local_actor st) 0 + 1);
          msg = \<lparr>message_id = ''bc_'' @ take 12 uuid_hex, source_core = local_actor st,
                 bm_kind = knd, bm_payload = pl, vector_clock = clock, bm_trace_id = trace,
                 bm_dependencies = []\<rparr>
      in (msg, st\<lparr>cb_clock := clock\<rparr>))"

text \<open>\<open>is_deliverable\<close> reads only the clock of the endpoint.\<close>

definition is_deliverable :: "(string, int) dict \<Rightarrow> bmsg \<Rightarrow> bool" where
  "is_deliverable clock msg =
     (let sender = source_core msg;
          sender_time = dget (vector_clock msg) sender 0;
          local_sender_time = dget clock sender 0
      in if sender_time \<noteq> local_sender_time + 1 then False
         else list_all (\<lambda>(actor, t). actor = sender \<or> t \<le> dget clock actor 0) (vector_clock msg))"

definition advance :: "(string, int) dict \<Rightarrow> bmsg \<Rightarrow> (string, int) dict" where
  "advance clock msg =
     dset clock (source_core msg)
       (max (dget clock (source_core msg) 0) (dget (vector_clock msg) (source_core msg) 0))"

definition call_handlers :: "handler list \<Rightarrow> bmsg \<Rightarrow> (nat \<times> bmsg \<times> py_exn option) list" where
  "call_handlers hs msg = map (\<lambda>(i, h). (i, msg, h msg)) (enumerate 0 hs)"

definition deliver :: "cbcast \<Rightarrow> bmsg \<Rightarrow> cbcast" where
  "deliver st msg =
     st\<lparr>cb_clock := advance (cb_clock st) msg,
        delivered := delivered st @ [message_id msg],
        handler_calls := handler_calls st @ call_handlers (handlers st) msg\<rparr>"

text \<open>
  The inner loop of \<^verbatim>\<open>_try_deliver_buffered\<close> pops the hold queue \<open>q\<close> from the left; \<open>remaining\<close> and
  \<open>delivered_any\<close> are the loop's variables.
\<close>

fun drain_pass :: "cbcast \<Rightarrow> bmsg list \<Rightarrow> bmsg list \<Rightarrow> bool \<Rightarrow> cbcast \<times> bmsg list \<times> bool" where
  "drain_pass st [] remaining delivered_any = (st, remaining, delivered_any)"
| "drain_pass st (msg # q) remaining delivered_any =
     (if is_deliverable (cb_clock st) msg then drain_pass (deliver st msg) q remaining True
      else drain_pass st q (remaining @ [msg]) delivered_any)"

lemma drain_pass_shrinks:
  "drain_pass st q rem any = (st', rem', True) \<Longrightarrow> \<not> any \<Longrightarrow>
     length rem' < length rem + length q"
proof (induction q arbitrary: st rem any)
  case Nil
  then show ?case by simp
next
  case (Cons m q)
  have le: "drain_pass s p r a = (s', r', a') \<Longrightarrow> length r' \<le> length r + length p" for s p r a s' r' a'
    by (induction p arbitrary: s r a) (fastforce split: if_splits)+
  show ?case
  proof (cases "is_deliverable (cb_clock st) m")
    case True
    with Cons.prems have "drain_pass (deliver st m) q rem True = (st', rem', True)" by simp
    then show ?thesis using le by fastforce
  next
    case False
    with Cons.prems have "drain_pass st q (rem @ [m]) any = (st', rem', True)" by simp
    from Cons.IH [OF this Cons.prems(2)] show ?thesis by simp
  qed
qed

text \<open>The outer loop repeats while a pass delivered something; each such pass shortens the queue.\<close>

function try_deliver_buffered :: "cbcast \<Rightarrow> cbcast" where
  "try_deliver_buffered st =
     (case drain_pass st (hold_queue st) [] False of
        (st', remaining, delivered_any) \<Rightarrow>
          (if delivered_any then try_deliver_buffered (st'\<lparr>hold_queue := remaining\<rparr>)
           else st'\<lparr>hold_queue := remaining\<rparr>))"
  by pat_completeness auto
termination
  by (relation "measure (\<lambda>st. length (hold_queue st))") (auto dest!: drain_pass_shrinks [OF sym])

declare try_deliver_buffered.simps [simp del]

definition receive :: "bmsg \<Rightarrow> cbcast \<Rightarrow> cbcast" where
  "receive msg st =
     (if bm_kind msg \<in> HEALTH_KINDS then deliver st msg
      else try_deliver_buffered (st\<lparr>hold_queue := hold_queue st @ [msg]\<rparr>))"

definition clock_snapshot :: "cbcast \<Rightarrow> (string, int) dict" where
  "clock_snapshot st = cb_clock st"

definition hold_queue_depth :: "cbcast \<Rightarrow> nat" where
  "hold_queue_depth st = length (hold_queue st)"


section \<open>What a drain does\<close>

definition vclk :: "cbcast \<Rightarrow> vclock" where
  "vclk st a = dget (cb_clock st) a 0"

definition cb_inv :: "cbcast \<Rightarrow> bool" where
  "cb_inv st \<longleftrightarrow> (\<forall>a. 0 \<le> vclk st a) \<and> (\<forall>m \<in> set (hold_queue st). wf_msg m) \<and>
     dict_ok (cb_clock st)"

lemma cb_inv_init [simp]: "cb_inv (cbcast_init actor)"
  by (simp add: cb_inv_def vclk_def cbcast_init_def dget_def dict_ok_def)

lemma vclk_deliver [simp]: "vclk (deliver st m) = bump (vclk st) m"
  by (rule ext) (simp add: vclk_def deliver_def advance_def bump_def mtime_def mvc_def)

lemma vclk_hold_queue [simp]: "vclk (st\<lparr>hold_queue := q\<rparr>) = vclk st"
  by (simp add: vclk_def fun_eq_iff)

lemma dict_ok_deliver [simp]: "dict_ok (cb_clock st) \<Longrightarrow> dict_ok (cb_clock (deliver st m))"
  by (simp add: deliver_def advance_def)

lemma deliver_hold_queue [simp]:
  "deliver (st\<lparr>hold_queue := q\<rparr>) m = (deliver st m)\<lparr>hold_queue := q\<rparr>"
  by (simp add: deliver_def)

lemma deliver_fields [simp]:
  "hold_queue (deliver st m) = hold_queue st"
  "handlers (deliver st m) = handlers st"
  "local_actor (deliver st m) = local_actor st"
  "delivered (deliver st m) = delivered st @ [message_id m]"
  "handler_calls (deliver st m) = handler_calls st @ call_handlers (handlers st) m"
  by (simp_all add: deliver_def)

abbreviation deliver_all :: "cbcast \<Rightarrow> bmsg list \<Rightarrow> cbcast" where
  "deliver_all \<equiv> foldl deliver"

lemma deliver_all_fields [simp]:
  "hold_queue (deliver_all st ms) = hold_queue st"
  "handlers (deliver_all st ms) = handlers st"
  "local_actor (deliver_all st ms) = local_actor st"
  "vclk (deliver_all st ms) = run (vclk st) ms"
  "delivered (deliver_all st ms) = delivered st @ map message_id ms"
  by (induction ms arbitrary: st) simp_all

lemma dict_ok_deliver_all [simp]:
  "dict_ok (cb_clock st) \<Longrightarrow> dict_ok (cb_clock (deliver_all st ms))"
  by (induction ms arbitrary: st) simp_all

lemma deliver_all_calls:
  "handler_calls (deliver_all st ms) =
     handler_calls st @ concat (map (call_handlers (handlers st)) ms)"
  by (induction ms arbitrary: st) simp_all

lemma deliver_all_hold_queue [simp]:
  "deliver_all (st\<lparr>hold_queue := q\<rparr>) ms = (deliver_all st ms)\<lparr>hold_queue := q\<rparr>"
  by (induction ms arbitrary: st) simp_all

text \<open>The test the code makes is the readiness of the specification.\<close>

lemma is_deliverable_ready:
  assumes "\<And>a. 0 \<le> vclk st a" and "wf_msg m"
  shows "is_deliverable (cb_clock st) m \<longleftrightarrow> ready (vclk st) m"
proof -
  have dist: "distinct (map fst (vector_clock m))"
    using assms(2) by (simp add: wf_msg_def dict_ok_def)
  have "list_all (\<lambda>(actor, t). actor = source_core m \<or> t \<le> dget (cb_clock st) actor 0) (vector_clock m)
      \<longleftrightarrow> (\<forall>a t. map_of (vector_clock m) a = Some t \<longrightarrow> a = source_core m \<or> t \<le> vclk st a)"
    using dist by (auto simp: list_all_iff vclk_def)
  also have "\<dots> \<longleftrightarrow> (\<forall>a. a \<noteq> source_core m \<longrightarrow> mvc m a \<le> vclk st a)"
    using assms(1) by (auto simp: mvc_def dget_def split: option.splits)
  finally show ?thesis
    by (auto simp: is_deliverable_def ready_def mtime_def mvc_def vclk_def Let_def)
qed

lemma run_nonneg: "(\<And>a. 0 \<le> V a) \<Longrightarrow> 0 \<le> run V ms a"
  by (meson order_trans run_mono)

lemma drain_pass_run:
  assumes "\<And>a. 0 \<le> vclk st a" and "\<forall>m \<in> set q. wf_msg m"
    and "drain_pass st q rem any = (st', rem', any')"
  shows "\<exists>ms. st' = deliver_all st ms \<and> ready_run (vclk st) ms \<and>
           mset ms + mset rem' = mset rem + mset q \<and> (any' \<longleftrightarrow> any \<or> ms \<noteq> []) \<and>
           (ms = [] \<longrightarrow> rem' = rem @ q \<and> drained (vclk st) q)"
  using assms
proof (induction q arbitrary: st rem any)
  case Nil
  then show ?case by (intro exI [of _ "[]"]) (simp add: drained_def)
next
  case (Cons m q)
  have m: "is_deliverable (cb_clock st) m \<longleftrightarrow> ready (vclk st) m"
    using Cons.prems(1,2) by (intro is_deliverable_ready) auto
  show ?case
  proof (cases "ready (vclk st) m")
    case True
    with m Cons.prems(3) have "drain_pass (deliver st m) q rem True = (st', rem', any')" by simp
    moreover have "\<And>a. 0 \<le> vclk (deliver st m) a"
      using Cons.prems(1) by (simp add: order_trans [OF _ bump_mono])
    ultimately obtain ms where "st' = deliver_all (deliver st m) ms"
        "ready_run (vclk (deliver st m)) ms" "mset ms + mset rem' = mset rem + mset q" "any'"
      using Cons.IH [of "deliver st m" rem True] Cons.prems(2) by auto
    with True show ?thesis by (intro exI [of _ "m # ms"]) simp
  next
    case False
    with m Cons.prems(3) have "drain_pass st q (rem @ [m]) any = (st', rem', any')" by simp
    then obtain ms where "st' = deliver_all st ms" "ready_run (vclk st) ms"
        "mset ms + mset rem' = mset (rem @ [m]) + mset q" "any' \<longleftrightarrow> any \<or> ms \<noteq> []"
        "ms = [] \<longrightarrow> rem' = (rem @ [m]) @ q \<and> drained (vclk st) q"
      using Cons.IH [of st "rem @ [m]" any] Cons.prems(1,2) by auto
    with False show ?thesis by (intro exI [of _ ms]) (simp add: drained_def)
  qed
qed

lemma try_deliver_buffered_run:
  assumes "cb_inv st"
  shows "\<exists>ms rem. try_deliver_buffered st = (deliver_all st ms)\<lparr>hold_queue := rem\<rparr> \<and>
           ready_run (vclk st) ms \<and> mset ms + mset rem = mset (hold_queue st) \<and>
           drained (run (vclk st) ms) rem"
  using assms
proof (induction st rule: try_deliver_buffered.induct)
  case (1 st)
  obtain s rem any where pass: "drain_pass st (hold_queue st) [] False = (s, rem, any)"
    by (metis prod_cases3)
  with "1.prems" obtain ms where ms: "s = deliver_all st ms" "ready_run (vclk st) ms"
      "mset ms + mset rem = mset (hold_queue st)" "any \<longleftrightarrow> ms \<noteq> []"
      "ms = [] \<longrightarrow> rem = hold_queue st \<and> drained (vclk st) (hold_queue st)"
    using drain_pass_run [of st "hold_queue st" "[]" False s rem any] by (auto simp: cb_inv_def)
  show ?case
  proof (cases any)
    case False
    with ms pass show ?thesis
      by - (rule exI [of _ "[]"], rule exI [of _ rem],
        simp add: try_deliver_buffered.simps [of st])
  next
    case True
    let ?s = "s\<lparr>hold_queue := rem\<rparr>"
    have "set rem \<subseteq> set (hold_queue st)"
      using ms(3) by (metis set_mset_mset set_mset_mono mset_subset_eq_add_right)
    then have "cb_inv ?s"
      using "1.prems" ms(1) run_nonneg [of "vclk st"] by (auto simp: cb_inv_def)
    from "1.IH" [OF pass [symmetric] refl True this] obtain es rem' where
      es: "try_deliver_buffered ?s = (deliver_all ?s es)\<lparr>hold_queue := rem'\<rparr>"
        "ready_run (vclk ?s) es" "mset es + mset rem' = mset rem" "drained (run (vclk ?s) es) rem'"
      by auto
    have "try_deliver_buffered st = try_deliver_buffered ?s"
      using pass True by (simp add: try_deliver_buffered.simps [of st])
    moreover have "mset (ms @ es) + mset rem' = mset (hold_queue st)"
      using ms(3) es(3) by (simp add: add.assoc)
    ultimately show ?thesis using ms es
      by - (rule exI [of _ "ms @ es"], rule exI [of _ rem'], simp add: ready_run_append)
  qed
qed


section \<open>The endpoint meets its contract\<close>

lemma receive_health: "bm_kind m \<in> HEALTH_KINDS \<Longrightarrow> receive m st = deliver st m"
  by (simp add: receive_def)

lemma receive_run:
  assumes "cb_inv st" and "wf_msg m" and "causal_msg m"
  shows "\<exists>ms rem. receive m st = (deliver_all st ms)\<lparr>hold_queue := rem\<rparr> \<and>
           ready_run (vclk st) ms \<and> mset ms + mset rem = mset (hold_queue st) + {#m#} \<and>
           drained (run (vclk st) ms) rem"
proof -
  let ?s = "st\<lparr>hold_queue := hold_queue st @ [m]\<rparr>"
  have "cb_inv ?s" using assms(1,2) by (simp add: cb_inv_def)
  from try_deliver_buffered_run [OF this] obtain ms rem where
    "try_deliver_buffered ?s = (deliver_all ?s ms)\<lparr>hold_queue := rem\<rparr>" "ready_run (vclk ?s) ms"
    "mset ms + mset rem = mset (hold_queue ?s)" "drained (run (vclk ?s) ms) rem" by blast
  with assms(3) show ?thesis
    by - (rule exI [of _ ms], rule exI [of _ rem], simp add: receive_def)
qed

lemma cb_inv_receive:
  assumes "cb_inv st" and "wf_msg m"
  shows "cb_inv (receive m st)"
proof (cases "causal_msg m")
  case True
  from receive_run [OF assms True] obtain ms rem where
    r: "receive m st = (deliver_all st ms)\<lparr>hold_queue := rem\<rparr>"
      "mset ms + mset rem = mset (hold_queue st) + {#m#}" by blast
  then have "set rem \<subseteq> insert m (set (hold_queue st))"
    by (metis add_mset_add_single mset_subset_eq_add_right set_mset_add_mset_insert set_mset_mono
        set_mset_mset)
  with assms r(1) run_nonneg [of "vclk st"] show ?thesis by (auto simp: cb_inv_def)
next
  case False
  with assms show ?thesis by (auto simp: receive_health cb_inv_def intro: order_trans [OF _ bump_mono])
qed

interpretation cb: causal_endpoint vclk hold_queue delivered receive cb_inv
proof unfold_locales
  fix st m
  assume "cb_inv st" and "wf_msg m"
  then show "cb_inv (receive m st)" by (rule cb_inv_receive)
next
  fix st m
  assume "cb_inv st" and "wf_msg m" and "causal_msg m"
  from receive_run [OF this] show "\<exists>ms. ready_run (vclk st) ms \<and>
      vclk (receive m st) = run (vclk st) ms \<and>
      delivered (receive m st) = delivered st @ map message_id ms \<and>
      mset ms + mset (hold_queue (receive m st)) = mset (hold_queue st) + {#m#} \<and>
      drained (vclk (receive m st)) (hold_queue (receive m st))"
    by fastforce
qed

text \<open>A receive that finds nothing ready only appends to the hold queue.\<close>

lemma drain_pass_none:
  "list_all (\<lambda>m. \<not> is_deliverable (cb_clock st) m) q \<Longrightarrow>
     drain_pass st q rem any = (st, rem @ q, any)"
  by (induction q arbitrary: rem) simp_all

lemma receive_not_ready:
  assumes "cb_inv st" and "wf_msg m" and "causal_msg m"
    and "drained (vclk st) (hold_queue st)" and "\<not> ready (vclk st) m"
  shows "receive m st = st\<lparr>hold_queue := hold_queue st @ [m]\<rparr>"
proof -
  let ?s = "st\<lparr>hold_queue := hold_queue st @ [m]\<rparr>"
  have "list_all (\<lambda>x. \<not> is_deliverable (cb_clock ?s) x) (hold_queue ?s)"
    using assms is_deliverable_ready [of st] by (auto simp: cb_inv_def list_all_iff drained_def)
  from drain_pass_none [OF this] show ?thesis
    using assms(3) by (simp add: receive_def try_deliver_buffered.simps [of ?s])
qed

section \<open>Runs of an endpoint\<close>

datatype cb_op =
    OpSubscribe handler
  | OpSend string string pydict "string list option" string
  | OpReceive bmsg

fun cb_step :: "cb_op \<Rightarrow> cbcast \<Rightarrow> cbcast" where
  "cb_step (OpSubscribe h) st = subscribe h st"
| "cb_step (OpSend u k p tc tr) st = snd (send u k p tc tr st)"
| "cb_step (OpReceive m) st = receive m st"

fun wf_op :: "cb_op \<Rightarrow> bool" where
  "wf_op (OpReceive m) = wf_msg m"
| "wf_op _ = True"

abbreviation cb_run :: "cb_op list \<Rightarrow> cbcast \<Rightarrow> cbcast" where
  "cb_run \<equiv> fold cb_step"

lemma vclk_send:
  "vclk (snd (send u k p tc tr st)) = (vclk st)(local_actor st := vclk st (local_actor st) + 1)"
  by (simp add: send_def vclk_def Let_def fun_eq_iff)

lemma hold_queue_send [simp]: "hold_queue (snd (send u k p tc tr st)) = hold_queue st"
  by (simp add: send_def Let_def)

lemma send_msg:
  "source_core (fst (send u k p tc tr st)) = local_actor st"
  "bm_kind (fst (send u k p tc tr st)) = k"
  "message_id (fst (send u k p tc tr st)) = ''bc_'' @ take 12 u"
  "mvc (fst (send u k p tc tr st)) = vclk (snd (send u k p tc tr st))"
  by (simp_all add: send_def Let_def mvc_def vclk_def fun_eq_iff)

lemma cb_inv_send: "cb_inv st \<Longrightarrow> cb_inv (snd (send u k p tc tr st))"
  by (auto simp: cb_inv_def vclk_send) (simp add: send_def Let_def)

lemma cb_inv_step: "cb_inv st \<Longrightarrow> wf_op op \<Longrightarrow> cb_inv (cb_step op st)"
proof (cases op)
  case (OpSubscribe h)
  then show "cb_inv st \<Longrightarrow> ?thesis" by (simp add: subscribe_def cb_inv_def vclk_def)
next
  case (OpSend u k p tc tr)
  then show "cb_inv st \<Longrightarrow> ?thesis" by (simp add: cb_inv_send)
next
  case (OpReceive m)
  then show "cb_inv st \<Longrightarrow> wf_op op \<Longrightarrow> ?thesis" by (simp add: cb_inv_receive)
qed

lemma vclk_step_mono:
  assumes "cb_inv st" and "wf_op op"
  shows "vclk st a \<le> vclk (cb_step op st) a"
proof (cases op)
  case (OpSubscribe h)
  then show ?thesis by (simp add: subscribe_def vclk_def)
next
  case (OpSend u k p tc tr)
  then show ?thesis by (simp add: vclk_send)
next
  case (OpReceive m)
  show ?thesis
  proof (cases "causal_msg m")
    case True
    with OpReceive assms receive_run [of st m] show ?thesis by (auto intro: run_mono)
  next
    case False
    with OpReceive show ?thesis by (simp add: receive_health bump_mono)
  qed
qed

text \<open>
  A held message whose counter is not above the local clock is never delivered: it stays in the
  hold queue through every later operation.
\<close>

lemma stale_step:
  assumes "cb_inv st" and "wf_op op" and "mtime m \<le> vclk st (source_core m)"
  shows "count (mset (hold_queue st)) m \<le> count (mset (hold_queue (cb_step op st))) m"
proof (cases op)
  case (OpSubscribe h)
  then show ?thesis by (simp add: subscribe_def)
next
  case (OpSend u k p tc tr)
  then show ?thesis by simp
next
  case (OpReceive x)
  show ?thesis
  proof (cases "causal_msg x")
    case True
    with OpReceive assms obtain ms rem where
      r: "receive x st = (deliver_all st ms)\<lparr>hold_queue := rem\<rparr>" "ready_run (vclk st) ms"
        "mset ms + mset rem = mset (hold_queue st) + {#x#}"
      using receive_run [of st x] by auto
    have "m \<notin> set ms" using ready_run_mem_times(1) [OF r(2)] assms(3) by fastforce
    then have "count (mset ms) m = 0" by (simp add: count_eq_zero_iff)
    with arg_cong [OF r(3), of "\<lambda>M. count M m"] r(1) OpReceive show ?thesis by simp
  next
    case False
    with OpReceive show ?thesis by (simp add: receive_health)
  qed
qed

lemma stale_run:
  assumes "cb_inv st" and "\<forall>op \<in> set ops. wf_op op" and "mtime m \<le> vclk st (source_core m)"
    and "m \<in> set (hold_queue st)"
  shows "m \<in> set (hold_queue (cb_run ops st))"
  using assms
proof (induction ops arbitrary: st)
  case Nil
  then show ?case by simp
next
  case (Cons op ops)
  have "mtime m \<le> vclk (cb_step op st) (source_core m)"
    using Cons.prems vclk_step_mono [of st op] by (meson list.set_intros(1) order_trans)
  moreover have "m \<in> set (hold_queue (cb_step op st))"
    using Cons.prems stale_step [of st op m] by (metis count_eq_zero_iff le_zero_eq list.set_intros(1) set_mset_mset)
  ultimately show ?case
    using Cons.prems Cons.IH [of "cb_step op st"] by (simp add: cb_inv_step)
qed


section \<open>Properties\<close>

text \<open>Concrete messages for the witnesses.\<close>

definition example_msg :: "string \<Rightarrow> string \<Rightarrow> string \<Rightarrow> (string, int) dict \<Rightarrow> bmsg" where
  "example_msg mid src knd vc =
     \<lparr>message_id = mid, source_core = src, bm_kind = knd, bm_payload = [], vector_clock = vc,
      bm_trace_id = [], bm_dependencies = []\<rparr>"

lemma example_msg_simps [simp]:
  "message_id (example_msg i s k v) = i" "source_core (example_msg i s k v) = s"
  "bm_kind (example_msg i s k v) = k" "vector_clock (example_msg i s k v) = v"
  by (simp_all add: example_msg_def)

lemmas example_eval = example_msg_def mvc_def mtime_def dget_def wf_msg_def dict_ok_def
  HEALTH_KINDS_def cbcast_init_def vclk_def drained_def ready_def

text \<open>
  C9: the state a new endpoint reaches does not depend on the order in which messages arrive. Two arrival
  orders of the same messages end with the same clock, the same delivered messages and the same held messages
  (as multisets), when none of them is a health beacon, their clocks are well formed, and no two different
  messages carry the same sender and sender counter.
\<close>

theorem receive_order_independent:
  assumes "mset ms = mset ms'" and "\<forall>m \<in> set ms. wf_msg m \<and> bm_kind m \<notin> HEALTH_KINDS"
    and "inj_on (\<lambda>m. (source_core m, mtime m)) (set ms)"
  shows "vclk (fold receive ms (cbcast_init actor)) = vclk (fold receive ms' (cbcast_init actor)) \<and>
    mset (delivered (fold receive ms (cbcast_init actor))) =
      mset (delivered (fold receive ms' (cbcast_init actor))) \<and>
    mset (hold_queue (fold receive ms (cbcast_init actor))) =
      mset (hold_queue (fold receive ms' (cbcast_init actor)))"
proof -
  have "hold_queue (cbcast_init actor) = []" by (simp add: cbcast_init_def)
  from cb.recv_all_confluent [OF cb_inv_init this assms] show ?thesis by simp
qed

theorem receive_order_independent_witness:
  "let m1 = example_msg ''a1'' ''A'' ''control'' [(''A'', 1)];
       m2 = example_msg ''a2'' ''A'' ''memory'' [(''A'', 2)]
   in delivered (fold receive [m1, m2] (cbcast_init ''B'')) = [''a1'', ''a2''] \<and>
      mset (delivered (fold receive [m2, m1] (cbcast_init ''B''))) = {#''a1'', ''a2''#}"
proof -
  let ?m1 = "example_msg ''a1'' ''A'' ''control'' [(''A'', 1)]"
  let ?m2 = "example_msg ''a2'' ''A'' ''memory'' [(''A'', 2)]"
  have d: "delivered (fold receive [?m1, ?m2] (cbcast_init ''B'')) = [''a1'', ''a2'']"
    by code_simp
  have "mset (delivered (fold receive [?m1, ?m2] (cbcast_init ''B''))) =
      mset (delivered (fold receive [?m2, ?m1] (cbcast_init ''B'')))"
    using receive_order_independent [of "[?m1, ?m2]" "[?m2, ?m1]" "''B''"]
    by (simp add: example_eval del: fold_simps) 
  with d show ?thesis by (simp only: Let_def) simp
qed

text \<open>
  C17: per-sender order without gaps. Whatever messages with well-formed clocks, none of them a health beacon, a new
  endpoint receives, in whatever order, the messages it delivers are among those received, and the counters of the
  messages delivered from one sender are exactly 1, 2, and so on up to the clock entry.
\<close>

theorem receive_fifo:
  assumes "\<forall>m \<in> set ms. wf_msg m \<and> bm_kind m \<notin> HEALTH_KINDS"
  shows "\<exists>ds. delivered (fold receive ms (cbcast_init actor)) = map message_id ds \<and>
    mset ds \<subseteq># mset ms \<and>
    (\<forall>s. map mtime (filter (\<lambda>m. source_core m = s) ds) =
           [1..vclk (fold receive ms (cbcast_init actor)) s])"
proof -
  let ?i = "cbcast_init actor"
  have i: "hold_queue ?i = []" "delivered ?i = []" "vclk ?i = (\<lambda>_. 0)"
    by (auto simp: cbcast_init_def vclk_def dget_def)
  have "drained (vclk ?i) (hold_queue ?i)" by (simp add: drained_def i)
  from cb.recv_all_run [OF cb_inv_init assms this] obtain ds where ds:
    "ready_run (vclk ?i) ds" "vclk (fold receive ms ?i) = run (vclk ?i) ds"
    "delivered (fold receive ms ?i) = delivered ?i @ map message_id ds"
    "mset ds + mset (hold_queue (fold receive ms ?i)) = mset (hold_queue ?i) + mset ms"
    by blast
  have "mset ds \<subseteq># mset ms" using ds(4) i(1) by (metis add_0 mset.simps(1) mset_subset_eq_add_left)
  with ds(1-3) i show ?thesis using ready_run_times [OF ds(1)] by (intro exI [of _ ds]) simp
qed

theorem receive_fifo_witness:
  "let m1 = example_msg ''a1'' ''A'' ''control'' [(''A'', 1)];
       m2 = example_msg ''a2'' ''A'' ''policy'' [(''A'', 2)]
   in \<exists>ds. delivered (fold receive [m2, m1] (cbcast_init ''B'')) = map message_id ds \<and>
        mset ds \<subseteq># mset [m2, m1] \<and> ds \<noteq> []"
proof -
  let ?m1 = "example_msg ''a1'' ''A'' ''control'' [(''A'', 1)]"
  let ?m2 = "example_msg ''a2'' ''A'' ''policy'' [(''A'', 2)]"
  have "delivered (fold receive [?m2, ?m1] (cbcast_init ''B'')) \<noteq> []" by code_simp
  moreover have "\<forall>m \<in> set [?m2, ?m1]. wf_msg m \<and> bm_kind m \<notin> HEALTH_KINDS"
    by (simp add: example_eval)
  moreover from receive_fifo [OF this, of "''B''"] obtain ds where
    "delivered (fold receive [?m2, ?m1] (cbcast_init ''B'')) = map message_id ds"
    "mset ds \<subseteq># mset [?m2, ?m1]" by blast
  ultimately show ?thesis unfolding Let_def by (intro exI [of _ ds]) auto
qed

text \<open>
  C13: what a receive delivers, by the kind of the message. A health beacon is delivered at once and the hold
  queue stays as it is, also when the beacon has made a held message deliverable. For a message of any other kind, what
  was held and the new message are split into what is delivered now and what is held afterwards,
  each delivered message passes the code's own test at the moment of its delivery, and no
  message left in the hold queue passes it. The endpoint keeps its invariant, and the message has a well-formed
  clock.
\<close>

theorem receive_drains:
  assumes "cb_inv st" and "wf_msg m"
  shows "if bm_kind m \<in> HEALTH_KINDS
    then delivered (receive m st) = delivered st @ [message_id m] \<and> hold_queue (receive m st) = hold_queue st
    else \<exists>ms. delivered (receive m st) = delivered st @ map message_id ms \<and>
      mset ms + mset (hold_queue (receive m st)) = mset (hold_queue st) + {#m#} \<and>
      (\<forall>xs x ys. ms = xs @ x # ys \<longrightarrow> is_deliverable (cb_clock (deliver_all st xs)) x) \<and>
      (\<forall>x \<in> set (hold_queue (receive m st)). \<not> is_deliverable (cb_clock (receive m st)) x)"
proof (cases "causal_msg m")
  case False
  then show ?thesis by (simp add: receive_health)
next
  case True
  obtain ms rem where
    r: "receive m st = (deliver_all st ms)\<lparr>hold_queue := rem\<rparr>" "ready_run (vclk st) ms"
      "mset ms + mset rem = mset (hold_queue st) + {#m#}" "drained (run (vclk st) ms) rem"
    using receive_run [OF assms True] by blast
  have wf: "wf_msg x" if "x \<in> set ms \<or> x \<in> set rem" for x
  proof -
    have "x \<in># mset ms + mset rem" using that by simp
    then have "x \<in># mset (hold_queue st) + {#m#}" by (simp only: r(3))
    with assms(1,2) show ?thesis by (auto simp: cb_inv_def)
  qed
  have nonneg: "0 \<le> vclk (deliver_all st xs) a" for xs a
    using assms(1) by (simp add: cb_inv_def run_nonneg)
  have "is_deliverable (cb_clock (deliver_all st xs)) x" if "ms = xs @ x # ys" for xs x ys
    using r(2) that wf [of x] is_deliverable_ready [OF nonneg [of xs], of x]
    by (simp add: ready_run_append)
  moreover have "\<not> is_deliverable (cb_clock (receive m st)) x" if "x \<in> set rem" for x
    using r(1,4) that wf [of x] is_deliverable_ready [OF nonneg [of ms], of x]
    by (simp add: drained_def)
  ultimately show ?thesis using r(1,3) True by (auto intro!: exI [of _ ms])
qed

theorem receive_drains_witness:
  "let m = example_msg ''a2'' ''A'' ''control'' [(''A'', 2)]; h = example_msg ''a1'' ''A'' ''health'' [(''A'', 1)];
       st = receive m (cbcast_init ''B'')
   in (\<exists>ms. delivered st = map message_id ms \<and> mset ms + mset (hold_queue st) = {#m#}) \<and>
      delivered (receive h st) = delivered st @ [''a1''] \<and> hold_queue (receive h st) = hold_queue st"
proof -
  let ?m = "example_msg ''a2'' ''A'' ''control'' [(''A'', 2)]" and ?h = "example_msg ''a1'' ''A'' ''health'' [(''A'', 1)]"
  let ?st = "receive ?m (cbcast_init ''B'')"
  have wf: "wf_msg ?m" "wf_msg ?h" and k: "bm_kind ?m \<notin> HEALTH_KINDS" "bm_kind ?h \<in> HEALTH_KINDS"
    by (simp_all add: example_eval)
  have "delivered (cbcast_init ''B'') = []" "hold_queue (cbcast_init ''B'') = []" by (simp_all add: cbcast_init_def)
  with receive_drains [OF cb_inv_init wf(1), of "''B''"] k(1)
  have "\<exists>ms. delivered ?st = map message_id ms \<and> mset ms + mset (hold_queue ?st) = {#?m#}" by auto
  moreover have "delivered (receive ?h ?st) = delivered ?st @ [''a1''] \<and> hold_queue (receive ?h ?st) = hold_queue ?st"
    using receive_drains [OF cb_inv_receive [OF cb_inv_init wf(1)] wf(2)] k(2) by simp
  ultimately show ?thesis unfolding Let_def by blast
qed

text \<open>
  Every handler sees every delivery. A receive calls the registered handlers on each
  message it delivers, in the order of delivery and of registration, whether or not a handler
  raises: the calls made are exactly the product of the delivered messages and the handlers.
\<close>

theorem handlers_see_every_delivery:
  assumes "cb_inv st" and "wf_msg m"
  shows "\<exists>ms. delivered (receive m st) = delivered st @ map message_id ms \<and>
      handler_calls (receive m st) = handler_calls st @
        concat (map (\<lambda>x. map (\<lambda>(i, h). (i, x, h x)) (enumerate 0 (handlers st))) ms)"
proof (cases "causal_msg m")
  case True
  with receive_run [OF assms] show ?thesis
    by (fastforce simp: deliver_all_calls call_handlers_def [abs_def])
next
  case False
  then show ?thesis
    by (intro exI [of _ "[m]"]) (simp add: receive_health call_handlers_def)
qed

theorem handlers_see_every_delivery_witness:
  "let m = example_msg ''a1'' ''A'' ''control'' [(''A'', 1)];
       st = subscribe (\<lambda>_. None) (subscribe (\<lambda>_. Some (RuntimeError ''boom'')) (cbcast_init ''B''))
   in (\<exists>ms. handler_calls (receive m st) =
        concat (map (\<lambda>x. map (\<lambda>(i, h). (i, x, h x)) (enumerate 0 (handlers st))) ms)) \<and>
      map (\<lambda>(i, x, r). (i, message_id x, r)) (handler_calls (receive m st)) =
        [(0, ''a1'', Some (RuntimeError ''boom'')), (1, ''a1'', None)]"
proof -
  let ?m = "example_msg ''a1'' ''A'' ''control'' [(''A'', 1)]"
  let ?st = "subscribe (\<lambda>_. None) (subscribe (\<lambda>_. Some (RuntimeError ''boom'')) (cbcast_init ''B''))"
  have wf: "wf_msg ?m" by (simp add: example_eval)
  have inv: "cb_inv ?st" by (simp add: cb_inv_def example_eval subscribe_def)
  have "handler_calls ?st = []" by (simp add: subscribe_def cbcast_init_def)
  with handlers_see_every_delivery [OF inv wf] have
    "\<exists>ms. handler_calls (receive ?m ?st) =
       concat (map (\<lambda>x. map (\<lambda>(i, h). (i, x, h x)) (enumerate 0 (handlers ?st))) ms)" by auto
  moreover have "map (\<lambda>(i, x, r). (i, message_id x, r)) (handler_calls (receive ?m ?st)) =
        [(0, ''a1'', Some (RuntimeError ''boom'')), (1, ''a1'', None)]"
    by code_simp
  ultimately show ?thesis unfolding Let_def by blast
qed

text \<open>
  A message that repeats a counter already delivered is never delivered again, and it is
  never dropped: from a drained state a receive only appends it to the hold queue, where every
  later sequence of operations leaves it.
\<close>

theorem duplicate_held_not_delivered:
  assumes "cb_inv st" and "wf_msg m" and "bm_kind m \<notin> HEALTH_KINDS"
    and "drained (vclk st) (hold_queue st)" and "mtime m \<le> vclk st (source_core m)"
  shows "receive m st = st\<lparr>hold_queue := hold_queue st @ [m]\<rparr> \<and>
     (\<forall>ops. (\<forall>op \<in> set ops. wf_op op) \<longrightarrow> m \<in> set (hold_queue (cb_run ops (receive m st))))"
proof -
  from assms(5) have "\<not> ready (vclk st) m" by (simp add: ready_def)
  with assms have eq: "receive m st = st\<lparr>hold_queue := hold_queue st @ [m]\<rparr>"
    by (intro receive_not_ready)
  have "m \<in> set (hold_queue (cb_run ops (receive m st)))" if "\<forall>op \<in> set ops. wf_op op" for ops
    using stale_run [OF cb_inv_receive [OF assms(1,2)] that] assms(5) eq by simp
  with eq show ?thesis by blast
qed

theorem duplicate_held_not_delivered_witness:
  "let m = example_msg ''a1'' ''A'' ''control'' [(''A'', 1)];
       st = receive m (cbcast_init ''B'')
   in delivered (receive m st) = [''a1''] \<and> hold_queue (receive m st) = [m]"
proof -
  let ?m = "example_msg ''a1'' ''A'' ''control'' [(''A'', 1)]"
  let ?st = "receive ?m (cbcast_init ''B'')"
  have wf: "wf_msg ?m" and k: "bm_kind ?m \<notin> HEALTH_KINDS" by (simp_all add: example_eval)
  have st: "delivered ?st = [''a1'']" "hold_queue ?st = []" "cb_clock ?st = [(''B'', 0), (''A'', 1)]"
    by code_simp+
  have le: "mtime ?m \<le> vclk ?st (source_core ?m)" using st(3) by (simp add: example_eval)
  have "drained (vclk ?st) (hold_queue ?st)" by (simp add: st drained_def)
  from duplicate_held_not_delivered [OF cb_inv_receive [OF cb_inv_init wf] wf k this le] st(1,2)
  show ?thesis by (simp add: Let_def)
qed


text \<open>
  C40: a health beacon that overtakes a causal message of the same sender blocks that message for
  good. \<open>send\<close> stamps every kind from the same counter and the delivery of a health message moves
  the receiver's entry for the sender to the beacon's counter, so the causal message sent
  before it is stale when it arrives: it enters the hold queue and no later sequence of
  operations takes it out.
\<close>

theorem health_overtakes_forever:
  assumes m: "send u1 knd pl1 tc1 tr1 sender = (m, sender1)" and "knd \<notin> HEALTH_KINDS"
    and h: "send u2 ''health'' pl2 tc2 tr2 sender1 = (h, sender2)"
    and "cb_inv st" and "cb_inv sender"
    and "\<forall>op \<in> set ops. wf_op op"
  shows "m \<in> set (hold_queue (cb_run ops (receive m (receive h st))))"
proof -
  have src: "source_core m = local_actor sender" "source_core h = local_actor sender"
    and knd: "causal_msg m" "bm_kind h \<in> HEALTH_KINDS"
    and clocks: "vector_clock m = cb_clock sender1" "vector_clock h = cb_clock sender2"
      "cb_clock sender1 = dset (cb_clock sender) (local_actor sender) (mtime m)"
      "cb_clock sender2 = dset (cb_clock sender1) (local_actor sender) (mtime m + 1)"
    using m h assms(2)
    by (auto simp: send_def Let_def HEALTH_KINDS_def mtime_def mvc_def)
  have wf: "wf_msg m" "wf_msg h"
    using assms(5) clocks by (auto simp: wf_msg_def cb_inv_def)
  have time: "mtime h = mtime m + 1" using clocks src by (simp add: mtime_def mvc_def)
  let ?s = "receive h st"
  have s: "cb_inv ?s" "mtime m \<le> vclk ?s (source_core m)"
    using cb_inv_receive [OF assms(4) wf(2)] knd(2) src time
    by (simp_all add: receive_health bump_def)
  have "count (mset (hold_queue ?s @ [m])) m \<le> count (mset (hold_queue (receive m ?s))) m"
  proof -
    obtain ms rem where r: "receive m ?s = (deliver_all ?s ms)\<lparr>hold_queue := rem\<rparr>"
        "ready_run (vclk ?s) ms" "mset ms + mset rem = mset (hold_queue ?s) + {#m#}"
      using receive_run [OF s(1) wf(1) knd(1)] by blast
    have "m \<notin> set ms" using ready_run_mem_times(1) [OF r(2)] s(2) by fastforce
    then have "count (mset ms) m = 0" by (simp add: count_eq_zero_iff)
    with arg_cong [OF r(3), of "\<lambda>M. count M m"] r(1) show ?thesis by simp
  qed
  then have "m \<in> set (hold_queue (receive m ?s))"
    by (metis count_eq_zero_iff in_set_conv_decomp le_zero_eq set_mset_mset)
  moreover have "mtime m \<le> vclk (receive m ?s) (source_core m)"
    using vclk_step_mono [OF s(1), of "OpReceive m"] wf(1) s(2) by (auto intro: order_trans)
  ultimately show ?thesis
    using stale_run [OF cb_inv_receive [OF s(1) wf(1)] assms(6)] by blast
qed

theorem health_overtakes_forever_witness:
  "let (m, a1) = send ''0123456789abcdef'' ''control'' [] None [] (cbcast_init ''A'');
       (h, a2) = send ''fedcba9876543210'' ''health'' [] None [] a1
   in m \<in> set (hold_queue (receive m (receive h (cbcast_init ''B''))))"
proof -
  obtain m a1 where m: "send ''0123456789abcdef'' ''control'' [] None [] (cbcast_init ''A'') = (m, a1)"
    by fastforce
  obtain h a2 where h: "send ''fedcba9876543210'' ''health'' [] None [] a1 = (h, a2)"
    by fastforce
  have k: "''control'' \<notin> HEALTH_KINDS" and ops: "\<forall>op \<in> set []. wf_op op"
    by (simp_all add: HEALTH_KINDS_def)
  from health_overtakes_forever [OF m k h cb_inv_init cb_inv_init ops, of "''B''"] m h show ?thesis
    by simp
qed

text \<open>
  Delivering a health message does not drain the hold queue. When the beacon's counter is
  the one a held message waits for, that message becomes deliverable and stays held: only
  the next causal receive looks at the queue again.
\<close>

theorem health_leaves_ready_message:
  assumes "cb_inv st" and "wf_msg m" and "m \<in> set (hold_queue st)"
    and "bm_kind h \<in> HEALTH_KINDS" and "source_core h = source_core m"
    and "mtime m = mtime h + 1" and "mtime h = vclk st (source_core m) + 1"
    and "\<forall>a. a \<noteq> source_core m \<longrightarrow> mvc m a \<le> vclk st a"
  shows "m \<in> set (hold_queue (receive h st)) \<and> is_deliverable (cb_clock (receive h st)) m"
proof -
  have v: "vclk (receive h st) = (vclk st)(source_core m := mtime h)"
    using assms(4,5,7) by (simp add: receive_health bump_def)
  then have "ready (vclk (receive h st)) m"
    using assms(6,8) by (simp add: ready_def)
  moreover have "0 \<le> vclk (receive h st) a" for a
    using assms(1,4) by (auto simp: receive_health cb_inv_def intro: order_trans [OF _ bump_mono])
  ultimately show ?thesis
    using assms(2-4) by (simp add: is_deliverable_ready receive_health)
qed

theorem health_leaves_ready_message_witness:
  "let m = example_msg ''a2'' ''A'' ''control'' [(''A'', 2)];
       h = example_msg ''a1'' ''A'' ''health'' [(''A'', 1)];
       st = receive m (cbcast_init ''B'')
   in m \<in> set (hold_queue (receive h st)) \<and> is_deliverable (cb_clock (receive h st)) m"
proof -
  let ?m = "example_msg ''a2'' ''A'' ''control'' [(''A'', 2)]"
  let ?h = "example_msg ''a1'' ''A'' ''health'' [(''A'', 1)]"
  let ?st = "receive ?m (cbcast_init ''B'')"
  have wf: "wf_msg ?m" by (simp add: example_eval)
  have st: "hold_queue ?st = [?m]" "cb_clock ?st = [(''B'', 0)]" by code_simp+
  have v: "vclk ?st = (\<lambda>_. 0)" by (rule ext) (simp add: vclk_def st(2) dget_def)
  show ?thesis unfolding Let_def
    by (rule health_leaves_ready_message [OF cb_inv_receive [OF cb_inv_init wf] wf])
      (simp_all add: st(1) v mtime_def mvc_def dget_def HEALTH_KINDS_def)
qed

end
