(* ===== verification/Causal_Order.thy ===== *)
theory Causal_Order
  imports Broadcast_Message
begin

text \<open>
  The abstract system behind a group of broadcast endpoints: vector clocks \<open>V\<close>, the messages
  \<open>S\<close> sent so far in order, the messages \<open>D\<close> delivered at each actor in order, and the direct
  causes \<open>C\<close> of each message (what its sender had delivered or sent before it). The invariant
  \<open>causal_sys\<close> is kept by sending and by delivering a ready message.
\<close>

definition earlier :: "bmsg \<Rightarrow> bmsg \<Rightarrow> bool" where
  "earlier m' m \<longleftrightarrow> m' \<noteq> m \<and> mtime m' \<le> mvc m (source_core m')"

definition past_closed :: "bmsg set \<Rightarrow> bmsg list \<Rightarrow> bool" where
  "past_closed M ds \<longleftrightarrow>
     (\<forall>xs m ys. ds = xs @ m # ys \<longrightarrow> (\<forall>m' \<in> M. earlier m' m \<longrightarrow> m' \<in> set xs))"

lemma past_closed_Nil [simp]: "past_closed M []"
  by (simp add: past_closed_def)

lemma past_closed_snoc [simp]:
  "past_closed M (ds @ [m]) \<longleftrightarrow> past_closed M ds \<and> (\<forall>m' \<in> M. earlier m' m \<longrightarrow> m' \<in> set ds)"
  (is "?l \<longleftrightarrow> ?r")
proof
  assume ?l
  then show ?r unfolding past_closed_def by (metis append.assoc append_Cons)
next
  assume r: ?r
  show ?l
    unfolding past_closed_def
  proof (intro allI impI)
    fix xs x ys
    assume "ds @ [m] = xs @ x # ys"
    then show "\<forall>m' \<in> M. earlier m' x \<longrightarrow> m' \<in> set xs"
      using r by (cases ys rule: rev_cases) (auto simp: past_closed_def)
  qed
qed

lemma past_closed_insert:
  "past_closed M ds \<Longrightarrow> \<forall>d \<in> set ds. \<not> earlier x d \<Longrightarrow> past_closed (insert x M) ds"
  by (fastforce simp: past_closed_def)

definition causal_sys ::
    "(string \<Rightarrow> vclock) \<Rightarrow> bmsg list \<Rightarrow> (string \<Rightarrow> bmsg list) \<Rightarrow> (string \<Rightarrow> string set) \<Rightarrow> bool" where
  "causal_sys V S D C \<longleftrightarrow>
     distinct (map message_id S) \<and>
     (\<forall>m \<in> set S. \<forall>a. 0 \<le> mvc m a) \<and>
     (\<forall>p. map mtime (filter (\<lambda>m. source_core m = p) S) = [1..V p p]) \<and>
     (\<forall>p r. 0 \<le> V p r \<and> V p r \<le> V r r) \<and>
     (\<forall>p. set (D p) \<subseteq> set S) \<and>
     (\<forall>p r. map mtime (filter (\<lambda>m. source_core m = r) (D p)) = (if r = p then [] else [1..V p r])) \<and>
     (\<forall>p. \<forall>m \<in> set S. source_core m = p \<or> m \<in> set (D p) \<longrightarrow> (\<forall>a. mvc m a \<le> V p a)) \<and>
     (\<forall>m \<in> set S. C (message_id m) \<subseteq> message_id ` set S) \<and>
     (\<forall>m \<in> set S. \<forall>m' \<in> set S. message_id m' \<in> C (message_id m) \<longrightarrow>
        (\<forall>a. mvc m' a \<le> mvc m a) \<and> mvc m' (source_core m) < mvc m (source_core m)) \<and>
     past_closed (set S) S \<and>
     (\<forall>p. past_closed {m \<in> set S. source_core m \<noteq> p} (D p))"

lemma causal_sysD:
  assumes "causal_sys V S D C"
  shows causal_ids: "distinct (map message_id S)"
    and causal_nonneg: "\<And>m a. m \<in> set S \<Longrightarrow> 0 \<le> mvc m a"
    and causal_sent: "\<And>p. map mtime (filter (\<lambda>m. source_core m = p) S) = [1..V p p]"
    and causal_bounds: "\<And>p r. 0 \<le> V p r \<and> V p r \<le> V r r"
    and causal_dlv_sub: "\<And>p. set (D p) \<subseteq> set S"
    and causal_dlv: "\<And>p r. map mtime (filter (\<lambda>m. source_core m = r) (D p)) =
        (if r = p then [] else [1..V p r])"
    and causal_known: "\<And>p m a. m \<in> set S \<Longrightarrow> source_core m = p \<or> m \<in> set (D p) \<Longrightarrow> mvc m a \<le> V p a"
    and causal_causes_sub: "\<And>m. m \<in> set S \<Longrightarrow> C (message_id m) \<subseteq> message_id ` set S"
    and causal_causes: "\<And>m m' a. m \<in> set S \<Longrightarrow> m' \<in> set S \<Longrightarrow> message_id m' \<in> C (message_id m) \<Longrightarrow>
        mvc m' a \<le> mvc m a \<and> mvc m' (source_core m) < mvc m (source_core m)"
    and causal_sent_past: "past_closed (set S) S"
    and causal_dlv_past: "\<And>p. past_closed {m \<in> set S. source_core m \<noteq> p} (D p)"
  using assms unfolding causal_sys_def by simp_all blast

lemma causal_sysI:
  assumes "distinct (map message_id S)"
    and "\<And>m a. m \<in> set S \<Longrightarrow> 0 \<le> mvc m a"
    and "\<And>p. map mtime (filter (\<lambda>m. source_core m = p) S) = [1..V p p]"
    and "\<And>p r. 0 \<le> V p r \<and> V p r \<le> V r r"
    and "\<And>p. set (D p) \<subseteq> set S"
    and "\<And>p r. map mtime (filter (\<lambda>m. source_core m = r) (D p)) = (if r = p then [] else [1..V p r])"
    and "\<And>p m a. m \<in> set S \<Longrightarrow> source_core m = p \<or> m \<in> set (D p) \<Longrightarrow> mvc m a \<le> V p a"
    and "\<And>m. m \<in> set S \<Longrightarrow> C (message_id m) \<subseteq> message_id ` set S"
    and "\<And>m m'. m \<in> set S \<Longrightarrow> m' \<in> set S \<Longrightarrow> message_id m' \<in> C (message_id m) \<Longrightarrow>
        (\<forall>a. mvc m' a \<le> mvc m a) \<and> mvc m' (source_core m) < mvc m (source_core m)"
    and "past_closed (set S) S"
    and "\<And>p. past_closed {m \<in> set S. source_core m \<noteq> p} (D p)"
  shows "causal_sys V S D C"
  unfolding causal_sys_def
  by (intro conjI allI ballI impI) (use assms in blast)+

lemma sent_time:
  assumes "causal_sys V S D C" and "m \<in> set S"
  shows "1 \<le> mtime m" and "mtime m \<le> V (source_core m) (source_core m)"
proof -
  have "mtime m \<in> set (map mtime (filter (\<lambda>x. source_core x = source_core m) S))"
    using assms(2) by auto
  then have "mtime m \<in> {1..V (source_core m) (source_core m)}"
    unfolding causal_sent [OF assms(1)] by simp
  then show "1 \<le> mtime m" and "mtime m \<le> V (source_core m) (source_core m)" by auto
qed

lemma sent_unique:
  assumes sys: "causal_sys V S D C" and "m \<in> set S" "m' \<in> set S"
    and "source_core m = source_core m'" "mtime m = mtime m'"
  shows "m = m'"
proof -
  let ?f = "filter (\<lambda>x. source_core x = source_core m) S"
  have "distinct (map mtime ?f)" unfolding causal_sent [OF sys] by simp
  then have "inj_on mtime (set ?f)" by (simp add: distinct_map)
  with assms(2-5) show ?thesis by (auto dest: inj_onD)
qed

lemma sent_exists:
  assumes "causal_sys V S D C" and "1 \<le> t" and "t \<le> V p p"
  obtains m where "m \<in> set S" and "source_core m = p" and "mtime m = t"
proof -
  have "t \<in> set (map mtime (filter (\<lambda>m. source_core m = p) S))"
    unfolding causal_sent [OF assms(1)] using assms(2,3) by simp
  then show thesis using that by auto
qed

text \<open>At an actor, the messages of another actor that are delivered are those the clock covers.\<close>

lemma dlv_iff:
  assumes sys: "causal_sys V S D C" and m: "m \<in> set S" and "source_core m \<noteq> p"
  shows "m \<in> set (D p) \<longleftrightarrow> mtime m \<le> V p (source_core m)"
proof
  assume "m \<in> set (D p)"
  then have "mtime m \<in> set (map mtime (filter (\<lambda>x. source_core x = source_core m) (D p)))" by auto
  then show "mtime m \<le> V p (source_core m)"
    unfolding causal_dlv [OF sys] using assms(3) by simp
next
  assume "mtime m \<le> V p (source_core m)"
  with sent_time(1) [OF sys m] have
    "mtime m \<in> set (map mtime (filter (\<lambda>x. source_core x = source_core m) (D p)))"
    unfolding causal_dlv [OF sys] using assms(3) by simp
  then obtain d where d: "d \<in> set (D p)" "source_core d = source_core m" "mtime d = mtime m"
    by auto
  with causal_dlv_sub [OF sys] sent_unique [OF sys _ m] have "d = m" by blast
  with d(1) show "m \<in> set (D p)" by simp
qed

lemma dlv_not_own:
  assumes "causal_sys V S D C" and "m \<in> set (D p)"
  shows "source_core m \<noteq> p"
proof
  assume "source_core m = p"
  with assms(2) have "mtime m \<in> set (map mtime (filter (\<lambda>x. source_core x = p) (D p)))" by auto
  then show False unfolding causal_dlv [OF assms(1)] by simp
qed

lemma ready_not_own:
  assumes "causal_sys V S D C" and "m \<in> set S" and "ready (V p) m"
  shows "source_core m \<noteq> p"
  using sent_time(2) [OF assms(1,2)] assms(3) by (auto simp: ready_def)

text \<open>No known message has a message still to be sent in its past.\<close>

lemma sent_known_bound:
  assumes "causal_sys V S D C" and "m \<in> set S"
  shows "mvc m p \<le> V p p"
  using causal_known [OF assms, of "source_core m" p] causal_bounds [OF assms(1)]
  by (meson order_trans)

lemma ready_past_delivered:
  assumes sys: "causal_sys V S D C" and m: "m \<in> set S" "ready (V p) m"
    and m': "m' \<in> set S" "source_core m' \<noteq> p" "earlier m' m"
  shows "m' \<in> set (D p)"
proof -
  have "mtime m' \<le> V p (source_core m')"
  proof (cases "source_core m' = source_core m")
    case True
    with m'(3) have "mtime m' \<le> mtime m" by (simp add: earlier_def mtime_def)
    moreover have "mtime m' \<noteq> mtime m"
      using sent_unique [OF sys m'(1) m(1) True] m'(3) by (auto simp: earlier_def)
    ultimately show ?thesis using m(2) True by (simp add: ready_def)
  next
    case False
    with m(2) m'(3) show ?thesis by (auto simp: ready_def earlier_def intro: order_trans)
  qed
  with dlv_iff [OF sys m'(1,2)] show ?thesis by simp
qed


section \<open>The two steps\<close>

text \<open>An actor delivers a ready message.\<close>

lemma causal_sys_deliver:
  assumes sys: "causal_sys V S D C" and m: "m \<in> set S" "ready (V p) m"
  shows "causal_sys (V(p := bump (V p) m)) S (D(p := D p @ [m])) C"
proof -
  let ?s = "source_core m"
  let ?V = "V(p := bump (V p) m)" and ?D = "D(p := D p @ [m])"
  have own: "?s \<noteq> p" by (rule ready_not_own [OF sys m])
  have bump: "bump (V p) m = (V p)(?s := mtime m)" and next_time: "mtime m = V p ?s + 1"
    using bump_ready [OF m(2)] m(2) by (simp_all add: ready_def)
  have mono: "V q a \<le> ?V q a" for q a by (simp add: bump_mono)
  have diag: "?V q q = V q q" for q using own bump by simp
  have sent: "map mtime (filter (\<lambda>x. source_core x = q) S) = [1..?V q q]" for q
    unfolding diag by (rule causal_sent [OF sys])
  have bounds: "0 \<le> ?V q r \<and> ?V q r \<le> ?V r r" for q r
    unfolding diag using causal_bounds [OF sys, of q r] sent_time [OF sys m(1)] bump by auto
  have dlv: "map mtime (filter (\<lambda>x. source_core x = r) (?D q)) = (if r = q then [] else [1..?V q r])"
    for q r
    using causal_dlv [OF sys, of r q] own bump next_time causal_bounds [OF sys, of p ?s]
    by (auto simp: upto_rec2)
  have known: "mvc x a \<le> ?V q a" if "x \<in> set S" "source_core x = q \<or> x \<in> set (?D q)" for q x a
  proof (cases "x = m \<and> q = p")
    case True
    with m(2) bump next_time show ?thesis by (auto simp: ready_def mtime_def)
  next
    case False
    with that causal_known [OF sys, of x q a] mono [of q a] show ?thesis
      by (auto split: if_splits)
  qed
  have past: "past_closed {x \<in> set S. source_core x \<noteq> q} (?D q)" for q
    using causal_dlv_past [OF sys, of q] ready_past_delivered [OF sys m] by auto
  have sub: "set (?D q) \<subseteq> set S" for q using causal_dlv_sub [OF sys, of q] m(1) by (cases "q = p") auto
  show ?thesis
    by (rule causal_sysI)
      (fact causal_ids [OF sys], erule causal_nonneg [OF sys],
        fact sent, fact bounds, fact sub, fact dlv,
        erule (1) known, erule causal_causes_sub [OF sys],
        use causal_causes [OF sys] in blast, fact causal_sent_past [OF sys], fact past)
qed

lemma causal_sys_deliver_all:
  assumes "causal_sys V S D C" and "set ms \<subseteq> set S" and "ready_run (V p) ms"
  shows "causal_sys (V(p := run (V p) ms)) S (D(p := D p @ ms)) C"
  using assms
proof (induction ms arbitrary: V D)
  case Nil
  then show ?case by simp
next
  case (Cons m ms)
  let ?V = "V(p := bump (V p) m)" and ?D = "D(p := D p @ [m])"
  from causal_sys_deliver [OF Cons.prems(1), of m p] Cons.prems have "causal_sys ?V S ?D C" by simp
  moreover have "ready_run (?V p) ms" and "set ms \<subseteq> set S" using Cons.prems by simp_all
  ultimately have "causal_sys (?V(p := run (?V p) ms)) S (?D(p := ?D p @ ms)) C"
    using Cons.IH by blast
  then show ?case by (simp only: fun_upd_upd fun_upd_same foldl.simps append_assoc append.simps)
qed

text \<open>An actor sends a message with a fresh identifier, stamped with its incremented clock.\<close>

text \<open>What a sender has delivered or sent is below its next message, in every entry.\<close>

lemma causal_send_causes:
  assumes sys: "causal_sys V S D C"
    and src: "source_core m = p" and stamp: "mvc m = (V p)(p := V p p + 1)"
    and fresh: "message_id m \<notin> message_id ` set S"
    and x: "x \<in> set (S @ [m])" and x': "x' \<in> set (S @ [m])"
    and c: "message_id x' \<in> (C(message_id m := message_id ` (set (D p) \<union> {x \<in> set S. source_core x = p})))
      (message_id x)"
  shows "(\<forall>a. mvc x' a \<le> mvc x a) \<and> mvc x' (source_core x) < mvc x (source_core x)"
proof (cases "x = m")
  case True
  with c obtain d where d: "d \<in> set (D p) \<union> {x \<in> set S. source_core x = p}"
      "message_id x' = message_id d"
    by auto
  then have "d \<in> set S" using causal_dlv_sub [OF sys, of p] by auto
  with d(2) x' fresh causal_ids [OF sys] have "x' = d" by (auto simp: distinct_map dest: inj_onD)
  with d(1) \<open>d \<in> set S\<close> causal_known [OF sys, of d p] have le: "mvc x' a \<le> V p a" for a by auto
  have "mvc x' a \<le> mvc m a" for a using le [of a] stamp by auto
  moreover have "mvc x' p < mvc m p" using le [of p] stamp by simp
  ultimately show ?thesis using True src by simp
next
  case False
  with x have xS: "x \<in> set S" by auto
  then have "message_id x \<noteq> message_id m" using fresh by (metis imageI)
  with c have c': "message_id x' \<in> C (message_id x)" by simp
  then have "x' \<noteq> m" using causal_causes_sub [OF sys xS] fresh by auto
  with x' causal_causes [OF sys xS _ c'] show ?thesis by auto
qed

lemma causal_sys_send:
  assumes sys: "causal_sys V S D C"
    and src: "source_core m = p" and stamp: "mvc m = (V p)(p := V p p + 1)"
    and fresh: "message_id m \<notin> message_id ` set S"
  shows "causal_sys (V(p := mvc m)) (S @ [m]) D
    (C(message_id m := message_id ` (set (D p) \<union> {x \<in> set S. source_core x = p})))"
    (is "causal_sys ?V ?S D ?C")
proof -
  have time: "mtime m = V p p + 1" using src stamp by (simp add: mtime_def)
  have notin: "m \<notin> set S" using fresh by blast
  have mono: "V q a \<le> ?V q a" for q a using stamp by simp
  have bounds: "0 \<le> ?V q r \<and> ?V q r \<le> ?V r r" for q r
    using causal_bounds [OF sys, of q r] causal_bounds [OF sys, of p p] causal_bounds [OF sys, of p r] stamp
    by auto
  have nonneg: "0 \<le> mvc x a" if "x \<in> set ?S" for x a
    using that causal_nonneg [OF sys] bounds [of p a] by auto
  have sent: "map mtime (filter (\<lambda>x. source_core x = q) ?S) = [1..?V q q]" for q
    using causal_sent [OF sys, of q] src time stamp causal_bounds [OF sys, of p p]
    by (auto simp: upto_rec2)
  have sub: "set (D q) \<subseteq> set ?S" for q using causal_dlv_sub [OF sys, of q] by auto
  have dlv: "map mtime (filter (\<lambda>x. source_core x = r) (D q)) = (if r = q then [] else [1..?V q r])"
    for q r
    using causal_dlv [OF sys, of r q] stamp by auto
  have known: "mvc x a \<le> ?V q a" if "x \<in> set ?S" "source_core x = q \<or> x \<in> set (D q)" for q x a
  proof (cases "x = m")
    case True
    with that src causal_dlv_sub [OF sys, of q] notin show ?thesis by auto
  next
    case False
    with that causal_known [OF sys, of x q a] mono [of q a] show ?thesis by auto
  qed
  have not_past: "\<not> earlier m x" if "x \<in> set S" for x
    using sent_known_bound [OF sys that, of p] time src by (auto simp: earlier_def)
  note causes = causal_send_causes [OF sys src stamp fresh]
  have causes_sub: "?C (message_id x) \<subseteq> message_id ` set ?S" if "x \<in> set ?S" for x
    using that causal_causes_sub [OF sys] causal_dlv_sub [OF sys, of p] fresh by (cases "x = m") auto
  have past: "past_closed (set ?S) ?S"
    using past_closed_insert [OF causal_sent_past [OF sys], of m] not_past
    by (auto simp: earlier_def)
  have dlv_past: "past_closed {x \<in> set ?S. source_core x \<noteq> q} (D q)" for q
  proof -
    have "past_closed (insert m {x \<in> set S. source_core x \<noteq> q}) (D q)"
      using past_closed_insert [OF causal_dlv_past [OF sys, of q], of m] not_past
        causal_dlv_sub [OF sys, of q] by blast
    then show ?thesis by (fastforce simp: past_closed_def)
  qed
  have ids: "distinct (map message_id ?S)" using causal_ids [OF sys] fresh by simp
  show ?thesis
    by (rule causal_sysI)
      (fact ids, erule nonneg, fact sent, fact bounds, fact sub, fact dlv, erule (1) known,
        erule causes_sub, erule (2) causes, fact past, fact dlv_past)
qed


section \<open>Progress\<close>

text \<open>
  If every message of another actor is delivered at \<open>p\<close> or waiting there, and nothing that
  waits is ready, then all of them are delivered: the first undelivered one in the order of
  sending would be ready.
\<close>

lemma first_undelivered_ready:
  assumes sys: "causal_sys V S D C" and S: "S = xs @ m # ys" and own: "source_core m \<noteq> p"
    and undelivered: "m \<notin> set (D p)"
    and before: "\<forall>x \<in> set xs. source_core x \<noteq> p \<longrightarrow> x \<in> set (D p)"
  shows "ready (V p) m"
proof -
  let ?s = "source_core m"
  have mS: "m \<in> set S" using S by simp
  have covered: "t \<le> V p r" if "r \<noteq> p" "t \<le> mvc m r" "r = ?s \<Longrightarrow> t < mtime m" for r t
  proof (cases "1 \<le> t")
    case True
    have "t \<le> V r r" using that(2) sent_known_bound [OF sys mS, of r] by simp
    with True obtain x where x: "x \<in> set S" "source_core x = r" "mtime x = t"
      using sent_exists [OF sys] by blast
    have "earlier x m" using x that(2,3) by (auto simp: earlier_def)
    with causal_sent_past [OF sys] S x(1) have "x \<in> set xs" unfolding past_closed_def by blast
    with before x(2) that(1) have "x \<in> set (D p)" by simp
    with dlv_iff [OF sys x(1)] x(2,3) that(1) show ?thesis by simp
  next
    case False
    with causal_bounds [OF sys, of p r] show ?thesis by linarith
  qed
  have "mtime m - 1 \<le> V p ?s" using covered [OF own, of "mtime m - 1"] by (simp add: mtime_def)
  moreover have "V p ?s < mtime m" using dlv_iff [OF sys mS own] undelivered by simp
  moreover have "mvc m r \<le> V p r" if "r \<noteq> ?s" for r
    using covered [of r "mvc m r"] that sent_known_bound [OF sys mS, of p] by (cases "r = p") auto
  ultimately show ?thesis by (simp add: ready_def)
qed

lemma all_delivered:
  assumes sys: "causal_sys V S D C"
    and arrived: "\<forall>m \<in> set S. source_core m \<noteq> p \<longrightarrow> m \<in> set (D p) \<union> set H"
    and "drained (V p) H"
  shows "\<forall>m \<in> set S. source_core m \<noteq> p \<longrightarrow> m \<in> set (D p)"
proof (rule ccontr)
  assume "\<not> ?thesis"
  then have "\<exists>m \<in> set S. source_core m \<noteq> p \<and> m \<notin> set (D p)" by blast
  then obtain xs m ys where S: "S = xs @ m # ys" and m: "source_core m \<noteq> p \<and> m \<notin> set (D p)"
    and first: "\<forall>x \<in> set xs. \<not> (source_core x \<noteq> p \<and> x \<notin> set (D p))"
    by (rule split_list_first_propE)
  have "ready (V p) m"
    by (rule first_undelivered_ready [OF sys S]) (use m first in auto)
  moreover have "m \<in> set H" using arrived S m by simp
  ultimately show False using assms(3) by (simp add: drained_def)
qed

end
