(* ===== verification/Mixed_Order.thy ===== *)
theory Mixed_Order
  imports Causal_Order
begin

text \<open>
  The abstract system of \<open>Causal_Order\<close> with health messages, which are delivered at any time and
  as often as they arrive, and move the sender's entry of the clock. The counters of an actor are then
  no longer those of the messages it has delivered, and clocks are not monotone along the
  happened-before order. What is left: causal messages are delivered once, and at an actor that has
  delivered no health message yet, each delivery comes after everything that happened before it.
\<close>

section \<open>Conditions on each element of a list and those before it\<close>

definition at_each :: "('a list \<Rightarrow> 'a \<Rightarrow> bool) \<Rightarrow> 'a list \<Rightarrow> bool" where
  "at_each P ds \<longleftrightarrow> (\<forall>xs m ys. ds = xs @ m # ys \<longrightarrow> P xs m)"

lemma at_each_Nil [simp]: "at_each P []"
  by (simp add: at_each_def)

lemma at_each_snoc [simp]: "at_each P (ds @ [m]) \<longleftrightarrow> at_each P ds \<and> P ds m"
proof
  assume "at_each P (ds @ [m])"
  then show "at_each P ds \<and> P ds m" unfolding at_each_def by (metis append.assoc append_Cons)
next
  assume r: "at_each P ds \<and> P ds m"
  have "P xs x" if "ds @ [m] = xs @ x # ys" for xs x ys
    using that r by (cases ys rule: rev_cases) (auto simp: at_each_def)
  then show "at_each P (ds @ [m])" by (simp add: at_each_def)
qed

lemma at_eachD: "at_each P (xs @ m # ys) \<Longrightarrow> P xs m"
  by (simp add: at_each_def)

lemma at_each_mono:
  assumes "at_each P ds" and "\<And>xs m ys. ds = xs @ m # ys \<Longrightarrow> P xs m \<Longrightarrow> Q xs m"
  shows "at_each Q ds"
  using assms by (simp add: at_each_def)

section \<open>The invariant\<close>

text \<open>
  \<open>V\<close>, \<open>S\<close>, \<open>D\<close> and \<open>C\<close> are as in \<open>causal_sys\<close>. The three conditions on deliveries: a causal message has a
  higher counter than all that was delivered from its sender; up to the first health message, everything
  in a message's clock has been delivered before it; and a message that knows one of the actor's own
  messages is delivered after what that one was sent after.
\<close>

definition rising :: "bmsg list \<Rightarrow> bmsg \<Rightarrow> bool" where
  "rising xs m \<longleftrightarrow> (causal_msg m \<longrightarrow> (\<forall>x \<in> set xs. source_core x = source_core m \<longrightarrow> mtime x < mtime m))"

definition covers :: "bmsg set \<Rightarrow> string \<Rightarrow> bmsg list \<Rightarrow> bmsg \<Rightarrow> bool" where
  "covers M p xs m \<longleftrightarrow>
     (list_all causal_msg (xs @ [m]) \<longrightarrow> (\<forall>x \<in> M. source_core x \<noteq> p \<and> earlier x m \<longrightarrow> x \<in> set xs))"

definition answers :: "bmsg set \<Rightarrow> (string \<Rightarrow> string set) \<Rightarrow> string \<Rightarrow> bmsg list \<Rightarrow> bmsg \<Rightarrow> bool" where
  "answers M C p xs y \<longleftrightarrow>
     (\<forall>x \<in> M. \<forall>z \<in> M. source_core x = p \<and> mtime x \<le> mvc y p \<and> source_core z \<noteq> p \<and>
        message_id z \<in> C (message_id x) \<longrightarrow> z \<in> set xs)"

definition mixed_sys ::
    "(string \<Rightarrow> vclock) \<Rightarrow> bmsg list \<Rightarrow> (string \<Rightarrow> bmsg list) \<Rightarrow> (string \<Rightarrow> string set) \<Rightarrow> bool" where
  "mixed_sys V S D C \<longleftrightarrow>
     distinct (map message_id S) \<and>
     (\<forall>p. map mtime (filter (\<lambda>m. source_core m = p) S) = [1..V p p]) \<and>
     (\<forall>p r. 0 \<le> V p r \<and> V p r \<le> V r r) \<and>
     (\<forall>m \<in> set S. \<forall>a. mvc m a \<le> V a a) \<and>
     (\<forall>p. set (D p) \<subseteq> set S) \<and>
     (\<forall>p. \<forall>m \<in> set (D p). mtime m \<le> V p (source_core m) \<and> (causal_msg m \<longrightarrow> source_core m \<noteq> p)) \<and>
     (\<forall>p. list_all causal_msg (D p) \<longrightarrow>
        (\<forall>m \<in> set S. source_core m \<noteq> p \<and> mtime m \<le> V p (source_core m) \<longrightarrow> m \<in> set (D p))) \<and>
     (\<forall>m \<in> set S. \<forall>z \<in> set S. message_id z \<in> C (message_id m) \<longrightarrow>
        mtime z \<le> mvc m (source_core z) \<and> (source_core z = source_core m \<longrightarrow> mtime z < mtime m) \<and>
        (source_core z \<noteq> source_core m \<longrightarrow> z \<in> set (D (source_core m)))) \<and>
     (\<forall>m \<in> set S. C (message_id m) \<subseteq> message_id ` set S) \<and>
     (\<forall>p. at_each rising (D p) \<and> at_each (covers (set S) p) (D p) \<and> at_each (answers (set S) C p) (D p))"

lemma mixed_sysD:
  assumes "mixed_sys V S D C"
  shows mixed_ids: "distinct (map message_id S)"
    and mixed_sent: "\<And>p. map mtime (filter (\<lambda>m. source_core m = p) S) = [1..V p p]"
    and mixed_bounds: "\<And>p r. 0 \<le> V p r \<and> V p r \<le> V r r"
    and mixed_stamp: "\<And>m a. m \<in> set S \<Longrightarrow> mvc m a \<le> V a a"
    and mixed_dlv_sub: "\<And>p. set (D p) \<subseteq> set S"
    and mixed_dlv: "\<And>p m. m \<in> set (D p) \<Longrightarrow> mtime m \<le> V p (source_core m) \<and> (causal_msg m \<longrightarrow> source_core m \<noteq> p)"
    and mixed_full: "\<And>p m. list_all causal_msg (D p) \<Longrightarrow> m \<in> set S \<Longrightarrow> source_core m \<noteq> p \<Longrightarrow>
        mtime m \<le> V p (source_core m) \<Longrightarrow> m \<in> set (D p)"
    and mixed_causes: "\<And>m z. m \<in> set S \<Longrightarrow> z \<in> set S \<Longrightarrow> message_id z \<in> C (message_id m) \<Longrightarrow>
        mtime z \<le> mvc m (source_core z) \<and> (source_core z = source_core m \<longrightarrow> mtime z < mtime m) \<and>
        (source_core z \<noteq> source_core m \<longrightarrow> z \<in> set (D (source_core m)))"
    and mixed_causes_sub: "\<And>m. m \<in> set S \<Longrightarrow> C (message_id m) \<subseteq> message_id ` set S"
    and mixed_rising: "\<And>p. at_each rising (D p)"
    and mixed_covers: "\<And>p. at_each (covers (set S) p) (D p)"
    and mixed_answers: "\<And>p. at_each (answers (set S) C p) (D p)"
  using assms unfolding mixed_sys_def by blast+

lemma mixed_sysI:
  assumes "distinct (map message_id S)"
    and "\<And>p. map mtime (filter (\<lambda>m. source_core m = p) S) = [1..V p p]"
    and "\<And>p r. 0 \<le> V p r \<and> V p r \<le> V r r"
    and "\<And>m a. m \<in> set S \<Longrightarrow> mvc m a \<le> V a a"
    and "\<And>p. set (D p) \<subseteq> set S"
    and "\<And>p m. m \<in> set (D p) \<Longrightarrow> mtime m \<le> V p (source_core m) \<and> (causal_msg m \<longrightarrow> source_core m \<noteq> p)"
    and "\<And>p m. list_all causal_msg (D p) \<Longrightarrow> m \<in> set S \<Longrightarrow> source_core m \<noteq> p \<Longrightarrow>
        mtime m \<le> V p (source_core m) \<Longrightarrow> m \<in> set (D p)"
    and "\<And>m z. m \<in> set S \<Longrightarrow> z \<in> set S \<Longrightarrow> message_id z \<in> C (message_id m) \<Longrightarrow>
        mtime z \<le> mvc m (source_core z) \<and> (source_core z = source_core m \<longrightarrow> mtime z < mtime m) \<and>
        (source_core z \<noteq> source_core m \<longrightarrow> z \<in> set (D (source_core m)))"
    and "\<And>m. m \<in> set S \<Longrightarrow> C (message_id m) \<subseteq> message_id ` set S"
    and "\<And>p. at_each rising (D p)"
    and "\<And>p. at_each (covers (set S) p) (D p)"
    and "\<And>p. at_each (answers (set S) C p) (D p)"
  shows "mixed_sys V S D C"
  unfolding mixed_sys_def by (intro conjI allI ballI impI) (use assms in blast)+

lemma mixed_time:
  assumes "mixed_sys V S D C" and "m \<in> set S"
  shows "1 \<le> mtime m" and "mtime m \<le> V (source_core m) (source_core m)"
proof -
  have "mtime m \<in> set (map mtime (filter (\<lambda>x. source_core x = source_core m) S))" using assms(2) by auto
  then have "mtime m \<in> {1..V (source_core m) (source_core m)}" unfolding mixed_sent [OF assms(1)] by simp
  then show "1 \<le> mtime m" and "mtime m \<le> V (source_core m) (source_core m)" by auto
qed

lemma mixed_unique:
  assumes sys: "mixed_sys V S D C" and "m \<in> set S" "m' \<in> set S"
    and "source_core m = source_core m'" "mtime m = mtime m'"
  shows "m = m'"
proof -
  let ?f = "filter (\<lambda>x. source_core x = source_core m) S"
  have "distinct (map mtime ?f)" unfolding mixed_sent [OF sys] by simp
  then have "inj_on mtime (set ?f)" by (simp add: distinct_map)
  with assms(2-5) show ?thesis by (auto dest: inj_onD)
qed

section \<open>The steps\<close>

text \<open>A delivery: of a ready message, or of a health message at any time.\<close>

lemma mixed_ready_not_own: "mixed_sys V S D C \<Longrightarrow> m \<in> set S \<Longrightarrow> ready (V p) m \<Longrightarrow> source_core m \<noteq> p"
  using mixed_time(2) [of V S D C m] by (auto simp: ready_def)

lemma mixed_ready_covers:
  assumes sys: "mixed_sys V S D C" and m: "m \<in> set S" "causal_msg m \<longrightarrow> ready (V p) m"
  shows "covers (set S) p (D p) m"
  unfolding covers_def
proof (intro impI ballI, elim conjE)
  fix x
  assume c: "list_all causal_msg (D p @ [m])" and x: "x \<in> set S" "source_core x \<noteq> p" "earlier x m"
  have r: "ready (V p) m" using c m(2) by simp
  have "mtime x \<le> V p (source_core x)"
  proof (cases "source_core x = source_core m")
    case True
    with x(3) have "mtime x \<le> mtime m" by (simp add: earlier_def mtime_def)
    moreover have "mtime x \<noteq> mtime m" using mixed_unique [OF sys x(1) m(1) True] x(3) by (auto simp: earlier_def)
    ultimately show ?thesis using r True by (simp add: ready_def)
  next
    case False
    with r x(3) show ?thesis by (auto simp: ready_def earlier_def intro: order_trans)
  qed
  with c x(1,2) mixed_full [OF sys] show "x \<in> set (D p)" by simp
qed

lemma mixed_sys_deliver:
  assumes sys: "mixed_sys V S D C" and m: "m \<in> set S" "causal_msg m \<longrightarrow> ready (V p) m"
  shows "mixed_sys (V(p := bump (V p) m)) S (D(p := D p @ [m])) C"
proof -
  let ?s = "source_core m" and ?V = "V(p := bump (V p) m)" and ?D = "D(p := D p @ [m])"
  have own: "causal_msg m \<Longrightarrow> ?s \<noteq> p" using m(2) mixed_ready_not_own [OF sys m(1)] by blast
  have diag: "?V q q = V q q" for q using mixed_time(2) [OF sys m(1)] by (auto simp: bump_def)
  have mono: "V q a \<le> ?V q a" for q a by (simp add: bump_mono)
  have sent: "map mtime (filter (\<lambda>x. source_core x = q) S) = [1..?V q q]" for q
    unfolding diag by (rule mixed_sent [OF sys])
  have bounds: "0 \<le> ?V q r \<and> ?V q r \<le> ?V r r" for q r
    unfolding diag using mixed_bounds [OF sys, of q r] mixed_time(2) [OF sys m(1)] by (auto simp: bump_def)
  have stamp: "mvc x a \<le> ?V a a" if "x \<in> set S" for x a
    unfolding diag by (rule mixed_stamp [OF sys that])
  have sub: "set (?D q) \<subseteq> set S" for q using mixed_dlv_sub [OF sys, of q] m(1) by (cases "q = p") auto
  have dlv: "mtime x \<le> ?V q (source_core x) \<and> (causal_msg x \<longrightarrow> source_core x \<noteq> q)" if "x \<in> set (?D q)" for q x
  proof (cases "q = p \<and> x = m")
    case True
    with own show ?thesis by (auto simp: bump_def)
  next
    case False
    with that have "x \<in> set (D q)" by (auto split: if_splits)
    with mixed_dlv [OF sys this] mono [of q "source_core x"] show ?thesis by auto
  qed
  have full: "x \<in> set (?D q)" if c: "list_all causal_msg (?D q)"
    and x: "x \<in> set S" "source_core x \<noteq> q" "mtime x \<le> ?V q (source_core x)" for q x
  proof (cases "q = p")
    case False
    with that mixed_full [OF sys] show ?thesis by simp
  next
    case True
    with c m(2) have c': "list_all causal_msg (D p)" and r: "ready (V p) m" by simp_all
    have "mtime x \<le> V p (source_core x) \<or> source_core x = ?s \<and> mtime x = mtime m"
      using x(3) True bump_ready [OF r] r by (auto simp: ready_def split: if_splits)
    then show ?thesis
      using mixed_full [OF sys c' x(1)] x(1,2) True mixed_unique [OF sys x(1) m(1)] by auto
  qed
  have "rising (D p) m"
    using m(2) mixed_dlv [OF sys, of _ p] by (fastforce simp: rising_def ready_def)
  then have rise: "at_each rising (?D q)" for q using mixed_rising [OF sys] by (simp del: fun_upd_apply add: fun_upd_def)
  have cov: "at_each (covers (set S) q) (?D q)" for q
    using mixed_covers [OF sys] mixed_ready_covers [OF sys m] by (simp del: fun_upd_apply add: fun_upd_def)
  have "answers (set S) C p (D p) m"
    unfolding answers_def using mixed_causes [OF sys] by blast
  then have ans: "at_each (answers (set S) C q) (?D q)" for q
    using mixed_answers [OF sys] by (simp del: fun_upd_apply add: fun_upd_def)
  have causes: "mtime z \<le> mvc x (source_core z) \<and> (source_core z = source_core x \<longrightarrow> mtime z < mtime x) \<and>
      (source_core z \<noteq> source_core x \<longrightarrow> z \<in> set (?D (source_core x)))"
    if "x \<in> set S" "z \<in> set S" "message_id z \<in> C (message_id x)" for x z
    using mixed_causes [OF sys that] by auto
  show ?thesis
    by (rule mixed_sysI)
      (fact mixed_ids [OF sys], fact sent, fact bounds, erule stamp, fact sub, erule dlv, erule (3) full,
        erule (2) causes, erule mixed_causes_sub [OF sys], fact rise, fact cov, fact ans)
qed

lemma mixed_sys_deliver_all:
  assumes "mixed_sys V S D C" and "set ms \<subseteq> set S" and "ready_run (V p) ms"
  shows "mixed_sys (V(p := run (V p) ms)) S (D(p := D p @ ms)) C"
  using assms
proof (induction ms arbitrary: V D)
  case Nil
  then show ?case by simp
next
  case (Cons m ms)
  let ?V = "V(p := bump (V p) m)" and ?D = "D(p := D p @ [m])"
  from mixed_sys_deliver [OF Cons.prems(1), of m p] Cons.prems have "mixed_sys ?V S ?D C" by simp
  moreover have "ready_run (?V p) ms" and "set ms \<subseteq> set S" using Cons.prems by simp_all
  ultimately have "mixed_sys (?V(p := run (?V p) ms)) S (?D(p := ?D p @ ms)) C" using Cons.IH by blast
  then show ?case by (simp only: fun_upd_upd fun_upd_same foldl.simps append_assoc append.simps)
qed

text \<open>A send, of any kind.\<close>

lemma mixed_send_causes:
  assumes sys: "mixed_sys V S D C"
    and src: "source_core m = p" and stamp: "mvc m = (V p)(p := V p p + 1)"
    and fresh: "message_id m \<notin> message_id ` set S"
    and x: "x \<in> set (S @ [m])" and z: "z \<in> set (S @ [m])"
    and c: "message_id z \<in> (C(message_id m := message_id ` (set (D p) \<union> {x \<in> set S. source_core x = p})))
      (message_id x)"
  shows "mtime z \<le> mvc x (source_core z) \<and> (source_core z = source_core x \<longrightarrow> mtime z < mtime x) \<and>
    (source_core z \<noteq> source_core x \<longrightarrow> z \<in> set (D (source_core x)))"
proof (cases "x = m")
  case True
  with c obtain d where d: "d \<in> set (D p) \<union> {x \<in> set S. source_core x = p}" "message_id z = message_id d" by auto
  then have "d \<in> set S" using mixed_dlv_sub [OF sys, of p] by auto
  with d(2) z fresh mixed_ids [OF sys] have "z = d" by (auto simp: distinct_map dest: inj_onD)
  with d(1) \<open>d \<in> set S\<close> mixed_dlv [OF sys, of z p] mixed_time(2) [OF sys, of z]
  have "mtime z \<le> V p (source_core z)" by auto
  with True src stamp d(1) \<open>z = d\<close> show ?thesis by (auto simp: mtime_def)
next
  case False
  with x have xS: "x \<in> set S" by auto
  then have "message_id x \<noteq> message_id m" using fresh by (metis imageI)
  with c have c': "message_id z \<in> C (message_id x)" by simp
  then have "z \<noteq> m" using mixed_causes_sub [OF sys xS] fresh by auto
  with z mixed_causes [OF sys xS _ c'] show ?thesis by auto
qed

lemma mixed_sys_send:
  assumes sys: "mixed_sys V S D C"
    and src: "source_core m = p" and stamp: "mvc m = (V p)(p := V p p + 1)"
    and fresh: "message_id m \<notin> message_id ` set S"
  shows "mixed_sys (V(p := mvc m)) (S @ [m]) D
    (C(message_id m := message_id ` (set (D p) \<union> {x \<in> set S. source_core x = p})))"
    (is "mixed_sys ?V ?S D ?C")
proof -
  have time: "mtime m = V p p + 1" using src stamp by (simp add: mtime_def)
  have mono: "V q a \<le> ?V q a" for q a using stamp by simp
  have bounds: "0 \<le> ?V q r \<and> ?V q r \<le> ?V r r" for q r
    using mixed_bounds [OF sys, of q r] mixed_bounds [OF sys, of p p] mixed_bounds [OF sys, of p r] stamp by auto
  have sent: "map mtime (filter (\<lambda>x. source_core x = q) ?S) = [1..?V q q]" for q
    using mixed_sent [OF sys, of q] src time stamp mixed_bounds [OF sys, of p p] by (auto simp: upto_rec2)
  have known: "mvc x a \<le> ?V a a" if "x \<in> set ?S" for x a
    using that mixed_stamp [OF sys, of x a] mono [of a a] bounds [of p a] by (auto intro: order_trans)
  have sub: "set (D q) \<subseteq> set ?S" for q using mixed_dlv_sub [OF sys, of q] by auto
  have dlv: "mtime x \<le> ?V q (source_core x) \<and> (causal_msg x \<longrightarrow> source_core x \<noteq> q)" if "x \<in> set (D q)" for q x
    using mixed_dlv [OF sys that] mono [of q "source_core x"] by auto
  have full: "x \<in> set (D q)" if "list_all causal_msg (D q)" "x \<in> set ?S" "source_core x \<noteq> q"
      "mtime x \<le> ?V q (source_core x)" for q x
  proof (cases "x = m")
    case True
    with that(3,4) src time mixed_bounds [OF sys, of q p] show ?thesis by simp
  next
    case False
    with that stamp mixed_full [OF sys that(1)] show ?thesis by (auto split: if_splits)
  qed
  have causes_sub: "?C (message_id x) \<subseteq> message_id ` set ?S" if "x \<in> set ?S" for x
    using that mixed_causes_sub [OF sys] mixed_dlv_sub [OF sys, of p] fresh by (cases "x = m") auto
  have cov: "at_each (covers (set ?S) q) (D q)" for q
  proof (rule at_each_mono [OF mixed_covers [OF sys]])
    fix xs x ys
    assume "D q = xs @ x # ys" and c: "covers (set S) q xs x"
    then have "x \<in> set S" using mixed_dlv_sub [OF sys, of q] by auto
    then have "\<not> earlier m x" using mixed_stamp [OF sys, of x p] time src by (auto simp: earlier_def)
    with c show "covers (set ?S) q xs x" by (auto simp: covers_def)
  qed
  have ans: "at_each (answers (set ?S) ?C q) (D q)" for q
  proof (rule at_each_mono [OF mixed_answers [OF sys]])
    fix xs y ys
    assume D: "D q = xs @ y # ys" and a: "answers (set S) C q xs y"
    then have y: "y \<in> set S" using mixed_dlv_sub [OF sys, of q] by auto
    have "z \<in> set xs" if x: "x \<in> set ?S" and z: "z \<in> set ?S" and "source_core x = q" "mtime x \<le> mvc y q"
      "source_core z \<noteq> q" "message_id z \<in> ?C (message_id x)" for x z
    proof -
      have "x \<noteq> m" using that(3,4) src time mixed_stamp [OF sys y, of p] by auto
      with x have xS: "x \<in> set S" by simp
      then have "message_id x \<noteq> message_id m" using fresh by (metis imageI)
      with that(6) have c: "message_id z \<in> C (message_id x)" by simp
      then have "z \<noteq> m" using mixed_causes_sub [OF sys xS] fresh by auto
      with z a xS c that(3-5) show ?thesis by (auto simp: answers_def)
    qed
    then show "answers (set ?S) ?C q xs y" unfolding answers_def by blast
  qed
  have ids: "distinct (map message_id ?S)" using mixed_ids [OF sys] fresh by simp
  show ?thesis
    by (rule mixed_sysI)
      (fact ids, fact sent, fact bounds, erule known, fact sub, erule dlv, erule (3) full,
        erule (2) mixed_send_causes [OF sys src stamp fresh], erule causes_sub,
        fact mixed_rising [OF sys], fact cov, fact ans)
qed

section \<open>What holds of the deliveries\<close>

lemma causal_delivered_once:
  assumes sys: "mixed_sys V S D C" and "m \<in> set S" and "causal_msg m"
  shows "count_list (D p) m \<le> (if source_core m = p then 0 else 1)"
proof (cases "m \<in> set (D p)")
  case False
  then show ?thesis by (simp add: count_list_0_iff)
next
  case True
  then obtain xs ys where D: "D p = xs @ m # ys" and "m \<notin> set ys" by (meson split_list_last)
  with at_eachD [of rising xs m ys] mixed_rising [OF sys, of p] assms(3) have "m \<notin> set xs" by (auto simp: rising_def)
  with D \<open>m \<notin> set ys\<close> have "count_list (D p) m = 1" by (simp add: count_list_0_iff)
  moreover have "source_core m \<noteq> p" using mixed_dlv [OF sys True] assms(3) by simp
  ultimately show ?thesis by simp
qed

definition cause :: "bmsg list \<Rightarrow> (string \<Rightarrow> string set) \<Rightarrow> bmsg \<Rightarrow> bmsg \<Rightarrow> bool" where
  "cause S C z x \<longleftrightarrow> z \<in> set S \<and> x \<in> set S \<and> message_id z \<in> C (message_id x)"

text \<open>
  What is delivered before a message at \<open>p\<close>, by the last link of the chain: either the last cause
  was delivered, or it is the actor's own, and then its causes were delivered before it was sent.
\<close>

lemma cause_delivered:
  assumes sys: "mixed_sys V S D C" and c: "cause S C z x" and p: "source_core z \<noteq> p"
  shows "D p = xs @ x # ys \<Longrightarrow> list_all causal_msg (xs @ [x]) \<Longrightarrow> z \<in> set xs"
    and "source_core x = p \<Longrightarrow> D p = xs @ y # ys \<Longrightarrow> mtime x \<le> mvc y p \<Longrightarrow> z \<in> set xs"
proof -
  have zx: "z \<in> set S" "x \<in> set S" "message_id z \<in> C (message_id x)" using c by (simp_all add: cause_def)
  show "z \<in> set xs" if "D p = xs @ x # ys" "list_all causal_msg (xs @ [x])"
  proof -
    have "earlier z x" using mixed_causes [OF sys zx(2,1,3)] by (auto simp: earlier_def)
    moreover have "covers (set S) p xs x" using mixed_covers [OF sys, of p] that(1) by (auto dest: at_eachD)
    ultimately show ?thesis using that(2) zx(1) p by (simp add: covers_def)
  qed
  show "z \<in> set xs" if "source_core x = p" "D p = xs @ y # ys" "mtime x \<le> mvc y p"
  proof -
    have "answers (set S) C p xs y" using mixed_answers [OF sys, of p] that(2) by (auto dest: at_eachD)
    with zx p that(1,3) show ?thesis unfolding answers_def by blast
  qed
qed

lemma past_delivered:
  assumes sys: "mixed_sys V S D C" and p: "source_core m \<noteq> p" and hb: "(cause S C)\<^sup>+\<^sup>+ m x"
  shows "(\<forall>xs ys. D p = xs @ x # ys \<and> list_all causal_msg (xs @ [x]) \<longrightarrow> m \<in> set xs) \<and>
    (source_core x = p \<longrightarrow>
      (\<forall>xs y ys. D p = xs @ y # ys \<and> list_all causal_msg (xs @ [y]) \<and> mtime x \<le> mvc y p \<longrightarrow> m \<in> set xs))"
  using hb
proof (induction rule: tranclp_induct)
  case (base x)
  from cause_delivered [OF sys base p] show ?case by blast
next
  case (step z x)
  have c: "mtime z \<le> mvc x (source_core z)" "source_core z = source_core x \<Longrightarrow> mtime z < mtime x"
    using step.hyps(2) mixed_causes [OF sys, of x z] by (auto simp: cause_def)
  have before: "m \<in> set xs" if D: "D p = xs @ y # ys" and cl: "list_all causal_msg (xs @ [y])" and z: "z \<in> set xs" for xs y ys
  proof -
    obtain us vs where "xs = us @ z # vs" using z by (meson split_list)
    with D cl step.IH have "m \<in> set us" by simp
    with \<open>xs = us @ z # vs\<close> show ?thesis by simp
  qed
  show ?case
  proof (intro conjI allI impI; elim conjE)
    fix xs ys
    assume D: "D p = xs @ x # ys" and cl: "list_all causal_msg (xs @ [x])"
    show "m \<in> set xs"
    proof (cases "source_core z = p")
      case True
      with step.IH D cl c(1) show ?thesis by blast
    next
      case False
      from cause_delivered(1) [OF sys step.hyps(2) False D cl] show ?thesis by (rule before [OF D cl])
    qed
  next
    fix xs y ys
    assume x: "source_core x = p" and D: "D p = xs @ y # ys" and cl: "list_all causal_msg (xs @ [y])" and t: "mtime x \<le> mvc y p"
    show "m \<in> set xs"
    proof (cases "source_core z = p")
      case True
      with c(2) x t have "mtime z \<le> mvc y p" by simp
      with step.IH True D cl show ?thesis by blast
    next
      case False
      from cause_delivered(2) [OF sys step.hyps(2) False x D t] show ?thesis by (rule before [OF D cl])
    qed
  qed
qed

end
