(* ===== verification/Causal_Network.thy ===== *)
theory Causal_Network
  imports Causal_Broadcast Mixed_Order
begin

text \<open>
  A group of \<open>CausalBroadcast\<close> endpoints, one per actor, over a transport that may delay, reorder,
  repeat and lose messages but does not invent any: a step is a \<open>send\<close> of any kind, health beacons
  included, by one actor, a \<open>receive\<close> of some message sent so far, or a \<open>subscribe\<close>. The identifiers that
  \<^verbatim>\<open>uuid4\<close> draws are fresh. \<open>causes\<close> records, for each message, what its sender had
  sent or delivered before it; the transitive closure is the happened-before order.
  Theorems: causal order of deliveries at an actor up to its first health beacon, at most one delivery
  of a causal message, and eventual delivery as long as nobody has sent a beacon.
\<close>

section \<open>Steps\<close>

record network =
  nodes :: "string \<Rightarrow> cbcast"
  sent :: "bmsg list"
  causes :: "string \<Rightarrow> string set"

definition net_init :: network where
  "net_init = \<lparr>nodes = cbcast_init, sent = [], causes = (\<lambda>_. {})\<rparr>"

definition net_send :: "string \<Rightarrow> string \<Rightarrow> string \<Rightarrow> pydict \<Rightarrow> string list option \<Rightarrow> string
    \<Rightarrow> network \<Rightarrow> network" where
  "net_send p u k pl tc tr N =
     (let (m, s) = send u k pl tc tr (nodes N p)
      in N\<lparr>nodes := (nodes N)(p := s), sent := sent N @ [m],
           causes := (causes N)(message_id m := set (delivered (nodes N p)) \<union>
             set (map message_id (filter (\<lambda>x. source_core x = p) (sent N))))\<rparr>)"

definition net_recv :: "string \<Rightarrow> bmsg \<Rightarrow> network \<Rightarrow> network" where
  "net_recv p m N = N\<lparr>nodes := (nodes N)(p := receive m (nodes N p))\<rparr>"

definition net_subscribe :: "string \<Rightarrow> handler \<Rightarrow> network \<Rightarrow> network" where
  "net_subscribe p h N = N\<lparr>nodes := (nodes N)(p := subscribe h (nodes N p))\<rparr>"

inductive net_reachable :: "network \<Rightarrow> bool" where
  start: "net_reachable net_init"
| sending: "net_reachable N \<Longrightarrow>
     ''bc_'' @ take 12 u \<notin> set (map message_id (sent N)) \<Longrightarrow>
     net_reachable (net_send p u k pl tc tr N)"
| receiving: "net_reachable N \<Longrightarrow> m \<in> set (sent N) \<Longrightarrow> net_reachable (net_recv p m N)"
| subscribing: "net_reachable N \<Longrightarrow> net_reachable (net_subscribe p h N)"

inductive happened_before :: "network \<Rightarrow> bmsg \<Rightarrow> bmsg \<Rightarrow> bool" for N where
  direct: "m \<in> set (sent N) \<Longrightarrow> m' \<in> set (sent N) \<Longrightarrow> message_id m \<in> causes N (message_id m') \<Longrightarrow>
     happened_before N m m'"
| chain: "happened_before N m m' \<Longrightarrow> happened_before N m' m'' \<Longrightarrow> happened_before N m m''"

section \<open>The endpoints implement the abstract system with health messages\<close>

definition mixes :: "network \<Rightarrow> (string \<Rightarrow> bmsg list) \<Rightarrow> bool" where
  "mixes N D \<longleftrightarrow>
     mixed_sys (\<lambda>p. vclk (nodes N p)) (sent N) D (causes N) \<and>
     (\<forall>m \<in> set (sent N). wf_msg m) \<and>
     (\<forall>p. local_actor (nodes N p) = p \<and> cb_inv (nodes N p) \<and>
        delivered (nodes N p) = map message_id (D p) \<and>
        set (hold_queue (nodes N p)) \<subseteq> {m \<in> set (sent N). causal_msg m})"

lemma vclk_init: "vclk (cbcast_init p) = (\<lambda>_. 0)"
  by (rule ext) (simp add: vclk_def cbcast_init_def dget_def)

lemma vclk_upd: "(\<lambda>q. vclk (((nodes N)(p := s)) q)) = (\<lambda>q. vclk (nodes N q))(p := vclk s)"
  by (rule ext) simp

lemma mixes_init: "mixes net_init (\<lambda>_. [])"
proof -
  have "mixed_sys (\<lambda>p. vclk (nodes net_init p)) (sent net_init) (\<lambda>_. []) (causes net_init)"
    by (intro mixed_sysI) (simp_all add: net_init_def vclk_init)
  then show ?thesis by (simp add: mixes_def net_init_def) (simp add: cbcast_init_def)
qed

lemma mixes_update:
  assumes "mixes N D"
    and sys: "mixed_sys ((\<lambda>q. vclk (nodes N q))(p := vclk s)) (sent N') D' (causes N')"
    and msgs: "\<forall>x \<in> set (sent N'). wf_msg x"
    and s: "local_actor s = p" "cb_inv s" "delivered s = map message_id (D' p)"
      "set (hold_queue s) \<subseteq> {m \<in> set (sent N'). causal_msg m}"
    and N': "nodes N' = (nodes N)(p := s)" "set (sent N) \<subseteq> set (sent N')"
    and D': "\<And>q. q \<noteq> p \<Longrightarrow> D' q = D q"
  shows "mixes N' D'"
proof -
  have "local_actor (nodes N' q) = q \<and> cb_inv (nodes N' q) \<and> delivered (nodes N' q) = map message_id (D' q) \<and>
      set (hold_queue (nodes N' q)) \<subseteq> {m \<in> set (sent N'). causal_msg m}" for q
    using assms(1) s N' D' [of q] unfolding mixes_def by (cases "q = p") (simp_all, blast)
  moreover have "(\<lambda>q. vclk (nodes N' q)) = (\<lambda>q. vclk (nodes N q))(p := vclk s)"
    by (simp only: N'(1) vclk_upd)
  ultimately show ?thesis using sys msgs unfolding mixes_def by simp
qed

lemma mixes_recv:
  assumes imp: "mixes N D" and m: "m \<in> set (sent N)"
  shows "\<exists>D'. mixes (net_recv p m N) D'"
proof -
  let ?st = "nodes N p" and ?V = "\<lambda>q. vclk (nodes N q)"
  from imp m have sys: "mixed_sys ?V (sent N) D (causes N)" and wf: "wf_msg m" and inv: "cb_inv ?st"
    and held: "set (hold_queue ?st) \<subseteq> {m \<in> set (sent N). causal_msg m}" by (auto simp: mixes_def)
  show ?thesis
  proof (cases "causal_msg m")
    case False
    then have sys': "mixed_sys (?V(p := vclk (receive m ?st))) (sent N) (D(p := D p @ [m])) (causes N)"
      using mixed_sys_deliver [OF sys m, of p] by (simp add: receive_health)
    have "mixes (net_recv p m N) (D(p := D p @ [m]))"
      by (rule mixes_update [where p = p and s = "receive m ?st", OF imp])
        (use imp sys' held False cb_inv_receive [OF inv wf] in \<open>auto simp: net_recv_def mixes_def receive_health\<close>)
    then show ?thesis by blast
  next
    case True
    obtain ms rem where r: "receive m ?st = (deliver_all ?st ms)\<lparr>hold_queue := rem\<rparr>"
        "ready_run (vclk ?st) ms" "mset ms + mset rem = mset (hold_queue ?st) + {#m#}"
      using receive_run [OF inv wf True] by blast
    have "set ms \<union> set rem = insert m (set (hold_queue ?st))" using arg_cong [OF r(3), of set_mset] by simp
    then have "set ms \<union> set rem \<subseteq> {m \<in> set (sent N). causal_msg m}" using held m True by simp
    then have sub: "set ms \<subseteq> set (sent N)" "set rem \<subseteq> {m \<in> set (sent N). causal_msg m}" by blast+
    have "mixed_sys (?V(p := run (?V p) ms)) (sent N) (D(p := D p @ ms)) (causes N)"
      by (rule mixed_sys_deliver_all [where V = ?V, OF sys sub(1) r(2)])
    then have sys': "mixed_sys (?V(p := vclk (receive m ?st))) (sent N) (D(p := D p @ ms)) (causes N)"
      by (simp add: r(1))
    have "mixes (net_recv p m N) (D(p := D p @ ms))"
      by (rule mixes_update [where p = p and s = "receive m ?st", OF imp])
        (use imp sys' r(1) sub(2) cb_inv_receive [OF inv wf] in \<open>auto simp: net_recv_def mixes_def\<close>)
    then show ?thesis by blast
  qed
qed

text \<open>What a \<open>send\<close> of an endpoint is in the network.\<close>

lemma net_send_shape:
  assumes "send u k pl tc tr (nodes N p) = (m, s)" and "local_actor (nodes N p) = p" and "cb_inv (nodes N p)"
  shows "source_core m = p" "bm_kind m = k" "message_id m = ''bc_'' @ take 12 u" "mvc m = vclk s" "wf_msg m"
    and "vclk s = (vclk (nodes N p))(p := vclk (nodes N p) p + 1)" "hold_queue s = hold_queue (nodes N p)"
      "cb_inv s" "delivered s = delivered (nodes N p)" "local_actor s = p"
    and "nodes (net_send p u k pl tc tr N) = (nodes N)(p := s)" "sent (net_send p u k pl tc tr N) = sent N @ [m]"
      "causes (net_send p u k pl tc tr N) = (causes N)(message_id m := set (delivered (nodes N p)) \<union>
         set (map message_id (filter (\<lambda>x. source_core x = p) (sent N))))"
  using send_msg [of u k pl tc tr "nodes N p"] vclk_send [of u k pl tc tr "nodes N p"] assms
    hold_queue_send [of u k pl tc tr "nodes N p"] cb_inv_send [OF assms(3), of u k pl tc tr]
  by (auto simp: net_send_def send_def Let_def wf_msg_def cb_inv_def)

lemma mixes_send:
  assumes imp: "mixes N D" and fresh: "''bc_'' @ take 12 u \<notin> set (map message_id (sent N))"
  shows "mixes (net_send p u k pl tc tr N) D"
proof -
  let ?st = "nodes N p" and ?V = "\<lambda>q. vclk (nodes N q)"
  obtain m s where ms: "send u k pl tc tr ?st = (m, s)" by fastforce
  from imp have sys: "mixed_sys ?V (sent N) D (causes N)" and dlv: "delivered ?st = map message_id (D p)"
    and held: "set (hold_queue ?st) \<subseteq> {m \<in> set (sent N). causal_msg m}"
    and st: "local_actor ?st = p" "cb_inv ?st" by (auto simp: mixes_def)
  note m = net_send_shape [OF ms st]
  have "mixed_sys (?V(p := mvc m)) (sent N @ [m]) D ((causes N)(message_id m :=
      message_id ` (set (D p) \<union> {x \<in> set (sent N). source_core x = p})))"
    by (rule mixed_sys_send [where V = ?V, OF sys m(1)]) (use m fresh in auto)
  moreover have "message_id ` (set (D p) \<union> {x \<in> set (sent N). source_core x = p}) =
      set (delivered ?st) \<union> set (map message_id (filter (\<lambda>x. source_core x = p) (sent N)))"
    by (auto simp: dlv)
  moreover have "\<forall>x \<in> set (sent N @ [m]). wf_msg x" using imp m(5) by (auto simp: mixes_def)
  ultimately show ?thesis
    by (intro mixes_update [where p = p and s = s, OF imp]) (use m held dlv in auto)
qed

lemma net_subscribe_frame:
  "vclk (nodes (net_subscribe p h N) q) = vclk (nodes N q)" "cb_inv (nodes (net_subscribe p h N) q) = cb_inv (nodes N q)"
  "local_actor (nodes (net_subscribe p h N) q) = local_actor (nodes N q)"
  "delivered (nodes (net_subscribe p h N) q) = delivered (nodes N q)"
  "hold_queue (nodes (net_subscribe p h N) q) = hold_queue (nodes N q)"
  "sent (net_subscribe p h N) = sent N" "causes (net_subscribe p h N) = causes N"
  by (auto simp: net_subscribe_def subscribe_def vclk_def cb_inv_def fun_eq_iff)

lemma reachable_mixes: "net_reachable N \<Longrightarrow> \<exists>D. mixes N D"
proof (induction rule: net_reachable.induct)
  case start
  show ?case by (rule exI, rule mixes_init)
next
  case sending
  then show ?case using mixes_send by blast
next
  case receiving
  then show ?case using mixes_recv by blast
next
  case subscribing
  then show ?case by (auto simp: mixes_def net_subscribe_frame)
qed

section \<open>Without health messages\<close>

text \<open>As long as no health message has been sent, the endpoints implement the stricter system of \<open>Causal_Order\<close>.\<close>

definition implements :: "network \<Rightarrow> (string \<Rightarrow> bmsg list) \<Rightarrow> bool" where
  "implements N D \<longleftrightarrow>
     causal_sys (\<lambda>p. vclk (nodes N p)) (sent N) D (causes N) \<and>
     (\<forall>m \<in> set (sent N). wf_msg m \<and> causal_msg m) \<and>
     (\<forall>p. local_actor (nodes N p) = p \<and> cb_inv (nodes N p) \<and>
        delivered (nodes N p) = map message_id (D p) \<and>
        set (hold_queue (nodes N p)) \<subseteq> set (sent N) \<and>
        drained (vclk (nodes N p)) (hold_queue (nodes N p)))"

lemma implements_init: "implements net_init (\<lambda>_. [])"
proof -
  have "causal_sys (\<lambda>p. vclk (nodes net_init p)) (sent net_init) (\<lambda>_. []) (causes net_init)"
    by (intro causal_sysI) (simp_all add: net_init_def vclk_init)
  then show ?thesis by (simp add: implements_def net_init_def drained_def) (simp add: cbcast_init_def)
qed

lemma implements_update:
  assumes "implements N D"
    and sys: "causal_sys ((\<lambda>q. vclk (nodes N q))(p := vclk s)) (sent N') D' (causes N')"
    and msgs: "\<forall>x \<in> set (sent N'). wf_msg x \<and> causal_msg x"
    and s: "local_actor s = p" "cb_inv s" "delivered s = map message_id (D' p)"
      "set (hold_queue s) \<subseteq> set (sent N')" "drained (vclk s) (hold_queue s)"
    and N': "nodes N' = (nodes N)(p := s)" "set (sent N) \<subseteq> set (sent N')"
    and D': "\<And>q. q \<noteq> p \<Longrightarrow> D' q = D q"
  shows "implements N' D'"
proof -
  have "local_actor (nodes N' q) = q \<and> cb_inv (nodes N' q) \<and>
      delivered (nodes N' q) = map message_id (D' q) \<and>
      set (hold_queue (nodes N' q)) \<subseteq> set (sent N') \<and>
      drained (vclk (nodes N' q)) (hold_queue (nodes N' q))" for q
    using assms(1) s N' D' [of q] unfolding implements_def
    by (cases "q = p") (simp_all, meson subset_trans)
  moreover have "(\<lambda>q. vclk (nodes N' q)) = (\<lambda>q. vclk (nodes N q))(p := vclk s)"
    by (simp only: N'(1) vclk_upd)
  ultimately show ?thesis using sys msgs unfolding implements_def by simp
qed

lemma implements_recv:
  assumes imp: "implements N D" and m: "m \<in> set (sent N)"
  shows "\<exists>D'. implements (net_recv p m N) D'"
proof -
  let ?st = "nodes N p" and ?V = "\<lambda>q. vclk (nodes N q)"
  from imp m have sys: "causal_sys ?V (sent N) D (causes N)" and wf: "wf_msg m" "causal_msg m"
    and inv: "cb_inv ?st" by (auto simp: implements_def)
  obtain ms rem where r: "receive m ?st = (deliver_all ?st ms)\<lparr>hold_queue := rem\<rparr>"
      "ready_run (vclk ?st) ms" "mset ms + mset rem = mset (hold_queue ?st) + {#m#}"
      "drained (run (vclk ?st) ms) rem"
    using receive_run [OF inv wf] by blast
  have "set ms \<union> set rem = insert m (set (hold_queue ?st))"
    using arg_cong [OF r(3), of set_mset] by simp
  moreover have "insert m (set (hold_queue ?st)) \<subseteq> set (sent N)"
    using imp m by (simp add: implements_def)
  ultimately have sub: "set ms \<subseteq> set (sent N)" "set rem \<subseteq> set (sent N)" by blast+
  have "causal_sys (?V(p := run (?V p) ms)) (sent N) (D(p := D p @ ms)) (causes N)"
    by (rule causal_sys_deliver_all [where V = ?V, OF sys sub(1) r(2)])
  then have sys': "causal_sys (?V(p := vclk (receive m ?st))) (sent N) (D(p := D p @ ms)) (causes N)"
    by (simp add: r(1))
  have "implements (net_recv p m N) (D(p := D p @ ms))"
    by (rule implements_update [where p = p and s = "receive m ?st", OF imp])
      (use imp sys' r(1,4) sub(2) cb_inv_receive [OF inv wf(1)] in
        \<open>auto simp: net_recv_def implements_def\<close>)
  then show ?thesis by blast
qed

lemma implements_send:
  assumes imp: "implements N D" and k: "k \<notin> HEALTH_KINDS"
    and fresh: "''bc_'' @ take 12 u \<notin> set (map message_id (sent N))"
  shows "implements (net_send p u k pl tc tr N) D"
proof -
  let ?st = "nodes N p" and ?V = "\<lambda>q. vclk (nodes N q)"
  obtain m s where ms: "send u k pl tc tr ?st = (m, s)" by fastforce
  from imp have sys: "causal_sys ?V (sent N) D (causes N)" and st: "local_actor ?st = p" "cb_inv ?st"
    and dlv: "delivered ?st = map message_id (D p)"
    and held: "set (hold_queue ?st) \<subseteq> set (sent N)" "drained (vclk ?st) (hold_queue ?st)"
    by (auto simp: implements_def)
  note m = net_send_shape [OF ms st]
  have "\<not> ready (vclk s) x" if "x \<in> set (hold_queue ?st)" for x
  proof
    assume "ready (vclk s) x"
    moreover have xS: "x \<in> set (sent N)" using that held(1) by blast
    ultimately have "ready (vclk ?st) x"
      using m(6) sent_known_bound [OF sys xS, of p] sent_time(2) [OF sys xS]
      by (auto simp: ready_def split: if_splits)
    with held(2) that show False by (simp add: drained_def)
  qed
  then have "drained (vclk s) (hold_queue s)" by (simp add: drained_def m(7))
  moreover have "causal_sys (?V(p := mvc m)) (sent N @ [m]) D ((causes N)(message_id m :=
      message_id ` (set (D p) \<union> {x \<in> set (sent N). source_core x = p})))"
    by (rule causal_sys_send [where V = ?V, OF sys m(1)]) (use m fresh in auto)
  moreover have "message_id ` (set (D p) \<union> {x \<in> set (sent N). source_core x = p}) =
      set (delivered ?st) \<union> set (map message_id (filter (\<lambda>x. source_core x = p) (sent N)))"
    by (auto simp: dlv)
  moreover have "\<forall>x \<in> set (sent N @ [m]). wf_msg x \<and> causal_msg x"
    using imp k m(2,5) by (auto simp: implements_def)
  ultimately show ?thesis
    by (intro implements_update [where p = p and s = s, OF imp]) (use m held(1) dlv in auto)
qed

abbreviation causal_only :: "network \<Rightarrow> bool" where
  "causal_only N \<equiv> \<forall>m \<in> set (sent N). causal_msg m"

lemma reachable_implements: "net_reachable N \<Longrightarrow> causal_only N \<Longrightarrow> \<exists>D. implements N D"
proof (induction rule: net_reachable.induct)
  case start
  show ?case by (rule exI, rule implements_init)
next
  case (sending N u p k pl tc tr)
  have "sent (net_send p u k pl tc tr N) = sent N @ [fst (send u k pl tc tr (nodes N p))]"
    by (simp add: net_send_def split: prod.split)
  with sending.prems have "causal_only N" "k \<notin> HEALTH_KINDS" using send_msg(2) by auto
  with sending show ?case using implements_send by blast
next
  case (receiving N m p)
  then show ?case using implements_recv by (fastforce simp: net_recv_def)
next
  case (subscribing N p h)
  then show ?case by (auto simp: implements_def net_subscribe_frame)
qed

section \<open>Properties of the group\<close>

lemma happened_before_causes: "happened_before N m m' \<Longrightarrow> (cause (sent N) (causes N))\<^sup>+\<^sup>+ m m'"
proof (induction rule: happened_before.induct)
  case (direct m m')
  then show ?case by (auto simp: cause_def)
next
  case (chain m m' m'')
  then show ?case by (meson tranclp_trans)
qed

text \<open>
  C1: causal delivery, with health beacons in the network. In every reachable state of the group, when an
  actor has delivered a message, and neither it nor anything delivered before it is a health beacon, then
  the actor has delivered before it every message of another actor that happened before it: every message
  its sender had sent or delivered when it sent, and transitively, also along beacons that
  other actors have sent and delivered.
\<close>

theorem causal_delivery:
  assumes "net_reachable N" and "happened_before N m m'" and "source_core m \<noteq> p"
    and "delivered (nodes N p) = xs @ message_id m' # ys"
    and "\<forall>x \<in> set (sent N). message_id x \<in> set (xs @ [message_id m']) \<longrightarrow> bm_kind x \<notin> HEALTH_KINDS"
  shows "message_id m \<in> set xs"
proof -
  obtain D where imp: "mixes N D" using reachable_mixes [OF assms(1)] by blast
  then have sys: "mixed_sys (\<lambda>q. vclk (nodes N q)) (sent N) D (causes N)"
    and "map message_id (D p) = xs @ message_id m' # ys"
    using assms(4) by (auto simp: mixes_def)
  then obtain ds x es where D: "D p = ds @ x # es" "map message_id ds = xs" "message_id x = message_id m'"
    by (auto simp: map_eq_append_conv)
  note hb = happened_before_causes [OF assms(2)]
  have "m' \<in> set (sent N)" using hb by (cases rule: tranclp.cases) (auto simp: cause_def)
  moreover have sub: "set (ds @ [x]) \<subseteq> set (sent N)" using mixed_dlv_sub [OF sys, of p] D(1) by auto
  ultimately have "x = m'" using D(3) mixed_ids [OF sys] by (auto simp: distinct_map dest: inj_onD)
  moreover have "list_all causal_msg (ds @ [x])"
    using assms(5) sub D(2,3) by (auto simp: list_all_iff)
  ultimately have "m \<in> set ds" using past_delivered [OF sys assms(3) hb] D(1) by blast
  with D(2) show ?thesis by auto
qed

text \<open>
  C12: at most one delivery, and nothing from nowhere, with health beacons in the network. In every
  reachable state what an actor has delivered has been sent, and a message that is not a health beacon is delivered at
  most once by every other actor, and never by its sender, however often the transport repeats it.
\<close>

theorem delivered_once:
  assumes "net_reachable N"
  shows "set (delivered (nodes N p)) \<subseteq> message_id ` set (sent N) \<and>
    (\<forall>m \<in> set (sent N). bm_kind m \<notin> HEALTH_KINDS \<longrightarrow>
       count_list (delivered (nodes N p)) (message_id m) \<le> (if source_core m = p then 0 else 1))"
proof -
  obtain D where imp: "mixes N D" using reachable_mixes [OF assms] by blast
  then have sys: "mixed_sys (\<lambda>q. vclk (nodes N q)) (sent N) D (causes N)"
    and dlv: "delivered (nodes N p) = map message_id (D p)" by (auto simp: mixes_def)
  have sub: "set (D p) \<subseteq> set (sent N)" by (rule mixed_dlv_sub [OF sys])
  have count: "count_list (map message_id (D p)) (message_id m) = count_list (D p) m" if "m \<in> set (sent N)" for m
  proof -
    have "filter (\<lambda>y. message_id y = message_id m) (D p) = filter (\<lambda>y. y = m) (D p)"
      by (rule filter_cong) (use that sub mixed_ids [OF sys] in \<open>auto simp: distinct_map dest: inj_onD\<close>)
    moreover have "filter ((=) m) (D p) = filter (\<lambda>y. y = m) (D p)" "filter ((=) (message_id m)) (map message_id (D p)) =
        map message_id (filter (\<lambda>y. message_id y = message_id m) (D p))"
      by (simp_all add: filter_map comp_def eq_commute cong: filter_cong)
    ultimately show ?thesis by (simp add: count_list_eq_length_filter)
  qed
  show ?thesis using causal_delivered_once [OF sys, where p = p] sub by (auto simp: dlv count)
qed

text \<open>A message that has arrived at an actor is delivered there or waits in its hold queue.\<close>

definition arrived :: "network \<Rightarrow> string \<Rightarrow> bmsg \<Rightarrow> bool" where
  "arrived N p m \<longleftrightarrow> message_id m \<in> set (delivered (nodes N p)) \<or> m \<in> set (hold_queue (nodes N p))"

lemma arrived_delivered:
  assumes "net_reachable N" and "causal_only N" and arr: "\<forall>m \<in> set (sent N). source_core m \<noteq> p \<longrightarrow> arrived N p m"
  shows "\<forall>m \<in> set (sent N). source_core m \<noteq> p \<longrightarrow> message_id m \<in> set (delivered (nodes N p))"
proof -
  obtain D where imp: "implements N D" using reachable_implements [OF assms(1,2)] by blast
  then have sys: "causal_sys (\<lambda>q. vclk (nodes N q)) (sent N) D (causes N)"
    and dlv: "delivered (nodes N p) = map message_id (D p)"
    and dr: "drained (vclk (nodes N p)) (hold_queue (nodes N p))" by (auto simp: implements_def)
  have in_D: "m \<in> set (D p)" if "m \<in> set (sent N)" "message_id m \<in> set (delivered (nodes N p))" for m
    using that causal_ids [OF sys] causal_dlv_sub [OF sys, of p] dlv
    by (auto simp: distinct_map dest: inj_onD)
  have "\<forall>m \<in> set (sent N). source_core m \<noteq> p \<longrightarrow> m \<in> set (D p) \<union> set (hold_queue (nodes N p))"
    using arr in_D unfolding arrived_def by blast
  from all_delivered [OF sys this dr] show ?thesis by (auto simp: dlv)
qed

lemma recv_arrived:
  assumes "net_reachable N" and "causal_only N" and "m \<in> set (sent N)"
  shows "arrived (net_recv p m N) p m" and "arrived N p x \<Longrightarrow> arrived (net_recv p m N) p x"
proof -
  let ?st = "nodes N p"
  obtain D where imp: "implements N D" using reachable_implements [OF assms(1,2)] by blast
  with assms(3) have "wf_msg m" "causal_msg m" "cb_inv ?st" by (auto simp: implements_def)
  then obtain ms rem where r: "receive m ?st = (deliver_all ?st ms)\<lparr>hold_queue := rem\<rparr>"
    "mset ms + mset rem = mset (hold_queue ?st) + {#m#}" using receive_run by blast
  have s: "set ms \<union> set rem = insert m (set (hold_queue ?st))"
    using arg_cong [OF r(2), of set_mset] by simp
  have n: "nodes (net_recv p m N) p = (deliver_all ?st ms)\<lparr>hold_queue := rem\<rparr>"
    by (simp add: net_recv_def r(1))
  show "arrived (net_recv p m N) p m" using s by (auto simp: arrived_def n)
  show "arrived (net_recv p m N) p x" if "arrived N p x" using that s by (auto simp: arrived_def n)
qed

lemma recv_all_arrived:
  assumes "net_reachable N" and "causal_only N" and "set ms \<subseteq> set (sent N)"
  shows "net_reachable (fold (net_recv p) ms N) \<and> sent (fold (net_recv p) ms N) = sent N \<and>
     (\<forall>m. m \<in> set ms \<or> arrived N p m \<longrightarrow> arrived (fold (net_recv p) ms N) p m)"
  using assms
proof (induction ms arbitrary: N)
  case Nil
  then show ?case by simp
next
  case (Cons a ms)
  then have a: "a \<in> set (sent N)" by simp
  have "sent (net_recv p a N) = sent N" by (simp add: net_recv_def)
  moreover from net_reachable.receiving [OF Cons.prems(1) a] have "net_reachable (net_recv p a N)" .
  ultimately have "net_reachable (fold (net_recv p) ms (net_recv p a N)) \<and>
      sent (fold (net_recv p) ms (net_recv p a N)) = sent N \<and>
      (\<forall>m. m \<in> set ms \<or> arrived (net_recv p a N) p m \<longrightarrow> arrived (fold (net_recv p) ms (net_recv p a N)) p m)"
    using Cons.IH [of "net_recv p a N"] Cons.prems(2,3) by simp
  with recv_arrived [OF Cons.prems(1,2) a, of p] show ?case by auto
qed

text \<open>
  C10: eventual delivery, as long as nobody has sent a health beacon. From every reachable state of the group in
  which all messages sent so far are causal, when an actor receives the
  messages of the others that have been sent, in any order and however often, it ends in a
  reachable state in which all of them are delivered to it: no order of arrival keeps a message
  back.
\<close>

theorem eventual_delivery:
  assumes "net_reachable N" and "\<forall>m \<in> set (sent N). bm_kind m \<notin> HEALTH_KINDS"
    and "set ms \<subseteq> set (sent N)" and "\<forall>m \<in> set (sent N). source_core m \<noteq> p \<longrightarrow> m \<in> set ms"
  shows "net_reachable (fold (net_recv p) ms N) \<and>
     (\<forall>m \<in> set (sent N). source_core m \<noteq> p \<longrightarrow> message_id m \<in> set (delivered (nodes (fold (net_recv p) ms N) p)))"
proof -
  note r = recv_all_arrived [OF assms(1-3), of p]
  then have "\<forall>m \<in> set (sent (fold (net_recv p) ms N)). source_core m \<noteq> p \<longrightarrow> arrived (fold (net_recv p) ms N) p m"
    using assms(4) by simp
  with r arrived_delivered [of "fold (net_recv p) ms N" p] assms(2) show ?thesis by simp
qed

section \<open>A run for the witnesses\<close>

text \<open>
  A sends, B receives and then sends, C receives the second message before the first.
\<close>

definition run1 :: network where
  "run1 = net_send ''A'' ''00000000000a'' ''control'' [] None [] net_init"

definition run3 :: network where
  "run3 = net_send ''B'' ''00000000000b'' ''memory'' [] None []
     (net_recv ''B'' (hd (sent run1)) run1)"

definition run5 :: network where
  "run5 = net_recv ''C'' (hd (sent run3)) (net_recv ''C'' (last (sent run3)) run3)"

lemma run1_sent: "sent run1 = [fst (send ''00000000000a'' ''control'' [] None [] (cbcast_init ''A''))]"
  by (simp add: run1_def net_send_def net_init_def split: prod.split)

lemma run3_sent: "sent run3 = sent run1 @
    [fst (send ''00000000000b'' ''memory'' [] None [] (nodes (net_recv ''B'' (hd (sent run1)) run1) ''B''))]"
  by (simp add: run3_def net_send_def net_recv_def split: prod.split)

lemma run_ids: "map message_id (sent run3) = [''bc_00000000000a'', ''bc_00000000000b'']"
  by (simp add: run3_sent run1_sent send_msg)

lemma run1_reachable: "net_reachable run1"
  unfolding run1_def
  by (rule net_reachable.sending [OF net_reachable.start]) (simp add: net_init_def)

lemma run3_reachable: "net_reachable run3"
  unfolding run3_def
proof (rule net_reachable.sending)
  show "net_reachable (net_recv ''B'' (hd (sent run1)) run1)"
    by (rule net_reachable.receiving [OF run1_reachable]) (simp add: run1_sent)
qed (simp add: net_recv_def run1_sent send_msg)

lemma run5_reachable: "net_reachable run5"
  unfolding run5_def
proof (rule net_reachable.receiving)
  show "net_reachable (net_recv ''C'' (last (sent run3)) run3)"
    by (rule net_reachable.receiving [OF run3_reachable]) (simp add: run3_sent)
qed (simp add: net_recv_def run3_sent run1_sent)

lemma run5_sent: "sent run5 = sent run3"
  by (simp add: run5_def net_recv_def)

lemma run5_delivered: "delivered (nodes run5 ''C'') = [''bc_00000000000a'', ''bc_00000000000b'']"
  by code_simp

text \<open>Then D sends a beacon, which reaches B twice.\<close>

definition run6 :: network where
  "run6 = net_send ''D'' ''00000000000d'' ''health'' [] None [] run5"

definition run8 :: network where
  "run8 = net_recv ''B'' (last (sent run6)) (net_recv ''B'' (last (sent run6)) run6)"

lemma run6_sent: "sent run6 = sent run3 @ [fst (send ''00000000000d'' ''health'' [] None [] (nodes run5 ''D''))]"
  by (simp add: run6_def net_send_def run5_sent split: prod.split)

lemma run8_sent: "sent run8 = sent run6" "causes run8 = causes run6"
  by (simp_all add: run8_def net_recv_def)

lemma run8_reachable: "net_reachable run8"
proof -
  have "net_reachable run6"
    unfolding run6_def by (rule net_reachable.sending [OF run5_reachable]) (simp add: run5_sent run_ids)
  then show ?thesis
    unfolding run8_def by (intro net_reachable.receiving) (simp_all add: run6_sent net_recv_def)
qed

lemma run8_eval:
  "delivered (nodes run8 ''C'') = [''bc_00000000000a'', ''bc_00000000000b'']"
  "delivered (nodes run8 ''B'') = [''bc_00000000000a'', ''bc_00000000000d'', ''bc_00000000000d'']"
  "map (\<lambda>m. (message_id m, bm_kind m, source_core m)) (sent run8) =
     [(''bc_00000000000a'', ''control'', ''A''), (''bc_00000000000b'', ''memory'', ''B''), (''bc_00000000000d'', ''health'', ''D'')]"
  by code_simp+

lemma run8_hb: "happened_before run8 (sent run8 ! 0) (sent run8 ! 1)"
proof (rule happened_before.direct)
  have "length (sent run8) = 3" using arg_cong [OF run8_eval(3), of length] by simp
  then show "sent run8 ! 0 \<in> set (sent run8)" "sent run8 ! 1 \<in> set (sent run8)" by (auto intro: nth_mem)
  show "message_id (sent run8 ! 0) \<in> causes run8 (message_id (sent run8 ! 1))" by code_simp
qed

theorem causal_delivery_witness:
  "delivered (nodes run8 ''C'') = [''bc_00000000000a''] @ ''bc_00000000000b'' # [] \<and>
   message_id (sent run8 ! 0) \<in> set [''bc_00000000000a''] \<and>
   (\<exists>m \<in> set (sent run8). bm_kind m \<in> HEALTH_KINDS)"
proof -
  have e: "source_core (sent run8 ! 0) = ''A''" "message_id (sent run8 ! 1) = ''bc_00000000000b''"
    "\<forall>x \<in> set (sent run8). message_id x \<in> set [''bc_00000000000a'', ''bc_00000000000b''] \<longrightarrow> bm_kind x \<notin> HEALTH_KINDS"
    "\<exists>m \<in> set (sent run8). bm_kind m \<in> HEALTH_KINDS"
    by code_simp+
  have "message_id (sent run8 ! 0) \<in> set [''bc_00000000000a'']"
    by (rule causal_delivery [OF run8_reachable run8_hb, where p = "''C''" and ys = "[]"])
      (use e run8_eval(1) in simp_all)
  with e(4) run8_eval(1) show ?thesis by simp
qed

theorem delivered_once_witness:
  "count_list (delivered (nodes run8 ''B'')) (message_id (sent run8 ! 0)) = 1 \<and>
   count_list (delivered (nodes run8 ''B'')) ''bc_00000000000d'' = 2 \<and>
   count_list (delivered (nodes run8 ''C'')) (message_id (sent run8 ! 0)) \<le> 1"
proof -
  have e: "count_list (delivered (nodes run8 ''B'')) (message_id (sent run8 ! 0)) = 1"
    "count_list (delivered (nodes run8 ''B'')) ''bc_00000000000d'' = 2"
    "source_core (sent run8 ! 0) = ''A''" "bm_kind (sent run8 ! 0) \<notin> HEALTH_KINDS" by code_simp+
  have "sent run8 ! 0 \<in> set (sent run8)"
    using arg_cong [OF run8_eval(3), of length] by (auto intro: nth_mem)
  with e delivered_once [OF run8_reachable, of "''C''"] show ?thesis by auto
qed

theorem eventual_delivery_witness:
  "message_id (last (sent run3)) \<in>
     set (delivered (nodes (fold (net_recv ''C'') (rev (sent run3)) run3) ''C''))"
proof -
  have c: "source_core (last (sent run3)) \<noteq> ''C''" "\<forall>m \<in> set (sent run3). bm_kind m \<notin> HEALTH_KINDS" by code_simp+
  have "last (sent run3) \<in> set (sent run3)" by (simp add: run3_sent)
  with c eventual_delivery [OF run3_reachable c(2), of "rev (sent run3)" "''C''"] show ?thesis by simp
qed

end
