(* ===== verification/Drain_Loop.thy ===== *)
theory Drain_Loop
  imports Causal_Broadcast
begin

text \<open>
  \<^verbatim>\<open>_try_deliver_buffered\<close> statement by statement: two nested \<^verbatim>\<open>while\<close> loops over the queue that is
  being popped and the flag, neither of which bounds itself. Shown: from every state, whatever
  the clocks and the handlers, both loops end, with the state that the terminating recursion
  \<open>try_deliver_buffered\<close> of the broadcast model computes, in at most one pass per held message
  and one more.
\<close>

section \<open>The loops\<close>

partial_function (option) pop_loop :: "cbcast \<Rightarrow> bmsg list \<Rightarrow> bool \<Rightarrow> (cbcast \<times> bmsg list \<times> bool) option" where
  "pop_loop st remaining delivered_any =
     (case hold_queue st of
        [] \<Rightarrow> Some (st, remaining, delivered_any)
      | msg # q \<Rightarrow>
          (let st' = st\<lparr>hold_queue := q\<rparr>
           in if is_deliverable (cb_clock st') msg then pop_loop (deliver st' msg) remaining True
              else pop_loop st' (remaining @ [msg]) delivered_any))"

partial_function (option) drain_loop :: "nat \<Rightarrow> cbcast \<Rightarrow> (nat \<times> cbcast) option" where
  "drain_loop passes st =
     Option.bind (pop_loop st [] False) (\<lambda>(st', remaining, delivered_any).
       (let st'' = st'\<lparr>hold_queue := remaining\<rparr>
        in if delivered_any then drain_loop (Suc passes) st'' else Some (Suc passes, st'')))"

section \<open>They end\<close>

text \<open>The inner loop ends after one round per message, and is a pass over the queue.\<close>

lemma pop_loop_pass:
  "pop_loop (st\<lparr>hold_queue := q\<rparr>) rem any =
     (case drain_pass st q rem any of (st', rem', any') \<Rightarrow> Some (st'\<lparr>hold_queue := []\<rparr>, rem', any'))"
proof (induction q arbitrary: st rem any)
  case Nil
  then show ?case by (subst pop_loop.simps) simp
next
  case (Cons m q)
  then show ?case by (subst pop_loop.simps) (simp add: Let_def split: prod.split)
qed

lemma pop_loop_drain_pass:
  "pop_loop st rem any =
     (case drain_pass st (hold_queue st) rem any of (st', rem', any') \<Rightarrow> Some (st'\<lparr>hold_queue := []\<rparr>, rem', any'))"
  using pop_loop_pass [where st = st and q = "hold_queue st"] by simp

lemma drain_loop_step:
  "drain_loop n st = (case drain_pass st (hold_queue st) [] False of
     (st', rem, any) \<Rightarrow> (if any then drain_loop (Suc n) (st'\<lparr>hold_queue := rem\<rparr>)
       else Some (Suc n, st'\<lparr>hold_queue := rem\<rparr>)))"
  by (subst drain_loop.simps) (simp add: pop_loop_drain_pass Let_def split: prod.split)

text \<open>
  C18: the drain of the hold queue ends from every state and whatever the messages claim, after
  at most one pass more than there are held messages, and its result is the recursion's.
\<close>

theorem drain_loop_ends:
  "\<exists>k. drain_loop n st = Some (n + k, try_deliver_buffered st) \<and> 1 \<le> k \<and> k \<le> Suc (length (hold_queue st))"
proof (induction st arbitrary: n rule: try_deliver_buffered.induct)
  case (1 st)
  obtain st' rem any where pass: "drain_pass st (hold_queue st) [] False = (st', rem, any)" by (metis prod_cases3)
  show ?case
  proof (cases any)
    case False
    with pass show ?thesis
      by (intro exI [of _ 1]) (simp add: drain_loop_step [of n st] try_deliver_buffered.simps [of st])
  next
    case True
    let ?s = "st'\<lparr>hold_queue := rem\<rparr>"
    have "length rem < length (hold_queue st)" using drain_pass_shrinks pass True by fastforce
    moreover from "1.IH" [OF pass [symmetric] refl True, of "Suc n"] obtain k where
      "drain_loop (Suc n) ?s = Some (Suc n + k, try_deliver_buffered ?s)" "k \<le> Suc (length rem)" by auto
    ultimately show ?thesis using pass True
      by (intro exI [of _ "Suc k"]) (simp add: drain_loop_step [of n st] try_deliver_buffered.simps [of st])
  qed
qed

end
