(* ===== verification/Reentrancy.thy ===== *)
theory Reentrancy
  imports Causal_Broadcast
begin

text \<open>
  \<^verbatim>\<open>gaia_server/ipc/causal_broadcast.py\<close> once more, with delivery handlers that call back into the
  endpoint that is delivering to them. \<^verbatim>\<open>_lock\<close> is a \<^verbatim>\<open>threading.Lock\<close>, which a thread that holds it
  cannot take again, and \<^verbatim>\<open>receive\<close> holds it while the handlers run; \<^verbatim>\<open>subscribe\<close> does not take it
  and appends to the list that the delivery loop is walking over.

  The model keeps the lock as a flag. An operation that never returns has the result \<open>None\<close>: the
  thread waits for a lock it holds itself, or the loop over the handlers never ends. The lemmas
  say when this happens, that with handlers that do not call back the endpoint behaves as
  \<open>receive\<close> of \<open>Causal_Broadcast\<close>, and which handlers a delivery calls.
\<close>

section \<open>Handlers that call back, and the endpoint\<close>

text \<open>
  A handler's run on a message is the list of endpoint methods it calls, in order, and the
  exception it ends with, if any. The first call of a locking method blocks (below), so no call
  can depend on the result of an earlier one. A handler can register itself, so handlers are a
  \<open>codatatype\<close>.
\<close>

datatype 'h endpoint_call =
    CallSubscribe 'h
  | CallSend string string pydict string
  | CallReceive bmsg
  | CallClockSnapshot
  | CallHoldQueueDepth

codatatype rhandler = RHandler (rh_body: "bmsg \<Rightarrow> rhandler endpoint_call list \<times> py_exn option")

abbreviation rh_calls :: "rhandler \<Rightarrow> bmsg \<Rightarrow> rhandler endpoint_call list" where
  "rh_calls h m \<equiv> fst (rh_body h m)"

abbreviation rh_exn :: "rhandler \<Rightarrow> bmsg \<Rightarrow> py_exn option" where
  "rh_exn h m \<equiv> snd (rh_body h m)"

record rcast =
  rc_actor :: string
  rc_clock :: "(string, int) dict"
  rc_hold :: "bmsg list"
  rc_delivered :: "string list"
  rc_handlers :: "rhandler list"
  rc_calls :: "(nat \<times> bmsg \<times> py_exn option) list"
  rc_lock :: bool

text \<open>\<^verbatim>\<open>with self._lock:\<close>\<close>

definition with_lock :: "(rcast \<Rightarrow> rcast option) \<Rightarrow> rcast \<Rightarrow> rcast option" where
  "with_lock body st =
     (if rc_lock st then None
      else map_option (\<lambda>st'. st'\<lparr>rc_lock := False\<rparr>) (body (st\<lparr>rc_lock := True\<rparr>)))"

definition r_subscribe :: "rhandler \<Rightarrow> rcast \<Rightarrow> rcast" where
  "r_subscribe h st = st\<lparr>rc_handlers := rc_handlers st @ [h]\<rparr>"

text \<open>
  Of \<^verbatim>\<open>send\<close>, what it does to the endpoint under the lock; the message it returns plays no part here.
\<close>

definition r_send :: "string \<Rightarrow> string \<Rightarrow> pydict \<Rightarrow> string \<Rightarrow> rcast \<Rightarrow> rcast option" where
  "r_send uuid_hex knd pl trace =
     with_lock (\<lambda>st. Some (st\<lparr>rc_clock :=
       dset (rc_clock st) (rc_actor st) (dget (rc_clock st) (rc_actor st) 0 + 1)\<rparr>))"

text \<open>
  The methods a handler calls. \<open>recv\<close> is the \<^verbatim>\<open>receive\<close> method, defined below from these loops; the
  two getters take the lock, read and release it.
\<close>

fun handler_call :: "(bmsg \<Rightarrow> rcast \<Rightarrow> rcast option) \<Rightarrow> rhandler endpoint_call \<Rightarrow> rcast \<Rightarrow> rcast option"
where
  "handler_call recv (CallSubscribe h) st = Some (r_subscribe h st)"
| "handler_call recv (CallSend u k pl tr) st = r_send u k pl tr st"
| "handler_call recv (CallReceive m) st = recv m st"
| "handler_call recv CallClockSnapshot st = with_lock Some st"
| "handler_call recv CallHoldQueueDepth st = with_lock Some st"

fun handler_run :: "(bmsg \<Rightarrow> rcast \<Rightarrow> rcast option) \<Rightarrow> rhandler endpoint_call list \<Rightarrow> rcast \<Rightarrow> rcast option"
where
  "handler_run recv [] st = Some st"
| "handler_run recv (c # cs) st = Option.bind (handler_call recv c st) (handler_run recv cs)"

text \<open>
  \<^verbatim>\<open>for handler in self._handlers\<close>: the iterator reads the length of the list again at every step.
\<close>

partial_function (option) handler_loop ::
    "(bmsg \<Rightarrow> rcast \<Rightarrow> rcast option) \<Rightarrow> bmsg \<Rightarrow> nat \<Rightarrow> rcast \<Rightarrow> rcast option" where
  "handler_loop recv m i st =
     (if i < length (rc_handlers st)
      then Option.bind (handler_run recv (rh_calls (rc_handlers st ! i) m) st)
        (\<lambda>st'. handler_loop recv m (i + 1)
           (st'\<lparr>rc_calls := rc_calls st' @ [(i, m, rh_exn (rc_handlers st ! i) m)]\<rparr>))
      else Some st)"

definition mark_delivered :: "rcast \<Rightarrow> bmsg \<Rightarrow> rcast" where
  "mark_delivered st m =
     st\<lparr>rc_clock := advance (rc_clock st) m, rc_delivered := rc_delivered st @ [message_id m]\<rparr>"

definition r_deliver :: "(bmsg \<Rightarrow> rcast \<Rightarrow> rcast option) \<Rightarrow> rcast \<Rightarrow> bmsg \<Rightarrow> rcast option" where
  "r_deliver recv st m = handler_loop recv m 0 (mark_delivered st m)"

fun r_drain_pass :: "(bmsg \<Rightarrow> rcast \<Rightarrow> rcast option) \<Rightarrow> rcast \<Rightarrow> bmsg list \<Rightarrow> bmsg list \<Rightarrow> bool
    \<Rightarrow> (rcast \<times> bmsg list \<times> bool) option" where
  "r_drain_pass recv st [] remaining delivered_any = Some (st, remaining, delivered_any)"
| "r_drain_pass recv st (msg # q) remaining delivered_any =
     (if is_deliverable (rc_clock st) msg
      then Option.bind (r_deliver recv st msg) (\<lambda>st'. r_drain_pass recv st' q remaining True)
      else r_drain_pass recv st q (remaining @ [msg]) delivered_any)"

partial_function (option) r_try_deliver ::
    "(bmsg \<Rightarrow> rcast \<Rightarrow> rcast option) \<Rightarrow> rcast \<Rightarrow> rcast option" where
  "r_try_deliver recv st =
     Option.bind (r_drain_pass recv st (rc_hold st) [] False)
       (\<lambda>(st', remaining, delivered_any).
          if delivered_any then r_try_deliver recv (st'\<lparr>rc_hold := remaining\<rparr>)
          else Some (st'\<lparr>rc_hold := remaining\<rparr>))"

definition r_receive_body :: "(bmsg \<Rightarrow> rcast \<Rightarrow> rcast option) \<Rightarrow> bmsg \<Rightarrow> rcast \<Rightarrow> rcast option" where
  "r_receive_body recv msg st =
     (if bm_kind msg \<in> HEALTH_KINDS then r_deliver recv st msg
      else r_try_deliver recv (st\<lparr>rc_hold := rc_hold st @ [msg]\<rparr>))"

text \<open>\<open>r_receive n\<close> is \<^verbatim>\<open>receive\<close> with handlers that may call \<^verbatim>\<open>receive\<close> again, nested less than \<open>n\<close> deep.\<close>

primrec r_receive :: "nat \<Rightarrow> bmsg \<Rightarrow> rcast \<Rightarrow> rcast option" where
  "r_receive 0 msg = (\<lambda>st. None)"
| "r_receive (Suc n) msg = with_lock (r_receive_body (r_receive n) msg)"

section \<open>The lock blocks its own holder\<close>

lemma with_lock_held [simp]: "rc_lock st \<Longrightarrow> with_lock body st = None"
  by (simp add: with_lock_def)

lemma r_receive_held [simp]: "rc_lock st \<Longrightarrow> r_receive n msg st = None"
  by (cases n) simp_all

lemma r_send_held [simp]: "rc_lock st \<Longrightarrow> r_send u k pl tr st = None"
  by (simp add: r_send_def)

fun locking :: "'h endpoint_call \<Rightarrow> bool" where
  "locking (CallSubscribe h) = False"
| "locking c = True"

fun subscribed :: "'h endpoint_call list \<Rightarrow> 'h list" where
  "subscribed [] = []"
| "subscribed (CallSubscribe h # cs) = h # subscribed cs"
| "subscribed (c # cs) = subscribed cs"

text \<open>Under the lock a handler's run registers what it registers, or blocks for ever.\<close>

lemma handler_run_held:
  "rc_lock st \<Longrightarrow> handler_run (r_receive n) cs st =
     (if list_ex locking cs then None
      else Some (st\<lparr>rc_handlers := rc_handlers st @ subscribed cs\<rparr>))"
proof (induction cs arbitrary: st)
  case Nil
  then show ?case by simp
next
  case (Cons c cs)
  then show ?case by (cases c) (simp_all add: r_subscribe_def)
qed

section \<open>Which handlers a delivery calls\<close>

text \<open>
  The walk of the loop from index \<open>i\<close> over the list \<open>hs\<close>, by itself: it ends with the list \<open>hs'\<close>, or
  there is no such list.
\<close>

inductive walks_to :: "bmsg \<Rightarrow> nat \<Rightarrow> rhandler list \<Rightarrow> rhandler list \<Rightarrow> bool" for m where
  walk_end: "length hs \<le> i \<Longrightarrow> walks_to m i hs hs"
| walk_call: "i < length hs \<Longrightarrow> \<not> list_ex locking (rh_calls (hs ! i) m) \<Longrightarrow>
     walks_to m (i + 1) (hs @ subscribed (rh_calls (hs ! i) m)) hs' \<Longrightarrow> walks_to m i hs hs'"

inductive_cases walks_toE: "walks_to m i hs hs'"

abbreviation calls_from :: "rhandler list \<Rightarrow> bmsg \<Rightarrow> nat \<Rightarrow> (nat \<times> bmsg \<times> py_exn option) list" where
  "calls_from hs m i \<equiv> map (\<lambda>j. (j, m, rh_exn (hs ! j) m)) [i..<length hs]"

definition walked :: "rcast \<Rightarrow> bmsg \<Rightarrow> nat \<Rightarrow> rhandler list \<Rightarrow> rcast" where
  "walked st m i hs = st\<lparr>rc_handlers := hs, rc_calls := rc_calls st @ calls_from hs m i\<rparr>"

lemma walks_to_prefix: "walks_to m i hs hs' \<Longrightarrow> \<exists>ks. hs' = hs @ ks"
  by (induction rule: walks_to.induct) auto

lemma walks_to_nth: "walks_to m i hs hs' \<Longrightarrow> j < length hs \<Longrightarrow> hs' ! j = hs ! j \<and> j < length hs'"
  by (auto dest!: walks_to_prefix simp: nth_append)

lemma handler_loop_sound:
  "handler_loop recv m i st = Some st' \<Longrightarrow> rc_lock st \<longrightarrow> recv = r_receive n \<longrightarrow>
     (\<exists>hs. walks_to m i (rc_handlers st) hs \<and> st' = walked st m i hs)"
proof (induction rule: handler_loop.raw_induct [rotated 1, consumes 1, case_names unfold])
  case (unfold loop recv m i st st')
  show ?case
  proof (cases "i < length (rc_handlers st)")
    case False
    with unfold(2) have "st' = walked st m i (rc_handlers st)" by (simp add: walked_def)
    moreover have "walks_to m i (rc_handlers st) (rc_handlers st)" using False by (simp add: walk_end)
    ultimately show ?thesis by blast
  next
    case True
    let ?h = "rc_handlers st ! i"
    show ?thesis
    proof (intro impI)
      assume held: "rc_lock st" "recv = r_receive n"
      let ?st = "st\<lparr>rc_handlers := rc_handlers st @ subscribed (rh_calls ?h m),
                    rc_calls := rc_calls st @ [(i, m, rh_exn ?h m)]\<rparr>"
      have free: "\<not> list_ex locking (rh_calls ?h m)" and rest: "loop recv m (i + 1) ?st = Some st'"
        using unfold(2) True held by (auto simp: handler_run_held split: if_splits)
      from unfold(1) [OF rest] held obtain hs where hs: "walks_to m (i + 1) (rc_handlers ?st) hs"
        and st': "st' = walked ?st m (i + 1) hs" by auto
      from walks_to_nth [OF hs, of i] True have "hs ! i = ?h" "i < length hs"
        by (auto simp: nth_append)
      with st' have "st' = walked st m i hs" by (simp add: walked_def upt_conv_Cons)
      with walk_call [OF True free] hs show
        "\<exists>hs. walks_to m i (rc_handlers st) hs \<and> st' = walked st m i hs" by auto
    qed
  qed
qed

lemma handler_loop_complete:
  assumes "walks_to m i hs hs'" and "rc_lock st" and "rc_handlers st = hs"
  shows "handler_loop (r_receive n) m i st = Some (walked st m i hs')"
  using assms
proof (induction arbitrary: st rule: walks_to.induct)
  case (walk_end hs i)
  then show ?case by (subst handler_loop.simps) (simp add: walked_def)
next
  case (walk_call i hs hs')
  from walks_to_nth [OF walk_call(3), of i] walk_call(1) have "hs' ! i = hs ! i" "i < length hs'"
    by (auto simp: nth_append)
  with walk_call show ?case
    by (subst handler_loop.simps) (simp add: handler_run_held walked_def upt_conv_Cons)
qed

lemma handler_loop_iff:
  "rc_lock st \<Longrightarrow> handler_loop (r_receive n) m i st = Some st' \<longleftrightarrow>
     (\<exists>hs. walks_to m i (rc_handlers st) hs \<and> st' = walked st m i hs)"
  using handler_loop_sound [of "r_receive n" m i st st' n]
    handler_loop_complete [of m i "rc_handlers st" _ st n] by auto

text \<open>So the nesting bound does not matter.\<close>

lemma handler_loop_depth:
  assumes "rc_lock st"
  shows "handler_loop (r_receive n) m i st = handler_loop (r_receive k) m i st"
proof -
  have eq: "x = y" if "\<And>v. x = Some v \<longleftrightarrow> y = Some v" for x y :: "rcast option"
    using that by (metis option.exhaust)
  show ?thesis by (rule eq) (simp add: handler_loop_iff [OF assms])
qed

section \<open>When a delivery returns\<close>

text \<open>
  A handler settles on a message when it calls no locking method and the handlers it registers
  settle.
\<close>

inductive settles :: "bmsg \<Rightarrow> rhandler \<Rightarrow> bool" for m where
  settlesI: "\<not> list_ex locking (rh_calls h m) \<Longrightarrow>
    (\<And>h'. h' \<in> set (subscribed (rh_calls h m)) \<Longrightarrow> settles m h') \<Longrightarrow> settles m h"

inductive_cases settlesE: "settles m h"

lemma walks_to_settles: "walks_to m i hs hs' \<Longrightarrow> h \<in> set (drop i hs) \<Longrightarrow> settles m h"
proof (induction arbitrary: h rule: walks_to.induct)
  case (walk_end hs i)
  then show ?case by simp
next
  case (walk_call i hs hs')
  have new: "settles m h'" if "h' \<in> set (subscribed (rh_calls (hs ! i) m))" for h'
    using walk_call.IH [of h'] that walk_call.hyps(1) by (simp add: Suc_leI)
  have "set (drop i hs) = insert (hs ! i) (set (drop (i + 1) hs))"
    using walk_call.hyps(1) by (simp flip: Cons_nth_drop_Suc)
  with walk_call.prems consider "h = hs ! i" | "h \<in> set (drop (i + 1) hs)" by auto
  then show ?case
  proof cases
    case 1
    with walk_call.hyps(2) new show ?thesis by (auto intro: settlesI)
  next
    case 2
    with walk_call.IH [of h] walk_call.hyps(1) show ?thesis by simp
  qed
qed

definition registers :: "bmsg \<Rightarrow> (rhandler \<times> rhandler) set" where
  "registers m = {(h', h). settles m h \<and> h' \<in> set (subscribed (rh_calls h m))}"

lemma wf_registers: "wf (registers m)"
proof (rule wfUNIVI)
  fix P h
  assume step: "\<forall>h. (\<forall>h'. (h', h) \<in> registers m \<longrightarrow> P h') \<longrightarrow> P h"
  have P: "settles m h \<Longrightarrow> P h" for h
    by (induction rule: settles.induct) (use step in \<open>auto simp: registers_def\<close>)
  show "P h"
    using step P by (cases "settles m h") (auto simp: registers_def)
qed

lemma settles_walks_to:
  "\<forall>h \<in> set (drop i hs). settles m h \<Longrightarrow> \<exists>hs'. walks_to m i hs hs'"
proof (induction "mset (drop i hs)" arbitrary: i hs rule: wf_induct_rule [OF wf_mult [OF wf_registers [of m]]])
  case (1 i hs)
  show ?case
  proof (cases "i < length hs")
    case False
    then show ?thesis using walk_end [of hs i m] by auto
  next
    case True
    let ?new = "subscribed (rh_calls (hs ! i) m)"
    have head: "drop i hs = hs ! i # drop (i + 1) hs" using True by (simp add: Cons_nth_drop_Suc)
    with 1(2) have set_i: "settles m (hs ! i)" by simp
    then have free: "\<not> list_ex locking (rh_calls (hs ! i) m)" and
      new: "\<forall>h \<in> set ?new. settles m h" by (auto elim: settlesE)
    have "(mset (drop (i + 1) (hs @ ?new)), mset (drop i hs)) \<in> mult (registers m)"
      unfolding head using True set_i
      by (auto simp: registers_def intro!: one_step_implies_mult [of "{#_#}", simplified])
    moreover have "\<forall>h \<in> set (drop (i + 1) (hs @ ?new)). settles m h"
      using 1(2) new True head by auto
    ultimately obtain hs' where "walks_to m (i + 1) (hs @ ?new) hs'" using 1(1) by blast
    with walk_call [OF True free] show ?thesis by blast
  qed
qed

lemma walks_iff_settles: "(\<exists>hs'. walks_to m i hs hs') \<longleftrightarrow> (\<forall>h \<in> set (drop i hs). settles m h)"
  using walks_to_settles settles_walks_to by blast

section \<open>Receiving\<close>

lemma mark_delivered_fields [simp]:
  "rc_lock (mark_delivered st m) = rc_lock st"
  "rc_handlers (mark_delivered st m) = rc_handlers st"
  "mark_delivered (st\<lparr>rc_lock := b\<rparr>) m = (mark_delivered st m)\<lparr>rc_lock := b\<rparr>"
  by (simp_all add: mark_delivered_def)

lemma r_deliver_iff:
  "rc_lock st \<Longrightarrow> r_deliver (r_receive n) st m = Some st' \<longleftrightarrow>
     (\<exists>hs. walks_to m 0 (rc_handlers st) hs \<and> st' = walked (mark_delivered st m) m 0 hs)"
  by (simp add: r_deliver_def handler_loop_iff)

lemma r_deliver_blocks:
  assumes "rc_lock st" and "h \<in> set (rc_handlers st)" and "\<not> settles m h"
  shows "r_deliver (r_receive n) st m = None"
proof (rule ccontr)
  assume "r_deliver (r_receive n) st m \<noteq> None"
  then obtain st' where "r_deliver (r_receive n) st m = Some st'" by auto
  with r_deliver_iff [OF assms(1)] obtain hs where "walks_to m 0 (rc_handlers st) hs" by blast
  with walks_to_settles [of m 0 "rc_handlers st" hs h] assms show False by simp
qed

lemma r_drain_pass_skip:
  "\<forall>x \<in> set q. \<not> is_deliverable (rc_clock st) x \<Longrightarrow>
     r_drain_pass recv st (q @ p) r any = r_drain_pass recv st p (r @ q) any"
  by (induction q arbitrary: r) simp_all

definition handler_log :: "bmsg \<Rightarrow> rhandler list \<Rightarrow> (nat \<times> bmsg \<times> py_exn option) list" where
  "handler_log msg hs = map (\<lambda>(i, h). (i, msg, rh_exn h msg)) (enumerate 0 hs)"

lemma handler_log_calls: "calls_from hs m 0 = handler_log m hs"
  by (rule nth_equalityI) (simp_all add: handler_log_def enumerate_eq_zip)

lemma walked_fields [simp]:
  "rc_handlers (walked st m i hs) = hs" "rc_lock (walked st m i hs) = rc_lock st"
  "rc_delivered (walked st m i hs) = rc_delivered st"
  "rc_calls (walked st m 0 hs) = rc_calls st @ handler_log m hs"
  by (simp_all add: walked_def handler_log_calls)

lemma mark_delivered_logs [simp]:
  "rc_delivered (mark_delivered st m) = rc_delivered st @ [message_id m]"
  "rc_calls (mark_delivered st m) = rc_calls st"
  by (simp_all add: mark_delivered_def)

lemma receive_health_iff:
  assumes "\<not> rc_lock st" and "bm_kind msg \<in> HEALTH_KINDS"
  shows "r_receive (Suc n) msg st = Some st' \<longleftrightarrow>
    (\<exists>hs. walks_to msg 0 (rc_handlers st) hs \<and> st' = walked (mark_delivered st msg) msg 0 hs)"
proof -
  let ?st = "st\<lparr>rc_lock := True\<rparr>"
  have free: "(walked (mark_delivered ?st msg) msg 0 hs)\<lparr>rc_lock := False\<rparr>
      = walked (mark_delivered st msg) msg 0 hs" for hs
    using assms(1) by (simp add: walked_def mark_delivered_def)
  have "r_receive (Suc n) msg st = map_option (\<lambda>st'. st'\<lparr>rc_lock := False\<rparr>) (r_deliver (r_receive n) ?st msg)"
    using assms by (simp add: with_lock_def r_receive_body_def)
  moreover have "r_deliver (r_receive n) ?st msg = Some st'' \<longleftrightarrow>
      (\<exists>hs. walks_to msg 0 (rc_handlers st) hs \<and> st'' = walked (mark_delivered ?st msg) msg 0 hs)"
    for st'' by (simp add: r_deliver_iff)
  ultimately show ?thesis using free by auto
qed

text \<open>
  C15: a health message. \<^verbatim>\<open>receive\<close> returns exactly when every registered handler settles on the
  message. It has then marked the message delivered and called every handler of the final list
  once, in the order of registration, among them the handlers registered while it was being
  delivered, and it has released the lock.
\<close>

theorem receive_health_outcome:
  assumes "\<not> rc_lock st" and "bm_kind msg \<in> HEALTH_KINDS"
  shows "case r_receive (Suc n) msg st of
      None \<Rightarrow> \<exists>h. h \<in> set (rc_handlers st) \<and> \<not> settles msg h
    | Some st' \<Rightarrow> list_all (settles msg) (rc_handlers st) \<and> \<not> rc_lock st' \<and>
        rc_delivered st' = rc_delivered st @ [message_id msg] \<and>
        rc_calls st' = rc_calls st @ handler_log msg (rc_handlers st') \<and>
        rc_handlers st' = rc_handlers st @ drop (length (rc_handlers st)) (rc_handlers st')"
proof (cases "r_receive (Suc n) msg st")
  case None
  have "\<not> walks_to msg 0 (rc_handlers st) hs" for hs
    using receive_health_iff [OF assms, of n "walked (mark_delivered st msg) msg 0 hs"] None by auto
  with walks_iff_settles [of msg 0 "rc_handlers st"] None show ?thesis by auto
next
  case (Some st')
  then obtain hs where hs: "walks_to msg 0 (rc_handlers st) hs"
    and st': "st' = walked (mark_delivered st msg) msg 0 hs"
    using receive_health_iff [OF assms] by blast
  have "list_all (settles msg) (rc_handlers st)"
    using hs walks_iff_settles [of msg 0 "rc_handlers st"] by (auto simp: list_all_iff)
  moreover obtain ks where "hs = rc_handlers st @ ks" using walks_to_prefix [OF hs] by blast
  ultimately show ?thesis
    using assms(1) Some st' by simp
qed

section \<open>Handlers that do not call back\<close>

definition plain :: "handler \<Rightarrow> rhandler" where
  "plain h = RHandler (\<lambda>m. ([], h m))"

definition embed :: "bool \<Rightarrow> cbcast \<Rightarrow> rcast" where
  "embed held st =
     \<lparr>rc_actor = local_actor st, rc_clock = cb_clock st, rc_hold = hold_queue st,
      rc_delivered = delivered st, rc_handlers = map plain (handlers st),
      rc_calls = handler_calls st, rc_lock = held\<rparr>"

lemma embed_simps [simp]:
  "rc_lock (embed b st) = b" "rc_clock (embed b st) = cb_clock st" "rc_hold (embed b st) = hold_queue st"
  "rc_handlers (embed b st) = map plain (handlers st)"
  "(embed b st)\<lparr>rc_lock := b'\<rparr> = embed b' st"
  "(embed b st)\<lparr>rc_hold := q\<rparr> = embed b (st\<lparr>hold_queue := q\<rparr>)"
  by (simp_all add: embed_def)

lemma settles_plain [simp]: "settles m (plain h)"
  by (rule settlesI) (simp_all add: plain_def)

lemma walks_to_plain: "i \<le> length hs \<Longrightarrow> walks_to m i (map plain hs) (map plain hs)"
proof (induction "length hs - i" arbitrary: i)
  case 0
  then show ?case by (simp add: walk_end)
next
  case (Suc k)
  then have "walks_to m (i + 1) (map plain hs) (map plain hs)" and i: "i < length hs" by simp_all
  moreover have "rh_calls (map plain hs ! i) m = []" using i by (simp add: plain_def)
  ultimately show ?case using walk_call [of i "map plain hs" m "map plain hs"] by simp
qed

lemma r_deliver_plain: "r_deliver (r_receive n) (embed True st) m = Some (embed True (deliver st m))"
proof -
  let ?hs = "map plain (handlers st)"
  have "calls_from ?hs m 0 = call_handlers (handlers st) m"
    by (rule nth_equalityI) (simp_all add: call_handlers_def enumerate_eq_zip plain_def)
  then have "walked (mark_delivered (embed True st) m) m 0 ?hs = embed True (deliver st m)"
    by (simp add: walked_def mark_delivered_def embed_def deliver_def)
  with walks_to_plain [of 0 "handlers st" m] show ?thesis
    by (subst r_deliver_iff) (auto intro!: exI [of _ ?hs])
qed

lemma r_drain_pass_plain:
  "r_drain_pass (r_receive n) (embed True st) q r any =
     (case drain_pass st q r any of (st', r', any') \<Rightarrow> Some (embed True st', r', any'))"
  by (induction st q r any rule: drain_pass.induct) (simp_all add: r_deliver_plain)

lemma r_try_deliver_plain:
  "r_try_deliver (r_receive n) (embed True st) = Some (embed True (try_deliver_buffered st))"
proof (induction st rule: try_deliver_buffered.induct)
  case (1 st)
  obtain st' rem any where pass: "drain_pass st (hold_queue st) [] False = (st', rem, any)"
    by (cases "drain_pass st (hold_queue st) [] False") auto
  show ?case
    using 1 [OF pass [symmetric] refl]
    by (subst r_try_deliver.simps, subst try_deliver_buffered.simps) (simp add: r_drain_pass_plain pass)
qed

text \<open>
  C14: with handlers that do not call back, the endpoint with its lock does what the model of
  \<open>Causal_Broadcast\<close> does: \<^verbatim>\<open>receive\<close> returns, whatever the handlers raise, in the same state, with
  the lock released.
\<close>

theorem receive_plain_handlers:
  "r_receive (Suc n) msg (embed False st) = Some (embed False (receive msg st))"
  by (simp add: with_lock_def r_receive_body_def receive_def r_deliver_plain r_try_deliver_plain)

section \<open>Handlers that block the endpoint\<close>

text \<open>
  C11: a message of any kind that is delivered to a handler that does not settle on it, because the
  handler takes the lock or registers handlers without end, is never finished with: \<^verbatim>\<open>receive\<close> does
  not return.
\<close>

theorem receive_never_returns:
  assumes "h \<in> set (rc_handlers st)" and "\<not> settles msg h"
    and "bm_kind msg \<in> HEALTH_KINDS \<or>
      is_deliverable (rc_clock st) msg \<and> \<not> list_ex (is_deliverable (rc_clock st)) (rc_hold st)"
  shows "r_receive n msg st = None"
proof (cases n)
  case (Suc k)
  let ?st = "st\<lparr>rc_lock := True, rc_hold := rc_hold st @ [msg]\<rparr>"
  have "r_receive_body (r_receive k) msg (st\<lparr>rc_lock := True\<rparr>) = None"
  proof (cases "bm_kind msg \<in> HEALTH_KINDS")
    case True
    with assms(1,2) show ?thesis by (simp add: r_receive_body_def r_deliver_blocks)
  next
    case False
    with assms(3) have skip: "\<forall>x \<in> set (rc_hold st). \<not> is_deliverable (rc_clock ?st) x"
      and now: "is_deliverable (rc_clock st) msg" by (auto simp: list_ex_iff)
    have "r_drain_pass (r_receive k) ?st (rc_hold ?st) [] False = None"
      using r_drain_pass_skip [OF skip, of "r_receive k" "[msg]" "[]" False] now assms(1,2)
      by (simp add: r_deliver_blocks)
    then have "r_try_deliver (r_receive k) ?st = None" by (subst r_try_deliver.simps) simp
    with False show ?thesis by (simp add: r_receive_body_def)
  qed
  with Suc show ?thesis by (simp add: with_lock_def)
qed simp


section \<open>Examples\<close>

text \<open>
  \<open>handler_of body s\<close> is the handler whose body \<open>body\<close> registers handlers by their names. A handler
  that registers itself has a name that occurs in its own body.
\<close>

primcorec handler_of :: "('s \<Rightarrow> bmsg \<Rightarrow> 's endpoint_call list \<times> py_exn option) \<Rightarrow> 's \<Rightarrow> rhandler"
where
  "rh_body (handler_of body s) =
     (\<lambda>m. map_prod (map (map_endpoint_call (handler_of body))) id (body s m))"

lemma subscribed_map [simp]: "subscribed (map (map_endpoint_call f) cs) = map f (subscribed cs)"
  by (induction cs rule: subscribed.induct) simp_all

lemma locking_map [simp]: "locking (map_endpoint_call f c) = locking c"
  by (cases c) simp_all

lemma locking_never_settles: "list_ex locking (rh_calls h m) \<Longrightarrow> \<not> settles m h"
  by (auto elim: settlesE)

definition self_subscriber :: rhandler where
  "self_subscriber = handler_of (\<lambda>_ m. ([CallSubscribe ()], None)) ()"

lemma self_subscriber_never_settles: "\<not> settles m self_subscriber"
proof
  assume "settles m self_subscriber"
  then show False
  proof (induction "self_subscriber" rule: settles.induct)
    case settlesI
    then show ?case by (simp add: self_subscriber_def)
  qed
qed

definition clock_reader :: rhandler where
  "clock_reader = handler_of (\<lambda>_ m. ([CallClockSnapshot], None)) ()"

lemma clock_reader_never_settles: "\<not> settles m clock_reader"
  by (rule locking_never_settles) (simp add: clock_reader_def)

definition late_body :: "bool \<Rightarrow> bmsg \<Rightarrow> bool endpoint_call list \<times> py_exn option" where
  "late_body first m = (if first then ([CallSubscribe False], None) else ([], Some (ValueError ''late'')))"

abbreviation late_pair :: "rhandler list" where
  "late_pair \<equiv> [handler_of late_body True, handler_of late_body False]"

lemma late_pair_walk: "walks_to m 0 [handler_of late_body True] late_pair"
proof -
  have "walks_to m 1 late_pair late_pair"
    using walk_call [of 1 late_pair m late_pair] walk_end [of late_pair "Suc (Suc 0)" m]
    by (simp add: late_body_def)
  then show ?thesis
    using walk_call [of 0 "[handler_of late_body True]" m late_pair] by (simp add: late_body_def)
qed

definition example_endpoint :: "rhandler list \<Rightarrow> rcast" where
  "example_endpoint hs = (embed False (cbcast_init ''B''))\<lparr>rc_handlers := hs\<rparr>"

lemma example_endpoint_simps [simp]:
  "\<not> rc_lock (example_endpoint hs)" "rc_handlers (example_endpoint hs) = hs"
  "rc_clock (example_endpoint hs) = [(''B'', 0)]" "rc_hold (example_endpoint hs) = []"
  by (simp_all add: example_endpoint_def embed_def cbcast_init_def)

abbreviation health_msg :: bmsg where
  "health_msg \<equiv> example_msg ''h1'' ''A'' ''health'' [(''A'', 1)]"

theorem receive_health_outcome_witness:
  "\<exists>st'. r_receive (Suc 0) health_msg (example_endpoint [handler_of late_body True]) = Some st' \<and>
     rc_handlers st' = late_pair \<and>
     drop (length (rc_calls (example_endpoint [handler_of late_body True]))) (rc_calls st')
       = handler_log health_msg late_pair"
proof -
  let ?st = "example_endpoint [handler_of late_body True]"
  have free: "\<not> rc_lock ?st" and kind: "bm_kind health_msg \<in> HEALTH_KINDS"
    by (simp_all add: HEALTH_KINDS_def)
  let ?done_st = "walked (mark_delivered ?st health_msg) health_msg 0 late_pair"
  have "r_receive (Suc 0) health_msg ?st = Some ?done_st"
    using receive_health_iff [OF free kind, of 0 ?done_st] late_pair_walk by auto
  with receive_health_outcome [OF free kind, of 0] show ?thesis by simp
qed

theorem receive_never_returns_witness:
  "r_receive 1 (example_msg ''a1'' ''A'' ''control'' [(''A'', 1)]) (example_endpoint [clock_reader]) = None \<and>
   r_receive 1 health_msg (example_endpoint [self_subscriber]) = None"
proof
  show "r_receive 1 (example_msg ''a1'' ''A'' ''control'' [(''A'', 1)]) (example_endpoint [clock_reader]) = None"
    by (rule receive_never_returns [OF _ clock_reader_never_settles])
      (simp_all add: is_deliverable_def dget_def)
  show "r_receive 1 health_msg (example_endpoint [self_subscriber]) = None"
    by (rule receive_never_returns [OF _ self_subscriber_never_settles]) (simp_all add: HEALTH_KINDS_def)
qed

end
