(* ===== verification/Coroutine.thy ===== *)
theory Coroutine
  imports Gaia_Prelude
begin

text \<open>
  Coroutines that share a world, for the parts of the program that run at the same time: the
  tasks of one event loop, and the same code on several hosts over the same backends. A
  coroutine is a value, or a step that changes the world and leaves the coroutine that is left to
  run; the steps of several coroutines come in any order.

  The lemmas: running one coroutine alone is running the operation it stands for, every schedule
  ends, and what each coroutine guarantees while it can rely on the others holds in every
  interleaving.
\<close>

section \<open>Coroutines\<close>

datatype ('w, 'a) coro = Done 'a | Step "'w \<Rightarrow> ('w, 'a) coro \<times> 'w"

type_synonym ('w, 'a) task = "('w, py_exn + 'a) coro"

primrec run_coro :: "('w, 'a) coro \<Rightarrow> 'w \<Rightarrow> 'a \<times> 'w" where
  "run_coro (Done r) = (\<lambda>w. (r, w))"
| "run_coro (Step f) = (\<lambda>w. case map_prod run_coro id (f w) of (run, w') \<Rightarrow> run w')"

primrec cothen :: "('w, 'a) coro \<Rightarrow> ('a \<Rightarrow> ('w, 'b) coro) \<Rightarrow> ('w, 'b) coro" where
  "cothen (Done r) = (\<lambda>k. k r)"
| "cothen (Step f) = (\<lambda>k. Step (\<lambda>w. case map_prod cothen id (f w) of (rest, w') \<Rightarrow> (rest k, w')))"

lemma cothen_Step: "cothen (Step f) k = Step (\<lambda>w. map_prod (\<lambda>c. cothen c k) id (f w))"
  by (simp add: map_prod_def fun_eq_iff split: prod.split)

text \<open>One call of a client: the world cannot change under it.\<close>

definition cocall :: "('w, 'a) op \<Rightarrow> ('w, 'a) task" where
  "cocall m = Step (\<lambda>w. map_prod Done id (m w))"

definition coret :: "'a \<Rightarrow> ('w, 'a) task" where
  "coret x = Done (Inr x)"

definition coraise :: "py_exn \<Rightarrow> ('w, 'a) task" where
  "coraise e = Done (Inl e)"

definition colift :: "py_exn + 'a \<Rightarrow> ('w, 'a) task" where
  "colift r = Done r"

definition cobind :: "('w, 'a) task \<Rightarrow> ('a \<Rightarrow> ('w, 'b) task) \<Rightarrow> ('w, 'b) task" where
  "cobind c k = cothen c (\<lambda>r. case r of Inl e \<Rightarrow> Done (Inl e) | Inr x \<Rightarrow> k x)"

definition cocatch :: "(py_exn \<Rightarrow> bool) \<Rightarrow> ('w, 'a) task \<Rightarrow> (py_exn \<Rightarrow> ('w, 'a) task) \<Rightarrow> ('w, 'a) task" where
  "cocatch cls c h = cothen c (\<lambda>r. case r of Inl e \<Rightarrow> if cls e then h e else Done (Inl e) | Inr x \<Rightarrow> Done (Inr x))"

abbreviation cotry :: "('w, 'a) task \<Rightarrow> (py_exn \<Rightarrow> ('w, 'a) task) \<Rightarrow> ('w, 'a) task" where
  "cotry \<equiv> cocatch is_Exception"

definition cofinally :: "('w, 'a) task \<Rightarrow> ('w, unit) task \<Rightarrow> ('w, 'a) task" where
  "cofinally c f = cothen c (\<lambda>r. cothen f (\<lambda>q. case q of Inl e \<Rightarrow> Done (Inl e) | Inr _ \<Rightarrow> Done r))"

section \<open>A coroutine that runs alone\<close>

named_theorems coro_runs

lemma run_cothen: "run_coro (cothen c k) w = (case run_coro c w of (r, w') \<Rightarrow> run_coro (k r) w')"
proof (induction c arbitrary: w)
  case (Done r)
  then show ?case by simp
next
  case (Step f)
  obtain c w' where f: "f w = (c, w')" by fastforce
  have "run_coro (cothen c k) w' = (case run_coro c w' of (r, w'') \<Rightarrow> run_coro (k r) w'')"
    by (rule Step [OF rangeI [of f w]]) (simp add: f)
  with f show ?case by simp
qed

lemma run_cocall [coro_runs]: "run_coro (cocall m) = m"
  by (simp add: cocall_def map_prod_def fun_eq_iff split: prod.split)

lemma run_coret [coro_runs]: "run_coro (coret x) = opret x"
  by (simp add: coret_def fun_eq_iff)

lemma run_coraise [coro_runs]: "run_coro (coraise e) = opraise e"
  by (simp add: coraise_def fun_eq_iff)

lemma run_colift [coro_runs]: "run_coro (colift r) = oplift r"
  by (simp add: colift_def fun_eq_iff)

lemma run_cobind [coro_runs]: "run_coro (cobind c k) = opbind (run_coro c) (\<lambda>x. run_coro (k x))"
  by (rule ext) (simp add: cobind_def run_cothen opbind_def split: prod.split sum.split)

lemma run_cocatch [coro_runs]: "run_coro (cocatch cls c h) = opcatch cls (run_coro c) (\<lambda>e. run_coro (h e))"
  by (rule ext) (simp add: cocatch_def run_cothen opcatch_def split: prod.split sum.split)

lemma run_cofinally [coro_runs]: "run_coro (cofinally c f) = opfinally (run_coro c) (run_coro f)"
  by (rule ext) (simp add: cofinally_def run_cothen opfinally_def split: prod.split sum.split)

section \<open>Interleavings\<close>

type_synonym ('w, 'a) pool = "('w, 'a) coro list \<times> 'w"

inductive pool_step :: "('w, 'a) pool \<Rightarrow> ('w, 'a) pool \<Rightarrow> bool" where
  pool_stepI: "i < length cs \<Longrightarrow> cs ! i = Step f \<Longrightarrow> f w = (c, w') \<Longrightarrow> pool_step (cs, w) (cs[i := c], w')"

inductive_cases pool_stepE: "pool_step (cs, w) s"

abbreviation pool_run :: "('w, 'a) pool \<Rightarrow> ('w, 'a) pool \<Rightarrow> bool" where
  "pool_run \<equiv> pool_step\<^sup>*\<^sup>*"

definition settled :: "('w, 'a) coro list \<Rightarrow> bool" where
  "settled cs \<longleftrightarrow> list_all (\<lambda>c. \<exists>r. c = Done r) cs"

text \<open>A pool with a coroutine that has not ended can make a step.\<close>

lemma pool_progress: "\<not> settled cs \<Longrightarrow> \<exists>s. pool_step (cs, w) s"
proof -
  assume "\<not> settled cs"
  then obtain i where i: "i < length cs" "\<nexists>r. cs ! i = Done r"
    by (auto simp: settled_def list_all_length)
  then obtain f where f: "cs ! i = Step f" by (cases "cs ! i") auto
  obtain c w' where "f w = (c, w')" by fastforce
  with i(1) f show ?thesis by (blast intro: pool_stepI)
qed

text \<open>One of the schedules lets a coroutine run to its end.\<close>

lemma pool_run_alone:
  "i < length cs \<Longrightarrow> cs ! i = c \<Longrightarrow> run_coro c w = (r, w') \<Longrightarrow> pool_run (cs, w) (cs[i := Done r], w')"
proof (induction c arbitrary: cs w)
  case (Done q)
  then have "cs[i := Done r] = cs" by (metis list_update_id run_coro.simps(1) Pair_inject)
  with Done show ?case by simp
next
  case (Step f)
  obtain c v where f: "f w = (c, v)" by fastforce
  have "pool_run (cs[i := c], v) (cs[i := c, i := Done r], w')"
    by (rule Step.IH [OF rangeI [of f w]]) (use Step.prems f in simp_all)
  moreover have "pool_step (cs, w) (cs[i := c], v)" using Step.prems f by (auto intro: pool_stepI)
  ultimately show ?case by (simp add: converse_rtranclp_into_rtranclp)
qed

text \<open>A schedule that is given: whose turn it is at each step.\<close>

fun turn :: "nat \<Rightarrow> ('w, 'a) pool \<Rightarrow> ('w, 'a) pool" where
  "turn i (cs, w) = (case cs ! i of Done r \<Rightarrow> (cs, w) | Step f \<Rightarrow> (case f w of (c, w') \<Rightarrow> (cs[i := c], w')))"

lemma turns_run: "\<forall>i \<in> set is. i < length (fst s) \<Longrightarrow> pool_run s (fold turn is s)"
proof (induction "is" arbitrary: s)
  case (Cons i js)
  obtain cs w where s: "s = (cs, w)" by fastforce
  have t: "pool_run s (turn i s) \<and> length (fst (turn i s)) = length (fst s)"
  proof (cases "cs ! i")
    case (Step f)
    then have "pool_step (cs, w) (turn i (cs, w))"
      using Cons.prems s pool_stepI [of i cs f w] by (simp split: prod.split)
    with s have "pool_run s (turn i s)" by blast
    with s Step show ?thesis by (simp split: prod.split)
  qed (simp add: s)
  with Cons have "pool_run (turn i s) (fold turn js (turn i s))" by simp
  with t have "pool_run s (fold turn js (turn i s))" by (meson rtranclp_trans)
  then show ?case by simp
qed simp

text \<open>The value of a coroutine that has ended.\<close>

fun coro_value :: "('w, 'a) coro \<Rightarrow> 'a option" where
  "coro_value (Done r) = Some r"
| "coro_value (Step f) = None"

lemma coro_value_Some [simp]: "coro_value c = Some r \<longleftrightarrow> c = Done r"
  by (cases c) auto

lemma turns_values:
  assumes "map coro_value (fst (fold turn is s)) = map Some rs" and "\<forall>i \<in> set is. i < length (fst s)"
  shows "\<exists>w'. pool_run s (map Done rs, w')"
proof -
  have "fst (fold turn is s) = map Done rs"
    using assms(1) by (auto simp: list_eq_iff_nth_eq)
  with turns_run [OF assms(2)] show ?thesis by (metis prod.collapse)
qed

text \<open>No schedule goes on for ever: a step replaces a coroutine by a part of it.\<close>

definition resumed :: "(('w, 'a) coro \<times> ('w, 'a) coro) set" where
  "resumed = {(c, d). \<exists>f w w'. d = Step f \<and> f w = (c, w')}"

lemma wf_resumed: "wf (resumed :: (('w, 'a) coro \<times> ('w, 'a) coro) set)"
proof (rule wfUNIVI)
  fix P :: "('w, 'a) coro \<Rightarrow> bool" and c :: "('w, 'a) coro"
  assume step: "\<forall>d. (\<forall>c. (c, d) \<in> resumed \<longrightarrow> P c) \<longrightarrow> P d"
  show "P c"
  proof (induction c)
    case (Done r)
    then show ?case using step by (simp add: resumed_def)
  next
    case (Step f)
    have below: "P c'" if "f w = (c', w')" for c' w w'
      by (rule Step [OF rangeI [of f w]]) (simp add: that)
    show ?case
    proof (rule step [rule_format])
      fix c'
      assume "(c', Step f) \<in> resumed"
      then obtain w w' where "f w = (c', w')" by (auto simp: resumed_def)
      then show "P c'" by (rule below)
    qed
  qed
qed

lemma pool_step_listrel1: "pool_step (cs, w) (cs', w') \<Longrightarrow> (cs', cs) \<in> listrel1 resumed"
proof (erule pool_stepE)
  fix i f c w''
  assume s: "(cs', w') = (cs[i := c], w'')" "i < length cs" "cs ! i = Step f" "f w = (c, w'')"
  have "cs = cs'[i := cs ! i]" "i < length cs'" "cs' ! i = c" using s(1,2) by simp_all
  moreover have "(c, cs ! i) \<in> resumed" using s by (auto simp: resumed_def)
  ultimately show ?thesis unfolding listrel1_iff_update by blast
qed

lemma schedules_end: "wfP (\<lambda>t s. pool_step s t)"
proof -
  have "wf (inv_image (listrel1 resumed) fst)"
    by (intro wf_inv_image) (simp add: wf_listrel1_iff wf_resumed)
  moreover have "{(t, s). pool_step s t} \<subseteq> inv_image (listrel1 resumed) fst"
    by (auto dest: pool_step_listrel1)
  ultimately show ?thesis unfolding wfp_def by (rule wf_subset)
qed

lemma no_endless_schedule:
  assumes "\<And>n. pool_step (f n) (f (Suc n))"
  shows False
proof -
  have "wf {(t, s). pool_step s t}" using schedules_end by (simp add: wfp_def)
  then have "\<not> (\<forall>n. (f (Suc n), f n) \<in> {(t, s). pool_step s t})"
    unfolding wf_iff_no_infinite_down_chain by (rule contrapos_nn) (rule exI)
  with assms show False by simp
qed

lemma pool_settles:
  fixes cs :: "('w, 'a) coro list"
  shows "\<exists>cs' w'. pool_run (cs, w) (cs', w') \<and> settled cs'"
proof -
  have "\<exists>t. pool_run s t \<and> settled (fst t)" for s :: "('w, 'a) pool"
  proof (induction s rule: wfp_induct_rule [OF schedules_end])
    case (1 s)
    show ?case
    proof (cases "settled (fst s)")
      case True
      then show ?thesis by blast
    next
      case False
      then obtain t where "pool_step s t" using pool_progress [of "fst s" "snd s"] by auto
      with 1 [of t] show ?thesis by (meson converse_rtranclp_into_rtranclp)
    qed
  qed
  from this [of "(cs, w)"] show ?thesis by auto
qed

lemma pool_step_length: "pool_step (cs, w) (cs', w') \<Longrightarrow> length cs' = length cs"
  by (erule pool_stepE) simp

lemma pool_run_length: "pool_run (cs, w) (cs', w') \<Longrightarrow> length cs' = length cs"
  by (induction rule: rtranclp_induct2) (auto dest: pool_step_length)

section \<open>What holds in every interleaving\<close>

text \<open>
  \<open>assured good guar post c\<close>: while the others keep \<open>good\<close>, every step of \<open>c\<close> is a \<open>guar\<close> step, and
  the value it ends with satisfies \<open>post\<close>.
\<close>

inductive assured :: "('w \<Rightarrow> bool) \<Rightarrow> ('w \<Rightarrow> 'w \<Rightarrow> bool) \<Rightarrow> ('a \<Rightarrow> bool) \<Rightarrow> ('w, 'a) coro \<Rightarrow> bool"
  for good guar post where
  assured_Done: "post r \<Longrightarrow> assured good guar post (Done r)"
| assured_Step: "(\<And>w c w'. good w \<Longrightarrow> f w = (c, w') \<Longrightarrow> guar w w' \<and> assured good guar post c) \<Longrightarrow>
     assured good guar post (Step f)"

inductive_simps assured_simps [simp]:
  "assured good guar post (Done r)"
  "assured good guar post (Step f)"

lemma assured_cothen:
  "assured good guar mid c \<Longrightarrow> (\<And>r. mid r \<Longrightarrow> assured good guar post (k r)) \<Longrightarrow>
     assured good guar post (cothen c k)"
proof (induction rule: assured.induct)
  case (assured_Done r)
  then show ?case by simp
next
  case (assured_Step f)
  show ?case
    using assured_Step by (auto simp: map_prod_def split: prod.splits)
qed

lemma assured_cobind:
  assumes "assured good guar (case_sum raised mid) c" and "\<And>x. mid x \<Longrightarrow> assured good guar post (k x)"
    and "\<And>e. raised e \<Longrightarrow> post (Inl e)"
  shows "assured good guar post (cobind c k)"
  unfolding cobind_def by (rule assured_cothen [OF assms(1)]) (use assms(2,3) in \<open>auto split: sum.splits\<close>)

lemma assured_cocatch:
  assumes "assured good guar (case_sum raised (\<lambda>x. post (Inr x))) c"
    and "\<And>e. raised e \<Longrightarrow> cls e \<Longrightarrow> assured good guar post (h e)"
    and "\<And>e. raised e \<Longrightarrow> \<not> cls e \<Longrightarrow> post (Inl e)"
  shows "assured good guar post (cocatch cls c h)"
  unfolding cocatch_def by (rule assured_cothen [OF assms(1)]) (use assms(2,3) in \<open>auto split: sum.splits\<close>)

lemma assured_cofinally:
  assumes "assured good guar post c" and "assured good guar (\<lambda>q. \<forall>e. q = Inl e \<longrightarrow> post (Inl e)) f"
  shows "assured good guar post (cofinally c f)"
  unfolding cofinally_def
  by (rule assured_cothen [OF assms(1)], rule assured_cothen [OF assms(2)]) (auto split: sum.splits)

lemma assured_cocall:
  "(\<And>w r w'. good w \<Longrightarrow> m w = (r, w') \<Longrightarrow> guar w w' \<and> post r) \<Longrightarrow> assured good guar post (cocall m)"
  by (auto simp: cocall_def map_prod_def split: prod.splits)

lemma assured_pure [simp]:
  "assured good guar post (coret x) = post (Inr x)"
  "assured good guar post (coraise e) = post (Inl e)"
  "assured good guar post (colift r) = post r"
  by (simp_all add: coret_def coraise_def colift_def)

lemma assured_mono:
  "assured good guar post c \<Longrightarrow> (\<And>w w'. good w \<Longrightarrow> guar w w' \<Longrightarrow> guar' w w') \<Longrightarrow>
     (\<And>r. post r \<Longrightarrow> post' r) \<Longrightarrow> assured good guar' post' c"
  by (induction rule: assured.induct) auto

text \<open>
  Tasks over a world with an invariant that every guaranteed step keeps.
\<close>

locale interference =
  fixes good :: "'w \<Rightarrow> bool" and guar :: "'w \<Rightarrow> 'w \<Rightarrow> bool"
  assumes stable: "good w \<Longrightarrow> guar w w' \<Longrightarrow> good w'"
begin

lemma pool_assured_step:
  assumes "pool_step (cs, w) (cs', w')" and "good w" and "\<And>i. i < length cs \<Longrightarrow> assured good guar (post i) (cs ! i)"
  shows "guar w w' \<and> good w' \<and> (\<forall>i < length cs. assured good guar (post i) (cs' ! i))"
  using assms(1)
proof (rule pool_stepE)
  fix j f c w''
  assume s: "(cs', w') = (cs[j := c], w'')" "j < length cs" "cs ! j = Step f" "f w = (c, w'')"
  from assms(3) [OF s(2)] s(3,4) assms(2) s(1) have "guar w w' \<and> assured good guar (post j) c" by auto
  with assms(2,3) s(1,2) stable [of w w'] show ?thesis by (auto simp: nth_list_update)
qed

lemma pool_assured:
  assumes "pool_run (cs, w) (cs', w')" and "good w" and "\<And>i. i < length cs \<Longrightarrow> assured good guar (post i) (cs ! i)"
  shows "guar\<^sup>*\<^sup>* w w' \<and> good w' \<and> length cs' = length cs \<and>
    (\<forall>i < length cs. assured good guar (post i) (cs' ! i))"
  using assms(1)
proof (induction rule: rtranclp_induct2)
  case refl
  with assms(2,3) show ?case by simp
next
  case (step ds v es u)
  from pool_assured_step [OF step.hyps(2), of post] step.IH have
    "guar v u \<and> good u \<and> (\<forall>i < length ds. assured good guar (post i) (es ! i))" by simp
  moreover have "guar\<^sup>*\<^sup>* w v" using step.IH by simp
  ultimately show ?case using step.IH pool_step_length [OF step.hyps(2)] by auto
qed

lemma pool_results:
  assumes "pool_run (cs, w) (cs', w')" and "good w" and "\<And>i. i < length cs \<Longrightarrow> assured good guar (post i) (cs ! i)"
    and "i < length cs" and "cs' ! i = Done r"
  shows "post i r"
  using pool_assured [OF assms(1-3)] assms(4,5) by auto

end

text \<open>
  A token that is taken once. \<open>claims\<close> describes a coroutine that ends with a result counted by
  \<open>mine\<close> only if one of its steps found the token \<open>free\<close> and left it taken.
\<close>

inductive claims :: "('w \<Rightarrow> bool) \<Rightarrow> ('w \<Rightarrow> 'w \<Rightarrow> bool) \<Rightarrow> ('w \<Rightarrow> bool) \<Rightarrow> ('a \<Rightarrow> bool) \<Rightarrow> ('w, 'a) coro \<Rightarrow> bool"
  for good guar free mine where
  claims_Done: "\<not> mine r \<Longrightarrow> claims good guar free mine (Done r)"
| claims_Step: "(\<And>w c w'. good w \<Longrightarrow> f w = (c, w') \<Longrightarrow> guar w w' \<and>
       (claims good guar free mine c \<or>
        free w \<and> \<not> free w' \<and> assured good guar (\<lambda>_. True) c)) \<Longrightarrow>
     claims good guar free mine (Step f)"

inductive_simps claims_simps [simp]:
  "claims good guar free mine (Done r)"
  "claims good guar free mine (Step f)"

lemma cothen_assoc: "cothen (cothen c k) h = cothen c (\<lambda>r. cothen (k r) h)"
proof (induction c)
  case (Done r)
  then show ?case by simp
next
  case (Step f)
  have "cothen (cothen c k) h = cothen c (\<lambda>r. cothen (k r) h)" if "f w = (c, w')" for c w w'
    by (rule Step [OF rangeI [of f w]]) (simp add: that)
  then have "map_prod (\<lambda>c. cothen c h) id (map_prod (\<lambda>c. cothen c k) id (f w)) =
      map_prod (\<lambda>c. cothen c (\<lambda>r. cothen (k r) h)) id (f w)" for w
    by (cases "f w") simp
  then show ?case by (simp only: cothen_Step)
qed

lemma cobind_assoc: "cobind (cobind c k) h = cobind c (\<lambda>x. cobind (k x) h)"
  unfolding cobind_def cothen_assoc
  by (rule arg_cong [where f = "cothen c"], rule ext) (simp split: sum.split)

lemma cobind_coret [simp]: "cobind (coret x) k = k x"
  by (simp add: cobind_def coret_def)

lemma assured_claims: "assured good guar (\<lambda>r. \<not> mine r) c \<Longrightarrow> claims good guar free mine c"
  by (induction rule: assured.induct) auto

lemma claims_cothen:
  "assured good guar mid c \<Longrightarrow> (\<And>r. mid r \<Longrightarrow> claims good guar free mine (k r)) \<Longrightarrow>
     claims good guar free mine (cothen c k)"
proof (induction rule: assured.induct)
  case (assured_Done r)
  then show ?case by simp
next
  case (assured_Step f)
  show ?case
    using assured_Step by (auto simp: map_prod_def split: prod.splits)
qed

lemma claims_cocall:
  assumes "\<And>w r w'. good w \<Longrightarrow> m w = (r, w') \<Longrightarrow> guar w w' \<and>
      (claims good guar free mine (k r) \<or> free w \<and> \<not> free w' \<and> assured good guar (\<lambda>_. True) (k r))"
  shows "claims good guar free mine (cothen (cocall m) k)"
  using assms by (auto simp: cocall_def map_prod_def split: prod.splits)

lemma claims_cobind:
  assumes "assured good guar (case_sum raised mid) c" and "\<And>x. mid x \<Longrightarrow> claims good guar free mine (k x)"
    and "\<And>e. raised e \<Longrightarrow> \<not> mine (Inl e)"
  shows "claims good guar free mine (cobind c k)"
  unfolding cobind_def by (rule claims_cothen [OF assms(1)]) (use assms(2,3) in \<open>auto split: sum.splits\<close>)

locale token_interference = interference +
  fixes free :: "'w \<Rightarrow> bool"
  assumes spent: "guar w w' \<Longrightarrow> free w' \<Longrightarrow> free w"
begin

text \<open>Every coroutine still claims, or one holds the token and the others claim.\<close>

definition claimed_by :: "('a \<Rightarrow> bool) \<Rightarrow> ('w, 'a) pool \<Rightarrow> nat option \<Rightarrow> bool" where
  "claimed_by mine s holder \<longleftrightarrow> good (snd s) \<and>
     (\<forall>i < length (fst s). holder \<noteq> Some i \<longrightarrow> claims good guar free mine (fst s ! i)) \<and>
     (\<forall>j. holder = Some j \<longrightarrow> \<not> free (snd s) \<and>
        (j < length (fst s) \<longrightarrow> assured good guar (\<lambda>_. True) (fst s ! j)))"

lemma claimed_by_step:
  assumes "pool_step (cs, w) (cs', w')" and "claimed_by mine (cs, w) holder"
  shows "\<exists>holder'. claimed_by mine (cs', w') holder'"
  using assms(1)
proof (rule pool_stepE)
  fix i f c w''
  assume s: "(cs', w') = (cs[i := c], w'')" "i < length cs" "cs ! i = Step f" "f w = (c, w'')"
  have good: "good w" using assms(2) by (simp add: claimed_by_def)
  show ?thesis
  proof (cases "holder = Some i")
    case True
    with assms(2) s good have "guar w w' \<and> assured good guar (\<lambda>_. True) c" "\<not> free w"
      by (auto simp: claimed_by_def)
    with assms(2) True s stable [OF good] spent [of w w'] have "claimed_by mine (cs', w') (Some i)"
      by (auto simp: claimed_by_def nth_list_update)
    then show ?thesis ..
  next
    case False
    with assms(2) s(2) have "claims good guar free mine (cs ! i)" by (simp add: claimed_by_def)
    from this [unfolded s(3)] good s(1,4) have g: "guar w w'" and
      "claims good guar free mine c \<or> free w \<and> \<not> free w' \<and> assured good guar (\<lambda>_. True) c"
      by auto
    then show ?thesis
    proof (elim disjE conjE)
      assume "claims good guar free mine c"
      with assms(2) s g stable [OF good g] spent [OF g] have "claimed_by mine (cs', w') holder"
        by (auto simp: claimed_by_def nth_list_update)
      then show ?thesis ..
    next
      assume taken: "free w" "\<not> free w'" "assured good guar (\<lambda>_. True) c"
      with assms(2) have "holder = None" by (cases holder) (auto simp: claimed_by_def)
      with assms(2) s g taken stable [OF good g] have "claimed_by mine (cs', w') (Some i)"
        by (auto simp: claimed_by_def nth_list_update)
      then show ?thesis ..
    qed
  qed
qed

lemma one_claim:
  assumes "pool_run (cs, w) (cs', w')" and "good w"
    and "\<And>c. c \<in> set cs \<Longrightarrow> claims good guar free mine c"
    and "i < length cs'" "cs' ! i = Done r" "mine r"
    and "j < length cs'" "cs' ! j = Done q" "mine q"
  shows "i = j"
proof -
  have "\<exists>holder. claimed_by mine (cs', w') holder"
    using assms(1)
  proof (induction rule: rtranclp_induct2)
    case refl
    with assms(2,3) have "claimed_by mine (cs, w) None" by (simp add: claimed_by_def)
    then show ?case ..
  next
    case (step ds v es u)
    from step.IH obtain holder where "claimed_by mine (ds, v) holder" ..
    with step.hyps(2) show ?case by (rule claimed_by_step)
  qed
  then obtain holder where h: "claimed_by mine (cs', w') holder" ..
  have "holder = Some n" if "n < length cs'" "cs' ! n = Done x" "mine x" for n x
    using h that by (rule_tac ccontr) (auto simp: claimed_by_def)
  with assms(4-9) show ?thesis by blast
qed

end

end
