(* ===== verification/Coordination.thy ===== *)
theory Coordination
  imports Gaia_Prelude
begin

text \<open>
  The coordination backend that the restore sequence relies on: \<open>get\<close>, \<open>put\<close> and
  \<open>compare_and_swap\<close> over keys, with the abstract contents \<open>kv\<close> of the store. Two keys with the
  same \<open>norm\<close> are the same entry. Any call may raise; a write that raises may or may not have
  taken effect.
\<close>

locale coordination_backend =
  fixes get :: "string \<Rightarrow> ('w, bytes option) op"
    and put :: "string \<Rightarrow> bytes \<Rightarrow> int option \<Rightarrow> ('w, unit) op"
    and cas :: "string \<Rightarrow> bytes \<Rightarrow> bytes \<Rightarrow> ('w, bool) op"
    and kv :: "'w \<Rightarrow> string \<Rightarrow> bytes option"
    and norm :: "string \<Rightarrow> string"
  assumes get_value: "get k w = (Inr x, w') \<Longrightarrow> x = kv w (norm k)"
    and get_frame: "get k w = (r, w') \<Longrightarrow> kv w' = kv w"
    and put_done: "put k v ttl w = (Inr u, w') \<Longrightarrow> kv w' = (kv w)(norm k \<mapsto> v)"
    and put_failed: "put k v ttl w = (Inl e, w') \<Longrightarrow> kv w' = kv w \<or> kv w' = (kv w)(norm k \<mapsto> v)"
    and cas_true: "cas k old new w = (Inr True, w') \<Longrightarrow>
        kv w (norm k) = Some old \<and> kv w' = (kv w)(norm k \<mapsto> new)"
    and cas_false: "cas k old new w = (Inr False, w') \<Longrightarrow> kv w (norm k) \<noteq> Some old \<and> kv w' = kv w"
    and cas_failed: "cas k old new w = (Inl e, w') \<Longrightarrow>
        kv w' = kv w \<or> kv w (norm k) = Some old \<and> kv w' = (kv w)(norm k \<mapsto> new)"
begin

text \<open>A write touches at most the entry of its key.\<close>

lemma put_other: "put k v ttl w = (r, w') \<Longrightarrow> j \<noteq> norm k \<Longrightarrow> kv w' j = kv w j"
  using put_done put_failed by (cases r) fastforce+

lemma cas_other: "cas k old new w = (r, w') \<Longrightarrow> j \<noteq> norm k \<Longrightarrow> kv w' j = kv w j"
proof (cases r)
  case (Inl e)
  then show "cas k old new w = (r, w') \<Longrightarrow> j \<noteq> norm k \<Longrightarrow> ?thesis"
    using cas_failed [of k old new w e w'] by auto
next
  case (Inr b)
  then show "cas k old new w = (r, w') \<Longrightarrow> j \<noteq> norm k \<Longrightarrow> ?thesis"
    using cas_true [of k old new w w'] cas_false [of k old new w w'] by (cases b) auto
qed

text \<open>A token can be swapped away only once: a second swap from the same token does not succeed.\<close>

lemma cas_once:
  assumes "cas k old new w = (Inr True, w')" and "new \<noteq> old" and "cas k old new' w' = (r, w'')"
  shows "r \<noteq> Inr True"
proof
  assume "r = Inr True"
  with assms(3) have "kv w' (norm k) = Some old" using cas_true by blast
  moreover have "kv w' (norm k) = Some new" using cas_true [OF assms(1)] by simp
  ultimately show False using assms(2) by simp
qed

text \<open>
  A write that is guarded by a token when there is one: either the entries are as before and the
  write raises, or the entry is written, from the token if the write was guarded.
\<close>

lemma guarded_write:
  assumes "(if guarded then opbind (cas k old new) (\<lambda>swapped. if \<not> swapped then opraise e else opret ())
     else put k new None) w = (r, w')"
  shows "kv w' = kv w \<and> (\<exists>x. r = Inl x) \<or>
     kv w' = (kv w)(norm k \<mapsto> new) \<and> (guarded \<longrightarrow> kv w (norm k) = Some old)"
proof (cases guarded)
  case False
  with assms have p: "put k new None w = (r, w')" by simp
  show ?thesis
  proof (cases r)
    case (Inl x)
    with put_failed [of k new None w x w'] p False show ?thesis by auto
  next
    case (Inr u)
    with put_done [of k new None w u w'] p False show ?thesis by auto
  qed
next
  case True
  obtain q w1 where q: "cas k old new w = (q, w1)" by fastforce
  show ?thesis
  proof (cases q)
    case (Inl x)
    with cas_failed [of k old new w x w1] q assms True show ?thesis by (auto simp: opbind_Inl)
  next
    case (Inr b)
    with cas_true [of k old new w w1] cas_false [of k old new w w1] q assms True show ?thesis
      by (cases b) (auto simp: opbind_Inr)
  qed
qed

lemma read_own_write: "put k v ttl w = (Inr u, w') \<Longrightarrow> get k w' = (Inr x, w'') \<Longrightarrow> x = Some v"
  using put_done get_value by fastforce

end

end
