(* ===== verification/Py_Text.thy ===== *)
theory Py_Text
  imports Gaia_Prelude
begin

text \<open>
  Conversions between numbers and text that the program makes: \<^verbatim>\<open>str(n)\<close> and \<^verbatim>\<open>int(s)\<close> for
  integers, \<^verbatim>\<open>s.replace(t, "")\<close>, \<^verbatim>\<open>s.split(sep, 1)\<close>, \<^verbatim>\<open>repr(s)\<close> and the message of an exception.
  Shown: \<^verbatim>\<open>int(str(n)) == n\<close>, and that removing a text leaves a string without it unchanged.
\<close>

section \<open>Integers as text\<close>

abbreviation digit_char :: "nat \<Rightarrow> char" where
  "digit_char d \<equiv> char_of (48 + d)"

abbreviation is_digit_char :: "char \<Rightarrow> bool" where
  "is_digit_char c \<equiv> 48 \<le> (of_char c :: nat) \<and> (of_char c :: nat) \<le> 57"

fun str_nat :: "nat \<Rightarrow> string" where
  "str_nat n = (if n < 10 then [digit_char n] else str_nat (n div 10) @ [digit_char (n mod 10)])"

declare str_nat.simps [simp del]

definition str_int :: "int \<Rightarrow> string" where
  "str_int n = (if n < 0 then ''-'' @ str_nat (nat (- n)) else str_nat (nat n))"

text \<open>
  \<^verbatim>\<open>int(s)\<close> in base ten on ASCII text: surrounding white space, one sign, then digits with single
  underscores between them; more than 4300 digits are refused. Every failure is a
  \<^verbatim>\<open>ValueError\<close>, here \<^const>\<open>None\<close>. Digits outside ASCII are not modelled.
\<close>

definition INT_DIGIT_LIMIT :: nat where
  "INT_DIGIT_LIMIT = 4300"

lemma INT_DIGIT_LIMIT_pos: "0 < INT_DIGIT_LIMIT"
  by (simp add: INT_DIGIT_LIMIT_def)

definition is_space_char :: "char \<Rightarrow> bool" where
  "is_space_char c \<longleftrightarrow> (of_char c :: nat) \<in> {9, 10, 11, 12, 13, 28, 29, 30, 31, 32}"

definition strip :: "string \<Rightarrow> string" where
  "strip s = rev (dropWhile is_space_char (rev (dropWhile is_space_char s)))"

fun int_digits :: "bool \<Rightarrow> nat \<Rightarrow> string \<Rightarrow> nat option" where
  "int_digits after_digit acc [] = (if after_digit then Some acc else None)"
| "int_digits after_digit acc (c # cs) =
     (if is_digit_char c then int_digits True (10 * acc + (of_char c - 48)) cs
      else if c = CHR ''_'' \<and> after_digit then int_digits False acc cs
      else None)"

definition py_int :: "string \<Rightarrow> int option" where
  "py_int s =
     (let t = strip s;
          negative = (t \<noteq> [] \<and> hd t = CHR ''-'');
          body = (if t \<noteq> [] \<and> (hd t = CHR ''-'' \<or> hd t = CHR ''+'') then tl t else t)
      in if INT_DIGIT_LIMIT < length (filter is_digit_char body) then None
         else map_option (\<lambda>n. if negative then - int n else int n) (int_digits False 0 body))"

lemma digit_char_is_digit [simp]: "d < 10 \<Longrightarrow> is_digit_char (digit_char d)"
  by (simp add: of_char_of)

lemma digit_char_value [simp]: "d < 10 \<Longrightarrow> (of_char (digit_char d) :: nat) - 48 = d"
  by (simp add: of_char_of)

lemma str_nat_digits: "\<forall>c \<in> set (str_nat n). is_digit_char c"
proof (induction n rule: str_nat.induct)
  case (1 n)
  then show ?case
    by (subst str_nat.simps) (auto simp del: of_char_of simp add: digit_char_is_digit)
qed

lemma str_nat_nonempty [simp]: "str_nat n \<noteq> []"
  by (subst str_nat.simps) simp

lemma int_digits_append:
  "\<forall>c \<in> set s. is_digit_char c \<Longrightarrow> s \<noteq> [] \<Longrightarrow>
     int_digits b acc (s @ t) = (case int_digits b acc s of None \<Rightarrow> None | Some n \<Rightarrow> int_digits True n t)"
proof (induction s arbitrary: b acc)
  case Nil
  then show ?case by simp
next
  case (Cons c s)
  then show ?case by (cases s) simp_all
qed

lemma int_digits_str_nat: "int_digits b 0 (str_nat n) = Some n"
proof (induction n rule: str_nat.induct)
  case (1 n)
  show ?case
  proof (cases "n < 10")
    case True
    then show ?thesis by (subst str_nat.simps) (simp del: of_char_of)
  next
    case False
    have "n mod 10 < 10" by simp
    with False 1 show ?thesis
      by (subst str_nat.simps)
        (simp add: int_digits_append str_nat_digits del: of_char_of)
  qed
qed

lemma length_str_nat: "n < 10 ^ k \<Longrightarrow> 0 < k \<Longrightarrow> length (str_nat n) \<le> k"
proof (induction n arbitrary: k rule: str_nat.induct)
  case (1 n)
  show ?case
  proof (cases "n < 10")
    case True
    with "1.prems" show ?thesis by (subst str_nat.simps) simp
  next
    case False
    obtain j where k: "k = Suc j" "0 < j"
    proof (cases k)
      case 0
      with "1.prems" show ?thesis by simp
    next
      case (Suc i)
      with False "1.prems" have "0 < i" by (cases i) simp_all
      with Suc show ?thesis using that by blast
    qed
    with "1.prems" have "n div 10 < 10 ^ j" by (simp add: less_mult_imp_div_less mult.commute)
    with False "1.IH" k show ?thesis by (subst str_nat.simps) simp
  qed
qed

lemma not_space_digit: "is_digit_char c \<Longrightarrow> \<not> is_space_char c"
  by (auto simp: is_space_char_def)

lemma strip_id:
  assumes "s \<noteq> []" and "\<not> is_space_char (hd s)" and "\<not> is_space_char (last s)"
  shows "strip s = s"
proof -
  have "dropWhile is_space_char s = s" using assms(1,2) by (cases s) auto
  moreover have "dropWhile is_space_char (rev s) = rev s"
    using assms(1,3) by (cases s rule: rev_cases) auto
  ultimately show ?thesis by (simp add: strip_def)
qed

lemma py_int_str_nat:
  assumes "n < 10 ^ INT_DIGIT_LIMIT"
  shows "py_int (str_nat n) = Some (int n)"
proof -
  have d: "\<forall>c \<in> set (str_nat n). is_digit_char c" by (rule str_nat_digits)
  then have h: "is_digit_char (hd (str_nat n))" "is_digit_char (last (str_nat n))" by simp_all
  then have "strip (str_nat n) = str_nat n" by (intro strip_id) (simp_all add: not_space_digit del: of_char_of)
  moreover have "hd (str_nat n) \<noteq> CHR ''-''" "hd (str_nat n) \<noteq> CHR ''+''" using h(1) by auto
  moreover have "length (filter is_digit_char (str_nat n)) \<le> INT_DIGIT_LIMIT"
    using length_str_nat [OF assms] by (meson length_filter_le order_trans INT_DIGIT_LIMIT_pos)
  ultimately show ?thesis by (simp add: py_int_def Let_def int_digits_str_nat)
qed

lemma py_int_str_int:
  assumes "\<bar>n\<bar> < 10 ^ INT_DIGIT_LIMIT"
  shows "py_int (str_int n) = Some n"
proof (cases "n < 0")
  case False
  with assms py_int_str_nat [of "nat n"] show ?thesis
    by (simp add: str_int_def nat_less_iff)
next
  case True
  let ?s = "str_nat (nat (- n))"
  have d: "\<forall>c \<in> set ?s. is_digit_char c" by (rule str_nat_digits)
  have "nat (- n) < 10 ^ INT_DIGIT_LIMIT" using True assms by (simp add: nat_less_iff)
  then have "length (filter is_digit_char ?s) \<le> INT_DIGIT_LIMIT"
    using length_str_nat by (meson length_filter_le order_trans INT_DIGIT_LIMIT_pos)
  moreover have "is_digit_char (last ?s)" using d by simp
  then have "\<not> is_space_char (last ?s)" by (rule not_space_digit)
  then have "strip (CHR ''-'' # ?s) = CHR ''-'' # ?s"
    by (intro strip_id) (simp_all add: is_space_char_def)
  ultimately show ?thesis
    using True by (simp add: str_int_def py_int_def Let_def int_digits_str_nat)
qed

section \<open>Searching and splitting\<close>

text \<open>\<^verbatim>\<open>s.replace(t, "")\<close> removes the occurrences of a non-empty \<open>t\<close> from left to right.\<close>

function remove_all :: "string \<Rightarrow> string \<Rightarrow> string" where
  "remove_all t s =
     (if s = [] then []
      else if t \<noteq> [] \<and> startswith s t then remove_all t (drop (length t) s)
      else hd s # remove_all t (tl s))"
  by pat_completeness auto
termination
  by (relation "measure (\<lambda>(t, s). length s)") auto

declare remove_all.simps [simp del]

lemma remove_all_Nil [simp]: "remove_all t [] = []"
  by (subst remove_all.simps) simp

lemma remove_all_prefix: "t \<noteq> [] \<Longrightarrow> remove_all t (t @ s) = remove_all t s"
  by (subst remove_all.simps) (simp add: startswith_def)

lemma remove_all_absent:
  assumes "t \<noteq> []" and "hd t \<notin> set s"
  shows "remove_all t s = s"
  using assms(2)
proof (induction s)
  case Nil
  then show ?case by simp
next
  case (Cons c s)
  then have "\<not> startswith (c # s) t" using assms(1) by (cases t) (auto simp: startswith_def)
  with Cons show ?case by (subst remove_all.simps) simp
qed

text \<open>\<^verbatim>\<open>s.split(c, 1)\<close>: the part before the first \<open>c\<close> and, if there is one, the part after it.\<close>

definition split_once :: "char \<Rightarrow> string \<Rightarrow> string \<times> string option" where
  "split_once c s =
     (takeWhile (\<lambda>x. x \<noteq> c) s,
      (case dropWhile (\<lambda>x. x \<noteq> c) s of [] \<Rightarrow> None | _ # r \<Rightarrow> Some r))"

lemma split_once_join: "c \<notin> set a \<Longrightarrow> split_once c (a @ c # b) = (a, Some b)"
  by (induction a) (auto simp: split_once_def)

lemma split_once_none: "c \<notin> set s \<Longrightarrow> split_once c s = (s, None)"
  by (induction s) (auto simp: split_once_def split: list.splits)

section \<open>Text of values and exceptions\<close>

definition hex_digit :: "nat \<Rightarrow> char" where
  "hex_digit d = (if d < 10 then char_of (48 + d) else char_of (87 + d))"

text \<open>
  \<^verbatim>\<open>repr(s)\<close>: single quotes, or double quotes when the text holds a single quote and no double
  one; control characters are escaped. Text outside ASCII is taken to be printable.
\<close>

definition single_quote :: char where
  "single_quote = char_of (39 :: nat)"

definition double_quote :: char where
  "double_quote = char_of (34 :: nat)"

definition backslash :: char where
  "backslash = char_of (92 :: nat)"

definition repr_char :: "char \<Rightarrow> char \<Rightarrow> string" where
  "repr_char q c =
     (let n = (of_char c :: nat) in
      if c = q \<or> c = backslash then [backslash, c]
      else if n = 10 then [backslash, CHR ''n'']
      else if n = 13 then [backslash, CHR ''r'']
      else if n = 9 then [backslash, CHR ''t'']
      else if n < 32 \<or> n = 127 then
        [backslash, CHR ''x'', hex_digit (n div 16), hex_digit (n mod 16)]
      else [c])"

definition py_repr :: "string \<Rightarrow> string" where
  "py_repr s =
     (let q = (if single_quote \<in> set s \<and> double_quote \<notin> set s then double_quote else single_quote)
      in [q] @ concat (map (repr_char q) s) @ [q])"

text \<open>The three bytes of the dash that the program's messages use.\<close>

definition em_dash :: string where
  "em_dash = [char_of (226 :: nat), char_of (128 :: nat), char_of (148 :: nat)]"

text \<open>The message of the exception under a fault is given as its text.\<close>

primrec manifest_fault_str :: "string manifest_fault \<Rightarrow> string" where
  "manifest_fault_str (ManifestNotFound i) = ''Manifest not found in etcd: '' @ i"
| "manifest_fault_str (ManifestDeserialization text) = ''Manifest deserialization failed: '' @ text"
| "manifest_fault_str (ManifestUnsigned i) =
     ''Manifest '' @ i @ '' has no manifest_hash '' @ em_dash @ '' unsigned manifests are not admissible''"
| "manifest_fault_str (ManifestHashMismatch i c s) =
     ''Manifest hash mismatch for '' @ i @ '': computed='' @ c @ '' stored='' @ s"
| "manifest_fault_str (PayloadHashMismatch i c s) =
     ''Payload hash mismatch for checkpoint '' @ i @ '': computed='' @ c @ '' stored='' @ s"
| "manifest_fault_str CriuNotPolicyGated =
     ''CRIU_MIGRATION restore path requires admissibility_policy_ref '' @ em_dash @
     '' CRIU must always be policy-gated and cannot be the sole recovery path''"

primrec replay_fault_str :: "replay_fault \<Rightarrow> string" where
  "replay_fault_str (CursorFormat s) =
     ''causal_cursor format unrecognized: '' @ py_repr s @ '' '' @ em_dash @ '' expected '' @
     [single_quote] @ ''seq:<int>'' @ [single_quote]"
| "replay_fault_str (NoEventsAfterCursor c i) =
     ''Causal replay found zero events after cursor '' @ c @ '' '' @ em_dash @
     '' cannot verify continuity for manifest '' @ i"

primrec attestation_fault_str :: "attestation_fault \<Rightarrow> string" where
  "attestation_fault_str (AttestationRefMissing i) =
     ''Cross-host restore '' @ i @ '' requires attestation_ref '' @ em_dash @ '' none present''"
| "attestation_fault_str (AttestationNotFound r) = ''Attestation ref '' @ r @ '' not found in etcd''"

text \<open>\<^verbatim>\<open>str(exc)\<close>. The message of a \<^verbatim>\<open>KeyError\<close> is the \<^verbatim>\<open>repr\<close> of its argument.\<close>

primrec exn_str :: "py_exn \<Rightarrow> string" where
  "exn_str (ValueError s) = s"
| "exn_str (TypeError s) = s"
| "exn_str (KeyError s) = py_repr s"
| "exn_str (RuntimeError s) = s"
| "exn_str (NotImplementedError s) = s"
| "exn_str (AttributeError s) = s"
| "exn_str (ImportError s) = s"
| "exn_str (TimeoutError s) = s"
| "exn_str (S3Error s) = s"
| "exn_str (NotFoundError s) = s"
| "exn_str (ExternalError s) = s"
| "exn_str (SandboxAdmissionError s e) = s @ exn_str e"
| "exn_str (ManifestError f) = manifest_fault_str (map_manifest_fault exn_str f)"
| "exn_str (CausalReplayError f) = replay_fault_str f"
| "exn_str (AttestationError f) = attestation_fault_str f"
| "exn_str (TrustPromotionError node) =
     ''Split-brain CAS failed for node '' @ node @ '' '' @ em_dash @
     '' another restore may have already claimed this node''"
| "exn_str (SystemExit n) = str_int n"
| "exn_str CancelledError = []"

end
