(* ===== verification/Memory_World.thy ===== *)
theory Memory_World
  imports Gaia_Prelude
begin

text \<open>
  A world that lives in memory, for the interpretations and the witnesses: the entries of a
  key-value store, the objects of an object store, the messages of a broker with the position of
  each subscription, and the broker's streams. Each storage theory builds its client's calls
  over it. No program code is modelled here.
\<close>

record mem_world =
  mw_kv :: "(string, bytes) dict"
  mw_objects :: "(string \<times> string, bytes) dict"
  mw_buckets :: "string list"
  mw_log :: "(string \<times> bytes) list"
  mw_subs :: "bytes list list"
  mw_streams :: "(string, string list \<times> int) dict"

definition mem_empty :: mem_world where
  "mem_empty =
     \<lparr>mw_kv = [], mw_objects = [], mw_buckets = [], mw_log = [], mw_subs = [], mw_streams = []\<rparr>"

end
