(* ===== verification/Etcd_Store.thy ===== *)
theory Etcd_Store
  imports Coordination Py_Text Memory_World
begin

text \<open>
  \<^verbatim>\<open>gaia_server/storage/etcd.py\<close>: the metadata store over an \<^verbatim>\<open>etcd3\<close> client. The client is a record
  of the calls the store makes, a parameter of every operation; \<open>etcd_client_ok\<close> states what
  the etcd documentation says of these calls. Shown: under it the store is a coordination
  backend, its keys stay inside its namespace, and two namespaces do not share an entry.
\<close>

section \<open>The client\<close>

datatype etcd_compare = ValueEquals string bytes

datatype etcd_action = TxnPut string bytes

record 'w etcd_client =
  ec_get :: "string \<Rightarrow> ('w, bytes option) op"
  ec_put :: "string \<Rightarrow> bytes \<Rightarrow> int option \<Rightarrow> ('w, unit) op"
  ec_lease :: "int \<Rightarrow> ('w, int) op"
  ec_delete :: "string \<Rightarrow> ('w, unit) op"
  ec_transaction :: "etcd_compare list \<Rightarrow> etcd_action list \<Rightarrow> etcd_action list \<Rightarrow> ('w, bool) op"
  ec_get_prefix :: "string \<Rightarrow> ('w, (bytes \<times> bytes) list) op"
  ec_status :: "('w, pyval \<times> string) op"

fun compare_holds :: "(string \<Rightarrow> bytes option) \<Rightarrow> etcd_compare \<Rightarrow> bool" where
  "compare_holds m (ValueEquals k v) \<longleftrightarrow> m k = Some v"

fun run_action :: "etcd_action \<Rightarrow> (string \<Rightarrow> bytes option) \<Rightarrow> (string \<Rightarrow> bytes option)" where
  "run_action (TxnPut k v) m = m(k \<mapsto> v)"

text \<open>
  The documented behaviour of the calls, over the contents \<open>view\<close> of the store: reads return the
  contents, a write that returns has taken effect, a transaction runs the one list or the
  other atomically, and a write that raises has taken effect or not.
\<close>

definition txn_effect :: "etcd_compare list \<Rightarrow> etcd_action list \<Rightarrow> etcd_action list
    \<Rightarrow> (string \<Rightarrow> bytes option) \<Rightarrow> (string \<Rightarrow> bytes option)" where
  "txn_effect cmp yes no m = fold run_action (if list_all (compare_holds m) cmp then yes else no) m"

definition etcd_client_ok :: "'w etcd_client \<Rightarrow> ('w \<Rightarrow> string \<Rightarrow> bytes option) \<Rightarrow> bool" where
  "etcd_client_ok c view \<longleftrightarrow>
     (\<forall>k w r w'. ec_get c k w = (r, w') \<longrightarrow> view w' = view w \<and> (\<forall>v. r = Inr v \<longrightarrow> v = view w k)) \<and>
     (\<forall>n w r w'. ec_lease c n w = (r, w') \<longrightarrow> view w' = view w) \<and>
     (\<forall>k v l w r w'. ec_put c k v l w = (r, w') \<longrightarrow>
        view w' = (view w)(k \<mapsto> v) \<or> (\<exists>e. r = Inl e) \<and> view w' = view w) \<and>
     (\<forall>k w r w'. ec_delete c k w = (r, w') \<longrightarrow>
        view w' = (view w)(k := None) \<or> (\<exists>e. r = Inl e) \<and> view w' = view w) \<and>
     (\<forall>cmp yes no w r w'. ec_transaction c cmp yes no w = (r, w') \<longrightarrow>
        (view w' = txn_effect cmp yes no (view w) \<and>
           (\<forall>b. r = Inr b \<longrightarrow> b = list_all (compare_holds (view w)) cmp)) \<or>
        (\<exists>e. r = Inl e) \<and> view w' = view w) \<and>
     (\<forall>p w r w'. ec_get_prefix c p w = (r, w') \<longrightarrow> view w' = view w \<and>
        (\<forall>ps. r = Inr ps \<longrightarrow> (\<forall>(v, k) \<in> set ps.
           view w (decode_bytes k) = Some v \<and> startswith (decode_bytes k) p))) \<and>
     (\<forall>w r w'. ec_status c w = (r, w') \<longrightarrow> view w' = view w)"

lemma etcd_client_okD:
  assumes "etcd_client_ok c view"
  shows ec_get_frame: "ec_get c k w = (r, w') \<Longrightarrow> view w' = view w"
    and ec_get_value: "ec_get c k w = (Inr x, w') \<Longrightarrow> x = view w k"
    and ec_lease_frame: "ec_lease c n w = (q, w') \<Longrightarrow> view w' = view w"
    and ec_put_effect: "ec_put c k v l w = (u, w') \<Longrightarrow>
        view w' = (view w)(k \<mapsto> v) \<or> (\<exists>e. u = Inl e) \<and> view w' = view w"
    and ec_delete_effect: "ec_delete c k w = (u, w') \<Longrightarrow>
        view w' = (view w)(k := None) \<or> (\<exists>e. u = Inl e) \<and> view w' = view w"
    and ec_txn_effect: "ec_transaction c cmp yes no w = (b, w') \<Longrightarrow>
        (view w' = txn_effect cmp yes no (view w) \<and>
           (\<forall>x. b = Inr x \<longrightarrow> x = list_all (compare_holds (view w)) cmp)) \<or>
        (\<exists>e. b = Inl e) \<and> view w' = view w"
    and ec_prefix_frame: "ec_get_prefix c p w = (ps, w') \<Longrightarrow> view w' = view w"
    and ec_prefix_value: "ec_get_prefix c p w = (Inr qs, w') \<Longrightarrow> (v, kb) \<in> set qs \<Longrightarrow>
        view w (decode_bytes kb) = Some v \<and> startswith (decode_bytes kb) p"
    and ec_status_frame: "ec_status c w = (st, w') \<Longrightarrow> view w' = view w"
  using assms unfolding etcd_client_ok_def
  by (metis, metis, metis, metis, metis, metis, metis, fastforce, metis)

section \<open>The store\<close>

record 'w etcd_store =
  es_client :: "'w etcd_client"
  es_ns :: string

definition etcd_key :: "'w etcd_store \<Rightarrow> string \<Rightarrow> string" where
  "etcd_key s key = ''/'' @ es_ns s @ ''/'' @ lstrip CHR ''/'' key"

definition etcd_get :: "'w etcd_store \<Rightarrow> string \<Rightarrow> ('w, bytes option) op" where
  "etcd_get s key = ec_get (es_client s) (etcd_key s key)"

definition etcd_put :: "'w etcd_store \<Rightarrow> string \<Rightarrow> bytes \<Rightarrow> int option \<Rightarrow> ('w, unit) op" where
  "etcd_put s key val ttl_seconds =
     (case ttl_seconds of
        Some ttl \<Rightarrow> opbind (ec_lease (es_client s) ttl)
          (\<lambda>lease. ec_put (es_client s) (etcd_key s key) val (Some lease))
      | None \<Rightarrow> ec_put (es_client s) (etcd_key s key) val None)"

definition etcd_delete :: "'w etcd_store \<Rightarrow> string \<Rightarrow> ('w, unit) op" where
  "etcd_delete s key = ec_delete (es_client s) (etcd_key s key)"

definition etcd_compare_and_swap :: "'w etcd_store \<Rightarrow> string \<Rightarrow> bytes \<Rightarrow> bytes \<Rightarrow> ('w, bool) op" where
  "etcd_compare_and_swap s key expected val =
     ec_transaction (es_client s) [ValueEquals (etcd_key s key) expected]
       [TxnPut (etcd_key s key) val] []"

definition etcd_get_prefix :: "'w etcd_store \<Rightarrow> string \<Rightarrow> ('w, (bytes \<times> string) list) op" where
  "etcd_get_prefix s pre =
     opbind (ec_get_prefix (es_client s) (etcd_key s pre))
       (\<lambda>pairs. opret (map (\<lambda>(val, meta_key). (val, decode_bytes meta_key)) pairs))"

definition etcd_health :: "'w etcd_store \<Rightarrow> ('w, pydict) op" where
  "etcd_health s =
     optry (opbind (ec_status (es_client s))
         (\<lambda>(leader_id, version). opret
            [(''backend'', PStr ''etcd''), (''status'', PStr ''ok''), (''leader'', leader_id),
             (''version'', PStr version)]))
       (\<lambda>exc. opret [(''backend'', PStr ''etcd''), (''status'', PStr ''error''),
          (''detail'', PStr (exn_str exc))])"

section \<open>The store is a coordination backend\<close>

definition etcd_kv :: "'w etcd_store \<Rightarrow> ('w \<Rightarrow> string \<Rightarrow> bytes option) \<Rightarrow> 'w \<Rightarrow> string \<Rightarrow> bytes option" where
  "etcd_kv s view w j = view w (''/'' @ es_ns s @ ''/'' @ j)"

abbreviation etcd_norm :: "string \<Rightarrow> string" where
  "etcd_norm \<equiv> lstrip CHR ''/''"

lemma etcd_key_norm: "etcd_key s key = ''/'' @ es_ns s @ ''/'' @ etcd_norm key"
  by (simp add: etcd_key_def)

lemma etcd_kv_upd:
  "view w' = (view w)(etcd_key s key := x) \<Longrightarrow> etcd_kv s view w' = (etcd_kv s view w)(etcd_norm key := x)"
  by (rule ext) (simp add: etcd_kv_def etcd_key_norm)

lemma etcd_kv_same: "view w' = view w \<Longrightarrow> etcd_kv s view w' = etcd_kv s view w"
  by (rule ext) (simp add: etcd_kv_def)

lemma etcd_kv_at: "etcd_kv s view w (etcd_norm key) = view w (etcd_key s key)"
  by (simp add: etcd_kv_def etcd_key_norm)

lemma etcd_put_cases:
  assumes ok: "etcd_client_ok c view" and c: "es_client s = c"
    and put: "etcd_put s key val ttl w = (r, w')"
  shows "view w' = (view w)(etcd_key s key \<mapsto> val) \<or> (\<exists>e. r = Inl e) \<and> view w' = view w"
proof (cases ttl)
  case None
  with put c have "ec_put c (etcd_key s key) val None w = (r, w')" by (simp add: etcd_put_def)
  then show ?thesis by (rule ec_put_effect [OF ok])
next
  case (Some t)
  obtain q w1 where lease: "ec_lease c t w = (q, w1)" by fastforce
  then have w1: "view w1 = view w" by (rule ec_lease_frame [OF ok])
  show ?thesis
  proof (cases q)
    case (Inl e)
    with put Some c lease w1 show ?thesis by (auto simp: etcd_put_def opbind_Inl)
  next
    case (Inr l)
    with put Some c lease have "ec_put c (etcd_key s key) val (Some l) w1 = (r, w')"
      by (simp add: etcd_put_def opbind_Inr)
    from ec_put_effect [OF ok this] w1 show ?thesis by simp
  qed
qed

lemma etcd_cas_cases:
  assumes ok: "etcd_client_ok c view" and c: "es_client s = c"
    and cas: "etcd_compare_and_swap s key old new w = (r, w')"
  shows "(\<exists>e. r = Inl e) \<and> view w' = view w \<or>
     view w (etcd_key s key) = Some old \<and> view w' = (view w)(etcd_key s key \<mapsto> new) \<and> r \<noteq> Inr False \<or>
     view w (etcd_key s key) \<noteq> Some old \<and> view w' = view w \<and> r \<noteq> Inr True"
proof -
  let ?k = "etcd_key s key"
  have "ec_transaction c [ValueEquals ?k old] [TxnPut ?k new] [] w = (r, w')"
    using cas c by (simp add: etcd_compare_and_swap_def)
  from ec_txn_effect [OF ok this] show ?thesis
    by (cases "view w ?k = Some old") (auto simp: txn_effect_def)
qed

lemma etcd_backend:
  assumes ok: "etcd_client_ok (es_client s) view"
  shows "coordination_backend (etcd_get s) (etcd_put s) (etcd_compare_and_swap s) (etcd_kv s view) etcd_norm"
proof
  fix k w v w'
  assume "etcd_get s k w = (Inr v, w')"
  then show "v = etcd_kv s view w (etcd_norm k)"
    unfolding etcd_get_def etcd_kv_at by (rule ec_get_value [OF ok])
next
  fix k w r w'
  assume "etcd_get s k w = (r, w')"
  then have "view w' = view w" unfolding etcd_get_def by (rule ec_get_frame [OF ok])
  then show "etcd_kv s view w' = etcd_kv s view w" by (rule etcd_kv_same)
next
  fix k v ttl w u w'
  assume "etcd_put s k v ttl w = (Inr u, w')"
  from etcd_put_cases [OF ok refl this]
  show "etcd_kv s view w' = (etcd_kv s view w)(etcd_norm k \<mapsto> v)" by (auto intro: etcd_kv_upd)
next
  fix k v ttl w e w'
  assume "etcd_put s k v ttl w = (Inl e, w')"
  from etcd_put_cases [OF ok refl this]
  show "etcd_kv s view w' = etcd_kv s view w \<or> etcd_kv s view w' = (etcd_kv s view w)(etcd_norm k \<mapsto> v)"
    by (auto intro: etcd_kv_upd etcd_kv_same)
next
  fix k old new w w'
  assume "etcd_compare_and_swap s k old new w = (Inr True, w')"
  from etcd_cas_cases [OF ok refl this]
  show "etcd_kv s view w (etcd_norm k) = Some old \<and>
      etcd_kv s view w' = (etcd_kv s view w)(etcd_norm k \<mapsto> new)"
    by (auto simp: etcd_kv_at intro: etcd_kv_upd)
next
  fix k old new w w'
  assume "etcd_compare_and_swap s k old new w = (Inr False, w')"
  from etcd_cas_cases [OF ok refl this]
  show "etcd_kv s view w (etcd_norm k) \<noteq> Some old \<and> etcd_kv s view w' = etcd_kv s view w"
    by (auto simp: etcd_kv_at intro: etcd_kv_same)
next
  fix k old new w e w'
  assume "etcd_compare_and_swap s k old new w = (Inl e, w')"
  from etcd_cas_cases [OF ok refl this]
  show "etcd_kv s view w' = etcd_kv s view w \<or>
      etcd_kv s view w (etcd_norm k) = Some old \<and>
      etcd_kv s view w' = (etcd_kv s view w)(etcd_norm k \<mapsto> new)"
    by (auto simp: etcd_kv_at intro: etcd_kv_upd etcd_kv_same)
qed

text \<open>A store over a client that behaves as documented, which is a coordination backend.\<close>

locale etcd_service =
  fixes s :: "'w etcd_store" and view :: "'w \<Rightarrow> string \<Rightarrow> bytes option"
  assumes client_ok: "etcd_client_ok (es_client s) view"

sublocale etcd_service \<subseteq> coordination_backend "etcd_get s" "etcd_put s" "etcd_compare_and_swap s"
    "etcd_kv s view" etcd_norm
  by (rule etcd_backend) (rule client_ok)

section \<open>A client in memory\<close>

definition mem_txn :: "etcd_compare list \<Rightarrow> etcd_action list \<Rightarrow> etcd_action list
    \<Rightarrow> (string, bytes) dict \<Rightarrow> (string, bytes) dict" where
  "mem_txn cmp yes no d =
     fold (\<lambda>a e. case a of TxnPut k v \<Rightarrow> dset e k v)
       (if list_all (compare_holds (map_of d)) cmp then yes else no) d"

definition mem_etcd :: "mem_world etcd_client" where
  "mem_etcd =
     \<lparr>ec_get = (\<lambda>k w. (Inr (map_of (mw_kv w) k), w)),
      ec_put = (\<lambda>k v l w. (Inr (), w\<lparr>mw_kv := dset (mw_kv w) k v\<rparr>)),
      ec_lease = (\<lambda>n w. (Inr n, w)),
      ec_delete = (\<lambda>k w. (Inr (), w\<lparr>mw_kv := ddel (mw_kv w) k\<rparr>)),
      ec_transaction = (\<lambda>cmp yes no w.
        (Inr (list_all (compare_holds (map_of (mw_kv w))) cmp),
         w\<lparr>mw_kv := mem_txn cmp yes no (mw_kv w)\<rparr>)),
      ec_get_prefix = (\<lambda>p w.
        (Inr (map (\<lambda>(k, v). (v, encode k))
           (filter (\<lambda>(k, v). startswith k p \<and> map_of (mw_kv w) k = Some v) (mw_kv w))), w)),
      ec_status = (\<lambda>w. (Inr (PInt 1, ''3.5''), w))\<rparr>"

abbreviation mem_view :: "mem_world \<Rightarrow> string \<Rightarrow> bytes option" where
  "mem_view w \<equiv> map_of (mw_kv w)"

lemma fold_mem_txn:
  "map_of (fold (\<lambda>a e. case a of TxnPut k v \<Rightarrow> dset e k v) as d) = fold run_action as (map_of d)"
proof (induction as arbitrary: d)
  case Nil
  then show ?case by simp
next
  case (Cons a as)
  then show ?case by (cases a) (simp add: fun_upd_def)
qed

lemma mem_etcd_ok: "etcd_client_ok mem_etcd mem_view"
  unfolding etcd_client_ok_def mem_etcd_def
  by (auto simp: txn_effect_def mem_txn_def fold_mem_txn)

definition mem_store :: "mem_world etcd_store" where
  "mem_store = \<lparr>es_client = mem_etcd, es_ns = ''gaia''\<rparr>"

interpretation etcd_mem: etcd_service mem_store mem_view
  by unfold_locales (simp add: mem_store_def mem_etcd_ok)

section \<open>Properties\<close>

text \<open>
  A compare-and-swap token is spent once. When a swap from an expected value succeeds and
  the value it wrote is a different one, a second swap from the same expected value does not
  succeed, whatever value it would write; between the two, only the entry of the key differs.
\<close>

theorem etcd_cas_spent_once:
  assumes "etcd_client_ok (es_client s) view"
    and "etcd_compare_and_swap s key expected new w = (Inr True, w1)" and "new \<noteq> expected"
    and "etcd_compare_and_swap s key expected new' w1 = (r, w2)"
  shows "r \<noteq> Inr True \<and> view w (etcd_key s key) = Some expected \<and>
     view w1 (etcd_key s key) = Some new \<and> (\<forall>k. k \<noteq> etcd_key s key \<longrightarrow> view w1 k = view w k)"
proof -
  note backend = etcd_backend [OF assms(1)]
  have "r \<noteq> Inr True" by (rule coordination_backend.cas_once [OF backend assms(2-4)])
  with etcd_cas_cases [OF assms(1) refl assms(2)] show ?thesis by auto
qed

theorem etcd_cas_spent_once_witness:
  "let w = mem_empty\<lparr>mw_kv := [(''/gaia/nodes/n/trust'', encode ''tok'')]\<rparr>;
       (r1, w1) = etcd_compare_and_swap mem_store ''nodes/n/trust'' (encode ''tok'') (encode ''a'') w;
       (r2, w2) = etcd_compare_and_swap mem_store ''nodes/n/trust'' (encode ''tok'') (encode ''b'') w1
   in r1 = Inr True \<and> r2 \<noteq> Inr True"
proof -
  let ?w = "mem_empty\<lparr>mw_kv := [(''/gaia/nodes/n/trust'', encode ''tok'')]\<rparr>"
  let ?cas = "etcd_compare_and_swap mem_store ''nodes/n/trust'' (encode ''tok'')"
  have ok: "etcd_client_ok (es_client mem_store) mem_view" by (simp add: mem_store_def mem_etcd_ok)
  obtain w1 where 1: "?cas (encode ''a'') ?w = (Inr True, w1)"
    by (simp add: etcd_compare_and_swap_def mem_store_def mem_etcd_def etcd_key_def lstrip_def)
  obtain r2 w2 where 2: "?cas (encode ''b'') w1 = (r2, w2)" by fastforce
  have "encode ''a'' \<noteq> encode ''tok''" by simp
  from etcd_cas_spent_once [OF ok 1 this 2] 1 2 show ?thesis by (simp add: Let_def)
qed

lemma etcd_key_other_ns:
  assumes "CHR ''/'' \<notin> set (es_ns s)" and "CHR ''/'' \<notin> set (es_ns t)" and "es_ns s \<noteq> es_ns t"
  shows "etcd_key s key \<noteq> ''/'' @ es_ns t @ ''/'' @ j"
proof
  assume "etcd_key s key = ''/'' @ es_ns t @ ''/'' @ j"
  then have "es_ns s @ CHR ''/'' # etcd_norm key = es_ns t @ CHR ''/'' # j"
    by (simp add: etcd_key_def)
  then have "split_once CHR ''/'' (es_ns s @ CHR ''/'' # etcd_norm key) =
      split_once CHR ''/'' (es_ns t @ CHR ''/'' # j)" by simp
  with assms show False by (simp add: split_once_join)
qed

text \<open>
  Namespaces are separate. With one client, a write of a store whose namespace holds no
  slash changes no entry of a store with another namespace without a slash.
\<close>

theorem etcd_namespaces_isolated:
  assumes "etcd_client_ok (es_client s) view"
    and "CHR ''/'' \<notin> set (es_ns s)" and "CHR ''/'' \<notin> set (es_ns t)" and "es_ns s \<noteq> es_ns t"
    and "(\<exists>r. etcd_put s key val ttl w = (r, w')) \<or>
         (\<exists>r. etcd_compare_and_swap s key old val w = (r, w')) \<or> (\<exists>r. etcd_delete s key w = (r, w'))"
  shows "etcd_kv t view w' = etcd_kv t view w"
proof -
  have "view w' = view w \<or> (\<exists>x. view w' = (view w)(etcd_key s key := x))"
    using assms(5) etcd_put_cases [OF assms(1) refl] etcd_cas_cases [OF assms(1) refl]
      ec_delete_effect [OF assms(1)]
    unfolding etcd_delete_def by blast
  then show ?thesis
    using etcd_key_other_ns [OF assms(2-4), of key, THEN not_sym]
    by (intro ext) (auto simp: etcd_kv_def simp del: append_Cons append_Nil)
qed

theorem etcd_namespaces_isolated_witness:
  "let t = \<lparr>es_client = mem_etcd, es_ns = ''gaia-prod''\<rparr>;
       w' = snd (etcd_put mem_store ''manifests/m'' (encode ''x'') None mem_empty)
   in etcd_kv t mem_view w' = etcd_kv t mem_view mem_empty \<and>
      etcd_kv mem_store mem_view w' ''manifests/m'' = Some (encode ''x'')"
proof -
  let ?t = "\<lparr>es_client = mem_etcd, es_ns = ''gaia-prod''\<rparr>"
  let ?put = "etcd_put mem_store ''manifests/m'' (encode ''x'') None mem_empty"
  have "etcd_kv ?t mem_view (snd ?put) = etcd_kv ?t mem_view mem_empty"
  proof (rule etcd_namespaces_isolated [where s = mem_store])
    show "(\<exists>r. ?put = (r, snd ?put)) \<or>
      (\<exists>r. etcd_compare_and_swap mem_store ''manifests/m'' [] (encode ''x'') mem_empty = (r, snd ?put)) \<or>
      (\<exists>r. etcd_delete mem_store ''manifests/m'' mem_empty = (r, snd ?put))"
      by (metis prod.collapse)
  qed (simp_all add: mem_store_def mem_etcd_ok)
  moreover have "etcd_kv mem_store mem_view (snd ?put) ''manifests/m'' = Some (encode ''x'')"
    by (simp add: etcd_put_def mem_store_def mem_etcd_def etcd_kv_def etcd_key_def lstrip_def)
  ultimately show ?thesis by (simp add: Let_def)
qed

end
