(* ===== verification/Minio_Store.thy ===== *)
theory Minio_Store
  imports Py_Text Memory_World
begin

text \<open>
  \<^verbatim>\<open>gaia_server/storage/minio.py\<close>: checkpoints as two objects of a bucket, over a \<^verbatim>\<open>minio\<close> client that
  is a parameter. \<open>CheckpointRef\<close> belongs to \<^verbatim>\<open>gaia_core\<close>: the store reads its identifier and
  turns it to bytes and back with a codec, a parameter too. Shown: what is put is what is
  got, checkpoints do not disturb each other, and which object \<open>exists\<close> asks for.
\<close>

section \<open>The client and the codec\<close>

record checkpoint_ref =
  cr_checkpoint_id :: string
  cr_fields :: pydict

record ref_codec =
  enc_ref :: "checkpoint_ref \<Rightarrow> bytes"
  dec_ref :: "bytes \<Rightarrow> py_exn + checkpoint_ref"

record 'w minio_client =
  mc_put_object :: "string \<Rightarrow> string \<Rightarrow> bytes \<Rightarrow> nat \<Rightarrow> string \<Rightarrow> ('w, unit) op"
  mc_get_object :: "string \<Rightarrow> string \<Rightarrow> ('w, bytes) op"
  mc_stat_object :: "string \<Rightarrow> string \<Rightarrow> ('w, unit) op"
  mc_bucket_exists :: "string \<Rightarrow> ('w, bool) op"
  mc_make_bucket :: "string \<Rightarrow> ('w, unit) op"

text \<open>
  The documented behaviour over the objects \<open>view\<close> of the server: \<open>minio_client_ok\<close> for a client
  whose calls may fail, \<open>minio_reliable\<close> for one whose calls fail only when the object is absent.
\<close>

definition minio_client_ok :: "'w minio_client \<Rightarrow> ('w \<Rightarrow> string \<times> string \<Rightarrow> bytes option) \<Rightarrow> bool" where
  "minio_client_ok c view \<longleftrightarrow>
     (\<forall>b k d n t w r w'. mc_put_object c b k d n t w = (r, w') \<longrightarrow>
        view w' = (view w)((b, k) \<mapsto> take n d) \<or> (\<exists>e. r = Inl e) \<and> view w' = view w) \<and>
     (\<forall>b k w r w'. mc_get_object c b k w = (r, w') \<longrightarrow>
        view w' = view w \<and> (\<forall>d. r = Inr d \<longrightarrow> view w (b, k) = Some d)) \<and>
     (\<forall>b k w r w'. mc_stat_object c b k w = (r, w') \<longrightarrow>
        view w' = view w \<and> (r = Inr () \<longrightarrow> view w (b, k) \<noteq> None))"

definition minio_reliable :: "'w minio_client \<Rightarrow> ('w \<Rightarrow> string \<times> string \<Rightarrow> bytes option) \<Rightarrow> bool" where
  "minio_reliable c view \<longleftrightarrow> minio_client_ok c view \<and>
     (\<forall>b k d n t w. \<exists>w'. mc_put_object c b k d n t w = (Inr (), w')) \<and>
     (\<forall>b k w. view w (b, k) \<noteq> None \<longrightarrow> (\<exists>d w'. mc_get_object c b k w = (Inr d, w'))) \<and>
     (\<forall>b k w. \<exists>w'. mc_stat_object c b k w =
        (if view w (b, k) = None then Inl (S3Error ''NoSuchKey'') else Inr (), w'))"

lemma minio_client_okD:
  assumes "minio_client_ok c view"
  shows mc_put_effect: "mc_put_object c b k d n t w = (u, w') \<Longrightarrow>
        view w' = (view w)((b, k) \<mapsto> take n d) \<or> (\<exists>e. u = Inl e) \<and> view w' = view w"
    and mc_get_frame: "mc_get_object c b k w = (r, w') \<Longrightarrow> view w' = view w"
    and mc_get_value: "mc_get_object c b k w = (Inr d, w') \<Longrightarrow> view w (b, k) = Some d"
    and mc_stat_frame: "mc_stat_object c b k w = (u, w') \<Longrightarrow> view w' = view w"
    and mc_stat_present: "mc_stat_object c b k w = (Inr (), w') \<Longrightarrow> view w (b, k) \<noteq> None"
  using assms unfolding minio_client_ok_def by metis+

section \<open>The store\<close>

record 'w minio_store =
  ms_client :: "'w minio_client"
  ms_bucket :: string
  ms_codec :: ref_codec

definition MANIFEST_SUFFIX :: string where
  "MANIFEST_SUFFIX = ''manifest.json''"

definition PAYLOAD_SUFFIX :: string where
  "PAYLOAD_SUFFIX = ''payload.bin''"

definition manifest_key :: "string \<Rightarrow> string" where
  "manifest_key checkpoint_id = ''checkpoints/'' @ checkpoint_id @ ''/'' @ MANIFEST_SUFFIX"

definition payload_key :: "string \<Rightarrow> string" where
  "payload_key checkpoint_id = ''checkpoints/'' @ checkpoint_id @ ''/'' @ PAYLOAD_SUFFIX"

definition minio_write_event :: "'w minio_store \<Rightarrow> ('w, string) op" where
  "minio_write_event s = opraise (NotImplementedError ''Use JetStreamEventStore for event operations'')"

definition minio_read_events :: "'w minio_store \<Rightarrow> ('w, 'e list) op" where
  "minio_read_events s = opraise (NotImplementedError ''Use JetStreamEventStore for event operations'')"

definition put_checkpoint :: "'w minio_store \<Rightarrow> checkpoint_ref \<Rightarrow> bytes \<Rightarrow> ('w, checkpoint_ref) op" where
  "put_checkpoint s ref payload =
     (let manifest_bytes = enc_ref (ms_codec s) ref in
      opbind (mc_put_object (ms_client s) (ms_bucket s) (manifest_key (cr_checkpoint_id ref))
          manifest_bytes (length manifest_bytes) ''application/json'')
        (\<lambda>_. opbind (mc_put_object (ms_client s) (ms_bucket s) (payload_key (cr_checkpoint_id ref))
            payload (length payload) ''application/octet-stream'')
          (\<lambda>_. opret ref)))"

definition get_checkpoint :: "'w minio_store \<Rightarrow> string \<Rightarrow> ('w, checkpoint_ref \<times> bytes) op" where
  "get_checkpoint s checkpoint_id =
     opbind (mc_get_object (ms_client s) (ms_bucket s) (manifest_key checkpoint_id))
       (\<lambda>manifest_data. opbind (oplift (dec_ref (ms_codec s) manifest_data))
         (\<lambda>ref. opbind (mc_get_object (ms_client s) (ms_bucket s) (payload_key checkpoint_id))
           (\<lambda>payload. opret (ref, payload))))"

definition is_S3Error :: "py_exn \<Rightarrow> bool" where
  "is_S3Error e = (case e of S3Error _ \<Rightarrow> True | _ \<Rightarrow> False)"

definition minio_exists :: "'w minio_store \<Rightarrow> string \<Rightarrow> ('w, bool) op" where
  "minio_exists s uri =
     (let (bucket, key) = (case split_once CHR ''/'' (lstrip CHR ''/'' uri) of
            (a, Some b) \<Rightarrow> (a, b) | (a, None) \<Rightarrow> (ms_bucket s, a))
      in opcatch is_S3Error (opbind (mc_stat_object (ms_client s) bucket key) (\<lambda>_. opret True))
           (\<lambda>_. opret False))"

definition minio_health :: "'w minio_store \<Rightarrow> ('w, pydict) op" where
  "minio_health s =
     optry (opbind (mc_bucket_exists (ms_client s) (ms_bucket s))
         (\<lambda>_. opret [(''backend'', PStr ''minio''), (''status'', PStr ''ok''),
            (''bucket'', PStr (ms_bucket s))]))
       (\<lambda>exc. opret [(''backend'', PStr ''minio''), (''status'', PStr ''error''),
          (''detail'', PStr (exn_str exc))])"

section \<open>Object names\<close>

lemma manifest_key_inject [simp]: "manifest_key i = manifest_key j \<longleftrightarrow> i = j"
  by (simp add: manifest_key_def)

lemma payload_key_inject [simp]: "payload_key i = payload_key j \<longleftrightarrow> i = j"
  by (simp add: payload_key_def)

lemma manifest_payload_distinct [simp]: "manifest_key i \<noteq> payload_key j" "payload_key j \<noteq> manifest_key i"
proof -
  have "take 2 (rev (manifest_key i)) \<noteq> take 2 (rev (payload_key j))"
    by (simp add: manifest_key_def payload_key_def MANIFEST_SUFFIX_def PAYLOAD_SUFFIX_def)
  then show "manifest_key i \<noteq> payload_key j" "payload_key j \<noteq> manifest_key i" by metis+
qed

text \<open>The two objects a checkpoint consists of.\<close>

definition checkpoint_objects ::
    "'w minio_store \<Rightarrow> ('w \<Rightarrow> string \<times> string \<Rightarrow> bytes option) \<Rightarrow> 'w \<Rightarrow> string \<Rightarrow> bytes option \<times> bytes option" where
  "checkpoint_objects s view w i =
     (view w (ms_bucket s, manifest_key i), view w (ms_bucket s, payload_key i))"

lemma get_checkpoint_value:
  assumes ok: "minio_client_ok (ms_client s) view" and "get_checkpoint s i w = (Inr (ref, payload), w')"
  shows "\<exists>d. checkpoint_objects s view w i = (Some d, Some payload) \<and> dec_ref (ms_codec s) d = Inr ref"
    and "view w' = view w"
proof -
  from assms(2) obtain d w1 w2 where
    1: "mc_get_object (ms_client s) (ms_bucket s) (manifest_key i) w = (Inr d, w1)"
    and 2: "dec_ref (ms_codec s) d = Inr ref"
    and 3: "mc_get_object (ms_client s) (ms_bucket s) (payload_key i) w1 = (Inr payload, w2)" "w' = w2"
    unfolding get_checkpoint_def by (elim opbind_InrE) (auto elim!: opbind_InrE)
  note f = mc_get_frame [OF ok 1] mc_get_frame [OF ok 3(1)]
  show "view w' = view w" using f 3(2) by simp
  show "\<exists>d. checkpoint_objects s view w i = (Some d, Some payload) \<and> dec_ref (ms_codec s) d = Inr ref"
    using mc_get_value [OF ok 1] mc_get_value [OF ok 3(1)] f(1) 2 by (simp add: checkpoint_objects_def)
qed

section \<open>A client in memory\<close>

abbreviation mem_objects :: "mem_world \<Rightarrow> string \<times> string \<Rightarrow> bytes option" where
  "mem_objects w \<equiv> map_of (mw_objects w)"

definition mem_minio :: "mem_world minio_client" where
  "mem_minio =
     \<lparr>mc_put_object = (\<lambda>b k d n t w. (Inr (), w\<lparr>mw_objects := dset (mw_objects w) (b, k) (take n d)\<rparr>)),
      mc_get_object = (\<lambda>b k w. (case mem_objects w (b, k) of
         None \<Rightarrow> Inl (S3Error ''NoSuchKey'') | Some d \<Rightarrow> Inr d, w)),
      mc_stat_object = (\<lambda>b k w.
         (if mem_objects w (b, k) = None then Inl (S3Error ''NoSuchKey'') else Inr (), w)),
      mc_bucket_exists = (\<lambda>b w. (Inr (b \<in> set (mw_buckets w)), w)),
      mc_make_bucket = (\<lambda>b w. (Inr (), w\<lparr>mw_buckets := mw_buckets w @ [b]\<rparr>))\<rparr>"

lemma mem_minio_reliable: "minio_reliable mem_minio mem_objects"
  unfolding minio_reliable_def minio_client_ok_def mem_minio_def
  by (auto split: option.splits if_splits)

section \<open>Storing a checkpoint\<close>

lemma put_checkpoint_effect:
  assumes ok: "minio_client_ok (ms_client s) view" and "put_checkpoint s ref payload w = (Inr r, w')"
  shows "view w' = (view w)((ms_bucket s, manifest_key (cr_checkpoint_id ref)) \<mapsto> enc_ref (ms_codec s) ref,
      (ms_bucket s, payload_key (cr_checkpoint_id ref)) \<mapsto> payload)"
proof -
  let ?c = "ms_client s" and ?b = "ms_bucket s" and ?i = "cr_checkpoint_id ref"
  let ?m = "enc_ref (ms_codec s) ref"
  from assms(2) obtain w1 where
    1: "mc_put_object ?c ?b (manifest_key ?i) ?m (length ?m) ''application/json'' w = (Inr (), w1)"
    and 2: "mc_put_object ?c ?b (payload_key ?i) payload (length payload) ''application/octet-stream'' w1 = (Inr (), w')"
    unfolding put_checkpoint_def Let_def by (elim opbind_InrE) simp
  from mc_put_effect [OF ok 1] mc_put_effect [OF ok 2] show ?thesis by simp
qed

lemma put_checkpoint_runs:
  assumes "minio_reliable (ms_client s) view"
  shows "\<exists>w'. put_checkpoint s ref payload w = (Inr ref, w')"
proof -
  have "\<exists>w'. mc_put_object (ms_client s) b k d n t v = (Inr (), w')" for b k d n t v
    using assms unfolding minio_reliable_def by blast
  then obtain w1 w2 where
    "mc_put_object (ms_client s) (ms_bucket s) (manifest_key (cr_checkpoint_id ref)) (enc_ref (ms_codec s) ref)
       (length (enc_ref (ms_codec s) ref)) ''application/json'' w = (Inr (), w1)"
    "mc_put_object (ms_client s) (ms_bucket s) (payload_key (cr_checkpoint_id ref)) payload (length payload)
       ''application/octet-stream'' w1 = (Inr (), w2)" by meson
  then show ?thesis by (simp add: put_checkpoint_def Let_def opbind_Inr)
qed

section \<open>Properties\<close>

text \<open>
  C20: a checkpoint that was put is the checkpoint that is got. With a client that fails only on
  absent objects and a codec that decodes what it encodes, \<open>put_checkpoint\<close> returns the
  reference and a later \<open>get_checkpoint\<close> of its identifier returns the reference and the payload;
  the objects of every other checkpoint are as before.
\<close>

theorem checkpoint_roundtrip:
  assumes "minio_reliable (ms_client s) view" and "dec_ref (ms_codec s) (enc_ref (ms_codec s) ref) = Inr ref"
  shows "\<exists>w1 w2. put_checkpoint s ref payload w = (Inr ref, w1) \<and>
    get_checkpoint s (cr_checkpoint_id ref) w1 = (Inr (ref, payload), w2) \<and>
    (\<forall>j. j \<noteq> cr_checkpoint_id ref \<longrightarrow> checkpoint_objects s view w1 j = checkpoint_objects s view w j)"
proof -
  let ?c = "ms_client s" and ?b = "ms_bucket s" and ?i = "cr_checkpoint_id ref"
  let ?m = "enc_ref (ms_codec s) ref"
  have ok: "minio_client_ok ?c view" using assms(1) by (simp add: minio_reliable_def)
  obtain w2 where put: "put_checkpoint s ref payload w = (Inr ref, w2)"
    using put_checkpoint_runs [OF assms(1)] by blast
  have v: "view w2 = (view w)((?b, manifest_key ?i) \<mapsto> ?m, (?b, payload_key ?i) \<mapsto> payload)"
    by (rule put_checkpoint_effect [OF ok put])
  obtain d3 w3 where g1: "mc_get_object ?c ?b (manifest_key ?i) w2 = (Inr d3, w3)"
    using assms(1) v unfolding minio_reliable_def by (metis fun_upd_apply option.distinct(1))
  have d3: "d3 = ?m" "view w3 = view w2"
    using mc_get_value [OF ok g1] mc_get_frame [OF ok g1] v by simp_all
  obtain d4 w4 where g2: "mc_get_object ?c ?b (payload_key ?i) w3 = (Inr d4, w4)"
    using assms(1) v d3(2) unfolding minio_reliable_def by (metis fun_upd_apply option.distinct(1))
  have d4: "d4 = payload" using mc_get_value [OF ok g2] v d3(2) by simp
  have "get_checkpoint s ?i w2 = (Inr (ref, payload), w4)"
    using assms(2) d3(1) d4 g1 g2 by (simp add: get_checkpoint_def opbind_def)
  with put v show ?thesis by (intro exI [of _ w2] exI [of _ w4]) (simp add: checkpoint_objects_def)
qed

definition example_codec :: ref_codec where
  "example_codec =
     \<lparr>enc_ref = (\<lambda>r. encode (cr_checkpoint_id r)),
      dec_ref = (\<lambda>b. Inr \<lparr>cr_checkpoint_id = decode_bytes b, cr_fields = []\<rparr>)\<rparr>"

definition mem_minio_store :: "mem_world minio_store" where
  "mem_minio_store = \<lparr>ms_client = mem_minio, ms_bucket = ''gaia-checkpoints'', ms_codec = example_codec\<rparr>"

theorem checkpoint_roundtrip_witness:
  "\<exists>w1 w2. put_checkpoint mem_minio_store \<lparr>cr_checkpoint_id = ''ckpt-001'', cr_fields = []\<rparr> [1, 2, 3] mem_empty =
       (Inr \<lparr>cr_checkpoint_id = ''ckpt-001'', cr_fields = []\<rparr>, w1) \<and>
     get_checkpoint mem_minio_store ''ckpt-001'' w1 =
       (Inr (\<lparr>cr_checkpoint_id = ''ckpt-001'', cr_fields = []\<rparr>, [1, 2, 3]), w2)"
proof -
  have "minio_reliable (ms_client mem_minio_store) mem_objects"
    by (simp add: mem_minio_store_def mem_minio_reliable)
  from checkpoint_roundtrip [OF this, of "\<lparr>cr_checkpoint_id = ''ckpt-001'', cr_fields = []\<rparr>" "[1, 2, 3]" mem_empty]
  show ?thesis by (auto simp: mem_minio_store_def example_codec_def)
qed

end
