(* ===== verification/JetStream_Store.thy ===== *)
theory JetStream_Store
  imports Py_Text Memory_World
begin

text \<open>
  \<^verbatim>\<open>gaia_server/storage/jetstream.py\<close> and \<^verbatim>\<open>gaia_server/storage/bootstrap.py\<close>: events as messages of a
  \<^verbatim>\<open>NATS JetStream\<close> client that is a parameter. \<open>EventEnvelope\<close> belongs to \<^verbatim>\<open>gaia_core\<close>: the
  store reads its stream and topic, and turns it to bytes and back with a codec. Shown: a read
  gives a gap-free part of the stored events after the given sequence, at most \<open>limit\<close> of them, in
  order; what is written is read back; the streams are created once and existing ones are kept;
  and that the canonical streams capture none of the subjects the store publishes to.
\<close>

section \<open>The client and the codec\<close>

record event_envelope =
  ev_stream :: string
  ev_topic :: string
  ev_fields :: pydict

record event_codec =
  enc_event :: "event_envelope \<Rightarrow> bytes"
  dec_event :: "bytes \<Rightarrow> py_exn + event_envelope"

datatype deliver_policy = DeliverAll | DeliverByStartSequence

datatype ack_policy = AckNone

record consumer_config =
  cc_filter_subject :: string
  cc_deliver_policy :: deliver_policy
  cc_opt_start_seq :: "int option"
  cc_max_deliver :: int
  cc_ack_policy :: ack_policy

record 'w subscription =
  sub_next_msg :: "rat \<Rightarrow> ('w, bytes) op"
  sub_unsubscribe :: "('w, unit) op"

datatype retention_policy = RetentionLimits

datatype storage_type = StorageFile

datatype discard_policy = DiscardOld

record stream_config =
  sc_name :: string
  sc_subjects :: "string list"
  sc_retention :: retention_policy
  sc_max_age :: int
  sc_storage :: storage_type
  sc_num_replicas :: int
  sc_discard :: discard_policy

record 'w js_client =
  js_publish :: "string \<Rightarrow> bytes \<Rightarrow> ('w, int) op"
  js_subscribe :: "string \<Rightarrow> consumer_config \<Rightarrow> bool \<Rightarrow> ('w, 'w subscription) op"
  js_stream_info :: "string \<Rightarrow> ('w, int) op"
  js_find_stream :: "string \<Rightarrow> ('w, string) op"
  js_add_stream :: "stream_config \<Rightarrow> ('w, unit) op"
  nc_flush :: "rat \<Rightarrow> ('w, unit) op"
  nc_is_connected :: "'w \<Rightarrow> bool"
  nc_drain :: "('w, unit) op"

text \<open>
  The documented behaviour of a consumer. \<open>msgs w f\<close> is what the broker has stored under the
  subject filter \<open>f\<close>: sequence numbers, increasing, with the data. A new subscription gets the
  messages from its start on, one per \<open>next_msg\<close>; a call may fail or time out. A reliable
  consumer times out only when nothing is left.
\<close>

definition messages_from :: "consumer_config \<Rightarrow> (int \<times> bytes) list \<Rightarrow> bytes list" where
  "messages_from cfg ms =
     (case cc_opt_start_seq cfg of None \<Rightarrow> map snd ms | Some n \<Rightarrow> map snd (filter (\<lambda>m. n \<le> fst m) ms))"

definition consumer_ok :: "'w subscription \<Rightarrow> ('w \<Rightarrow> bytes list) \<Rightarrow> bool" where
  "consumer_ok sub pending \<longleftrightarrow>
     (\<forall>t w d w'. sub_next_msg sub t w = (Inr d, w') \<longrightarrow> pending w = d # pending w')"

definition consumer_reliable :: "'w subscription \<Rightarrow> ('w \<Rightarrow> bytes list) \<Rightarrow> bool" where
  "consumer_reliable sub pending \<longleftrightarrow>
     (\<forall>t w. \<exists>w'. case pending w of
        [] \<Rightarrow> sub_next_msg sub t w = (Inl (TimeoutError ''nats: timeout''), w')
      | d # ds \<Rightarrow> sub_next_msg sub t w = (Inr d, w') \<and> pending w' = ds) \<and>
     (\<forall>w. \<exists>w'. sub_unsubscribe sub w = (Inr (), w'))"

definition js_client_ok :: "'w js_client \<Rightarrow> ('w \<Rightarrow> string \<Rightarrow> (int \<times> bytes) list) \<Rightarrow> bool" where
  "js_client_ok c msgs \<longleftrightarrow>
     (\<forall>f cfg b w sub w'. js_subscribe c f cfg b w = (Inr sub, w') \<longrightarrow>
        (\<exists>pending. pending w' = messages_from cfg (msgs w f) \<and> consumer_ok sub pending))"

definition js_reliable :: "'w js_client \<Rightarrow> ('w \<Rightarrow> string \<Rightarrow> (int \<times> bytes) list) \<Rightarrow> bool" where
  "js_reliable c msgs \<longleftrightarrow>
     (\<forall>f cfg b w. \<exists>sub w' pending. js_subscribe c f cfg b w = (Inr sub, w') \<and>
        pending w' = messages_from cfg (msgs w f) \<and> consumer_reliable sub pending)"

section \<open>The store\<close>

record 'w event_store =
  jes_client :: "'w js_client"
  jes_codec :: event_codec

definition write_event :: "'w event_store \<Rightarrow> event_envelope \<Rightarrow> ('w, string) op" where
  "write_event s envelope =
     opbind (js_publish (jes_client s) (ev_stream envelope @ ''.'' @ ev_topic envelope)
         (enc_event (jes_codec s) envelope))
       (\<lambda>seq. opret (str_int seq))"

definition is_TimeoutError :: "py_exn \<Rightarrow> bool" where
  "is_TimeoutError e = (case e of TimeoutError _ \<Rightarrow> True | _ \<Rightarrow> False)"

definition read_one :: "'w event_store \<Rightarrow> 'w subscription \<Rightarrow> ('w, event_envelope option) op" where
  "read_one s sub =
     opcatch is_TimeoutError
       (opbind (sub_next_msg sub (1 / 2)) (\<lambda>msg.
          opbind (oplift (dec_event (jes_codec s) msg)) (\<lambda>event. opret (Some event))))
       (\<lambda>_. opret None)"

fun read_loop :: "'w event_store \<Rightarrow> 'w subscription \<Rightarrow> nat \<Rightarrow> event_envelope list
    \<Rightarrow> ('w, event_envelope list) op" where
  "read_loop s sub 0 results = opret results"
| "read_loop s sub (Suc n) results =
     opbind (read_one s sub) (\<lambda>r. case r of
       None \<Rightarrow> opret results
     | Some event \<Rightarrow> read_loop s sub n (results @ [event]))"

definition read_config :: "string \<Rightarrow> int option \<Rightarrow> consumer_config" where
  "read_config stream after_sequence =
     \<lparr>cc_filter_subject = stream @ ''.>'',
      cc_deliver_policy = (if after_sequence = None then DeliverAll else DeliverByStartSequence),
      cc_opt_start_seq = map_option (\<lambda>n. n + 1) after_sequence,
      cc_max_deliver = 1,
      cc_ack_policy = AckNone\<rparr>"

definition read_events :: "'w event_store \<Rightarrow> string \<Rightarrow> int option \<Rightarrow> int
    \<Rightarrow> ('w, event_envelope list) op" where
  "read_events s stream after_sequence limit =
     opbind (js_subscribe (jes_client s) (stream @ ''.>'') (read_config stream after_sequence) True)
       (\<lambda>sub. opfinally (read_loop s sub (nat limit) []) (sub_unsubscribe sub))"

definition js_put_checkpoint :: "'w event_store \<Rightarrow> ('w, 'r) op" where
  "js_put_checkpoint s =
     opraise (NotImplementedError ''Use MinIOCheckpointStore for checkpoint operations'')"

definition js_get_checkpoint :: "'w event_store \<Rightarrow> ('w, 'r) op" where
  "js_get_checkpoint s =
     opraise (NotImplementedError ''Use MinIOCheckpointStore for checkpoint operations'')"

definition js_exists :: "'w event_store \<Rightarrow> string \<Rightarrow> ('w, bool) op" where
  "js_exists s uri =
     optry (opbind (js_stream_info (jes_client s) (fst (split_once CHR ''.'' uri)))
         (\<lambda>messages. opret (0 < messages)))
       (\<lambda>_. opret False)"

definition js_health :: "'w event_store \<Rightarrow> ('w, pydict) op" where
  "js_health s =
     optry (opbind (nc_flush (jes_client s) 2) (\<lambda>_. \<lambda>w.
         (Inr [(''backend'', PStr ''jetstream''), (''status'', PStr ''ok''),
            (''connected'', PBool (nc_is_connected (jes_client s) w))], w)))
       (\<lambda>exc. opret [(''backend'', PStr ''jetstream''), (''status'', PStr ''error''),
          (''detail'', PStr (exn_str exc))])"

section \<open>The canonical streams\<close>

definition STREAMS :: "(string, string list) dict" where
  "STREAMS =
     [(''gaia-events'', [''gaia.events.>'']),
      (''gaia-checkpoints'', [''gaia.checkpoints.>'']),
      (''gaia-federation'', [''gaia.federation.>'']),
      (''gaia-governance'', [''gaia.governance.>'']),
      (''gaia-validation'', [''gaia.validation.>''])]"

definition MAX_AGE_SECONDS :: int where
  "MAX_AGE_SECONDS = 7 * 24 * 60 * 60"

definition is_NotFoundError :: "py_exn \<Rightarrow> bool" where
  "is_NotFoundError e = (case e of NotFoundError _ \<Rightarrow> True | _ \<Rightarrow> False)"

definition canonical_config :: "string \<Rightarrow> string list \<Rightarrow> stream_config" where
  "canonical_config name subjects =
     \<lparr>sc_name = name, sc_subjects = subjects, sc_retention = RetentionLimits,
      sc_max_age = MAX_AGE_SECONDS, sc_storage = StorageFile, sc_num_replicas = 1,
      sc_discard = DiscardOld\<rparr>"

definition ensure_stream :: "'w js_client \<Rightarrow> string \<Rightarrow> string list \<Rightarrow> ('w, unit) op" where
  "ensure_stream js name subjects =
     opcatch is_NotFoundError
       (opbind (js_find_stream js name) (\<lambda>_. opret ()))
       (\<lambda>_. opbind (js_add_stream js (canonical_config name subjects)) (\<lambda>_. opret ()))"

fun ensure_all :: "'w js_client \<Rightarrow> (string, string list) dict \<Rightarrow> ('w, unit) op" where
  "ensure_all js [] = opret ()"
| "ensure_all js ((name, subjects) # rest) =
     opbind (ensure_stream js name subjects) (\<lambda>_. ensure_all js rest)"

definition ensure_streams :: "'w js_client \<Rightarrow> ('w, unit) op" where
  "ensure_streams js = ensure_all js STREAMS"

section \<open>Reading\<close>

text \<open>What the broker holds of a stream after a sequence number.\<close>

definition stored_after :: "('w \<Rightarrow> string \<Rightarrow> (int \<times> bytes) list) \<Rightarrow> 'w \<Rightarrow> string \<Rightarrow> int option \<Rightarrow> bytes list" where
  "stored_after msgs w stream after =
     map snd (filter (\<lambda>m. case after of None \<Rightarrow> True | Some n \<Rightarrow> n < fst m) (msgs w (stream @ ''.>'')))"

lemma messages_from_read_config:
  "messages_from (read_config stream after) (msgs w (stream @ ''.>'')) = stored_after msgs w stream after"
  by (cases after) (auto simp: messages_from_def read_config_def stored_after_def
      intro!: arg_cong [where f = "map snd"] filter_cong)

lemma read_one_cases:
  assumes "consumer_ok sub pending" and "read_one s sub w = (Inr (Some e), w')"
  obtains d where "pending w = d # pending w'" and "dec_event (jes_codec s) d = Inr e"
proof -
  obtain r w1 where r: "sub_next_msg sub (1 / 2) w = (r, w1)" by fastforce
  show thesis
  proof (cases r)
    case (Inl x)
    with assms(2) r show thesis by (auto simp: read_one_def opcatch_def opbind_def split: if_splits)
  next
    case (Inr d)
    then have "dec_event (jes_codec s) d = Inr e \<and> w' = w1"
      using assms(2) r by (auto simp: read_one_def opcatch_def opbind_def split: sum.splits if_splits)
    moreover have "pending w = d # pending w1" using assms(1) r Inr by (simp add: consumer_ok_def)
    ultimately show thesis using that by blast
  qed
qed

lemma read_loop_prefix:
  assumes "consumer_ok sub pending" and "read_loop s sub n acc w = (Inr evs, w')"
  shows "\<exists>ds es rest. evs = acc @ es \<and> pending w = ds @ rest \<and>
     list_all2 (\<lambda>d e. dec_event (jes_codec s) d = Inr e) ds es \<and> length es \<le> n"
  using assms(2)
proof (induction n arbitrary: acc w)
  case 0
  then show ?case by auto
next
  case (Suc n)
  from Suc.prems obtain r w1 where one: "read_one s sub w = (Inr r, w1)"
    and rest: "(case r of None \<Rightarrow> opret acc | Some e \<Rightarrow> read_loop s sub n (acc @ [e])) w1 = (Inr evs, w')"
    unfolding read_loop.simps by (rule opbind_InrE)
  show ?case
  proof (cases r)
    case None
    with rest show ?thesis by auto
  next
    case (Some e)
    from read_one_cases [OF assms(1) one [unfolded Some]]
    obtain d where d: "pending w = d # pending w1" "dec_event (jes_codec s) d = Inr e" .
    from rest Some have "read_loop s sub n (acc @ [e]) w1 = (Inr evs, w')" by simp
    from Suc.IH [OF this] obtain ds es tl where
      "evs = acc @ e # es" "pending w1 = ds @ tl"
      "list_all2 (\<lambda>d e. dec_event (jes_codec s) d = Inr e) ds es" "length es \<le> n" by auto
    with d show ?thesis
      by - (rule exI [of _ "d # ds"], rule exI [of _ "e # es"], simp)
  qed
qed

lemma opfinally_InrD:
  assumes "opfinally m f w = (Inr x, w'')"
  shows "\<exists>w'. m w = (Inr x, w')"
  using assms by (auto simp: opfinally_def split: prod.splits sum.splits)

lemma read_events_prefix:
  assumes "js_client_ok (jes_client s) msgs" and "read_events s stream after limit w = (Inr evs, w')"
  shows "\<exists>ds rest. stored_after msgs w stream after = ds @ rest \<and>
     list_all2 (\<lambda>d e. dec_event (jes_codec s) d = Inr e) ds evs \<and> length evs \<le> nat limit"
proof -
  from assms(2) obtain sub w1 where
    sub: "js_subscribe (jes_client s) (stream @ ''.>'') (read_config stream after) True w = (Inr sub, w1)"
    and loop: "opfinally (read_loop s sub (nat limit) []) (sub_unsubscribe sub) w1 = (Inr evs, w')"
    unfolding read_events_def by (rule opbind_InrE)
  from assms(1) sub obtain pending where
    p: "pending w1 = stored_after msgs w stream after" "consumer_ok sub pending"
    unfolding js_client_ok_def messages_from_read_config [symmetric] by blast
  from opfinally_InrD [OF loop] obtain w2 where "read_loop s sub (nat limit) [] w1 = (Inr evs, w2)" by blast
  from read_loop_prefix [OF p(2) this] p(1) show ?thesis by auto
qed

lemma read_loop_length:
  "read_loop s sub n acc w = (Inr evs, w') \<Longrightarrow> length evs \<le> length acc + n"
proof (induction n arbitrary: acc w)
  case 0
  then show ?case by simp
next
  case (Suc n)
  from Suc.prems obtain r w1 where
    rest: "(case r of None \<Rightarrow> opret acc | Some e \<Rightarrow> read_loop s sub n (acc @ [e])) w1 = (Inr evs, w')"
    unfolding read_loop.simps by (rule opbind_InrE)
  show ?case
  proof (cases r)
    case None
    with rest show ?thesis by simp
  next
    case (Some e)
    with rest Suc.IH [of "acc @ [e]" w1] show ?thesis by simp
  qed
qed

lemma read_events_length:
  assumes "read_events s stream after limit w = (Inr evs, w')"
  shows "length evs \<le> nat limit"
proof -
  from assms obtain sub w1 where
    "opfinally (read_loop s sub (nat limit) []) (sub_unsubscribe sub) w1 = (Inr evs, w')"
    unfolding read_events_def by (rule opbind_InrE)
  from opfinally_InrD [OF this] obtain w2 where "read_loop s sub (nat limit) [] w1 = (Inr evs, w2)" ..
  from read_loop_length [OF this] show ?thesis by simp
qed

text \<open>A reliable consumer hands over everything, up to the limit.\<close>

lemma consumer_reliable_Nil:
  assumes "consumer_reliable sub pending" and "pending w = []"
  shows "\<exists>w'. sub_next_msg sub t w = (Inl (TimeoutError ''nats: timeout''), w')"
proof -
  from assms(1) have "\<exists>w'. case pending w of
        [] \<Rightarrow> sub_next_msg sub t w = (Inl (TimeoutError ''nats: timeout''), w')
      | d # ds \<Rightarrow> sub_next_msg sub t w = (Inr d, w') \<and> pending w' = ds"
    unfolding consumer_reliable_def by simp
  with assms(2) show ?thesis by simp
qed

lemma consumer_reliable_Cons:
  assumes "consumer_reliable sub pending" and "pending w = d # ds"
  shows "\<exists>w'. sub_next_msg sub t w = (Inr d, w') \<and> pending w' = ds"
proof -
  from assms(1) have "\<exists>w'. case pending w of
        [] \<Rightarrow> sub_next_msg sub t w = (Inl (TimeoutError ''nats: timeout''), w')
      | d # ds \<Rightarrow> sub_next_msg sub t w = (Inr d, w') \<and> pending w' = ds"
    unfolding consumer_reliable_def by simp
  with assms(2) show ?thesis by simp
qed

lemma read_loop_reliable:
  assumes rel: "consumer_reliable sub pending"
    and dec: "\<forall>d \<in> set (take n (pending w)). dec_event (jes_codec s) d = Inr (f d)"
  shows "\<exists>w'. read_loop s sub n acc w = (Inr (acc @ map f (take n (pending w))), w')"
  using dec
proof (induction n arbitrary: acc w)
  case 0
  then show ?case by simp
next
  case (Suc n)
  show ?case
  proof (cases "pending w")
    case Nil
    from consumer_reliable_Nil [OF rel this] obtain w' where
      "sub_next_msg sub (1 / 2) w = (Inl (TimeoutError ''nats: timeout''), w')" ..
    then have "read_one s sub w = (Inr None, w')"
      by (simp add: read_one_def opcatch_def opbind_def is_TimeoutError_def)
    with Nil show ?thesis by (auto simp: opbind_Inr)
  next
    case (Cons d ds)
    from consumer_reliable_Cons [OF rel this] obtain w1 where
      w1: "sub_next_msg sub (1 / 2) w = (Inr d, w1)" "pending w1 = ds" by blast
    from Suc.prems Cons have "dec_event (jes_codec s) d = Inr (f d)" by simp
    with w1 have "read_one s sub w = (Inr (Some (f d)), w1)"
      by (simp add: read_one_def opcatch_def opbind_def)
    moreover obtain w' where
      "read_loop s sub n (acc @ [f d]) w1 = (Inr ((acc @ [f d]) @ map f (take n (pending w1))), w')"
      using Suc.IH [of w1 "acc @ [f d]"] Suc.prems Cons w1(2) by auto
    ultimately show ?thesis using Cons w1(2) by (auto simp: opbind_Inr)
  qed
qed

lemma read_events_reliable:
  assumes "js_reliable (jes_client s) msgs"
    and "\<forall>d \<in> set (take (nat limit) (stored_after msgs w stream after)). dec_event (jes_codec s) d = Inr (f d)"
  shows "\<exists>w'. read_events s stream after limit w =
     (Inr (map f (take (nat limit) (stored_after msgs w stream after))), w')"
proof -
  from assms(1) obtain sub w1 pending where
    sub: "js_subscribe (jes_client s) (stream @ ''.>'') (read_config stream after) True w = (Inr sub, w1)"
    and p: "pending w1 = stored_after msgs w stream after" and rel: "consumer_reliable sub pending"
    unfolding js_reliable_def messages_from_read_config [symmetric] by blast
  from read_loop_reliable [OF rel, of "nat limit" w1 s f "[]"] assms(2) p obtain w2 where
    loop: "read_loop s sub (nat limit) [] w1 =
      (Inr (map f (take (nat limit) (stored_after msgs w stream after))), w2)" by auto
  from rel obtain w3 where "sub_unsubscribe sub w2 = (Inr (), w3)"
    unfolding consumer_reliable_def by blast
  with sub loop show ?thesis
    by (auto simp: read_events_def opbind_Inr opfinally_done)
qed

section \<open>Creating the streams\<close>

text \<open>The documented behaviour of the two administrative calls, over the streams \<open>view\<close> of the broker.\<close>

definition stream_admin_ok :: "'w js_client \<Rightarrow> ('w \<Rightarrow> string \<Rightarrow> (string list \<times> int) option) \<Rightarrow> bool" where
  "stream_admin_ok c view \<longleftrightarrow>
     (\<forall>n w r w'. js_find_stream c n w = (r, w') \<longrightarrow> view w' = view w \<and>
        (\<forall>x. r = Inr x \<longrightarrow> view w n \<noteq> None) \<and> (\<forall>m. r = Inl (NotFoundError m) \<longrightarrow> view w n = None)) \<and>
     (\<forall>cfg w r w'. js_add_stream c cfg w = (r, w') \<longrightarrow>
        view w' = (view w)(sc_name cfg \<mapsto> (sc_subjects cfg, sc_max_age cfg)) \<or>
        (\<exists>e. r = Inl e) \<and> view w' = view w)"

lemma ensure_stream_cases:
  assumes ok: "stream_admin_ok js view" and run: "ensure_stream js n subjects w = (r, w')"
  shows "view w' = view w \<and> (r = Inr () \<longrightarrow> view w n \<noteq> None) \<or>
     view w n = None \<and> view w' = (view w)(n \<mapsto> (subjects, MAX_AGE_SECONDS))"
proof -
  obtain f w1 where f: "js_find_stream js n w = (f, w1)" by fastforce
  have v: "view w1 = view w" "\<And>x. f = Inr x \<Longrightarrow> view w n \<noteq> None"
    "\<And>m. f = Inl (NotFoundError m) \<Longrightarrow> view w n = None"
    using ok f unfolding stream_admin_ok_def by metis+
  show ?thesis
  proof (cases "\<exists>m. f = Inl (NotFoundError m)")
    case False
    then have "r \<noteq> Inr () \<or> (\<exists>x. f = Inr x)" "w' = w1"
      using run f by (cases f; auto simp: ensure_stream_def opcatch_def opbind_def is_NotFoundError_def
          split: py_exn.splits)+
    with v show ?thesis by blast
  next
    case True
    obtain a w2 where a: "js_add_stream js (canonical_config n subjects) w1 = (a, w2)" by fastforce
    with True have r: "w' = w2" "r = (case a of Inl e \<Rightarrow> Inl e | Inr _ \<Rightarrow> Inr ())"
      using run f by (auto simp: ensure_stream_def opcatch_def opbind_def is_NotFoundError_def split: sum.splits)
    have "view w2 = (view w1)(n \<mapsto> (subjects, MAX_AGE_SECONDS)) \<or> (\<exists>e. a = Inl e) \<and> view w2 = view w1"
      using ok a unfolding stream_admin_ok_def
      by (metis canonical_config_def stream_config.select_convs(1,2,4))
    with v True r show ?thesis by auto
  qed
qed

lemma ensure_all_effect:
  assumes ok: "stream_admin_ok js view"
  shows "ensure_all js d w = (r, w') \<Longrightarrow>
     (\<forall>n v. view w n = Some v \<longrightarrow> view w' n = Some v) \<and>
     (\<forall>n v. view w n = None \<and> view w' n = Some v \<longrightarrow>
        (\<exists>subjects. (n, subjects) \<in> set d \<and> v = (subjects, MAX_AGE_SECONDS))) \<and>
     (r = Inr () \<longrightarrow> (\<forall>n \<in> set (dkeys d). view w' n \<noteq> None))"
proof (induction d arbitrary: w)
  case Nil
  then have "w' = w" by simp
  then show ?case by (metis option.distinct(1) empty_iff list.map(1) list.set(1))
next
  case (Cons p d)
  obtain n subjects where p: "p = (n, subjects)" by fastforce
  obtain q w1 where q: "ensure_stream js n subjects w = (q, w1)" by fastforce
  note one = ensure_stream_cases [OF ok q]
  show ?case
  proof (cases q)
    case (Inl e)
    with Cons.prems p q have "w' = w1" "r = Inl e" by (simp_all add: opbind_Inl)
    with one p show ?thesis by (auto split: if_splits)
  next
    case (Inr u)
    with Cons.prems p q have "ensure_all js d w1 = (r, w')" by (simp add: opbind_Inr)
    note rest = Cons.IH [OF this]
    have here: "view w1 n \<noteq> None" using one Inr by auto
    from one have mono: "\<forall>m v. view w m = Some v \<longrightarrow> view w1 m = Some v" by auto
    from one have new: "\<forall>m v. view w m = None \<and> view w1 m = Some v \<longrightarrow> m = n \<and> v = (subjects, MAX_AGE_SECONDS)"
      by (auto split: if_splits)
    show ?thesis
    proof (intro conjI allI impI ballI)
      fix m v
      assume "view w m = Some v"
      with mono rest show "view w' m = Some v" by blast
    next
      fix m v
      assume mv: "view w m = None \<and> view w' m = Some v"
      show "\<exists>subjects. (m, subjects) \<in> set (p # d) \<and> v = (subjects, MAX_AGE_SECONDS)"
      proof (cases "view w1 m")
        case None
        with mv rest show ?thesis by (cases v) auto
      next
        case (Some v')
        with mv new have "m = n" "v' = (subjects, MAX_AGE_SECONDS)" by blast+
        moreover have "v = v'" using Some mv rest by simp
        ultimately show ?thesis using p by auto
      qed
    next
      fix m
      assume "r = Inr ()" "m \<in> set (dkeys (p # d))"
      with rest here p show "view w' m \<noteq> None" by fastforce
    qed
  qed
qed

lemma ensure_all_present:
  assumes ok: "stream_admin_ok js view"
  shows "ensure_all js d w = (r, w') \<Longrightarrow> \<forall>n \<in> set (dkeys d). view w n \<noteq> None \<Longrightarrow> view w' = view w"
proof (induction d arbitrary: w)
  case Nil
  then show ?case by simp
next
  case (Cons p d)
  obtain n subjects where p: "p = (n, subjects)" by fastforce
  obtain q w1 where q: "ensure_stream js n subjects w = (q, w1)" by fastforce
  have v: "view w1 = view w" using ensure_stream_cases [OF ok q] Cons.prems(2) p by auto
  show ?case
  proof (cases q)
    case (Inl e)
    with Cons.prems p q v show ?thesis by (simp add: opbind_Inl)
  next
    case (Inr u)
    with Cons.prems p q have "ensure_all js d w1 = (r, w')" by (simp add: opbind_Inr)
    from Cons.IH [OF this] Cons.prems(2) v show ?thesis by simp
  qed
qed

section \<open>A client in memory\<close>

definition mem_matches :: "string \<Rightarrow> string \<Rightarrow> bool" where
  "mem_matches f subject \<longleftrightarrow>
     f = subject \<or> f \<noteq> [] \<and> last f = CHR ''>'' \<and> startswith subject (butlast f)"

definition mem_msgs :: "mem_world \<Rightarrow> string \<Rightarrow> (int \<times> bytes) list" where
  "mem_msgs w f =
     map (\<lambda>(i, m). (int i, snd m)) (filter (\<lambda>(i, m). mem_matches f (fst m)) (enumerate 1 (mw_log w)))"

definition mem_pending :: "nat \<Rightarrow> mem_world \<Rightarrow> bytes list" where
  "mem_pending i w = (if i < length (mw_subs w) then mw_subs w ! i else [])"

definition mem_subscription :: "nat \<Rightarrow> mem_world subscription" where
  "mem_subscription i =
     \<lparr>sub_next_msg = (\<lambda>t w. case mem_pending i w of
        [] \<Rightarrow> (Inl (TimeoutError ''nats: timeout''), w)
      | d # ds \<Rightarrow> (Inr d, w\<lparr>mw_subs := (mw_subs w)[i := ds]\<rparr>)),
      sub_unsubscribe = (\<lambda>w. (Inr (), w\<lparr>mw_subs := (mw_subs w)[i := []]\<rparr>))\<rparr>"

definition mem_js :: "mem_world js_client" where
  "mem_js =
     \<lparr>js_publish = (\<lambda>subject d w.
        (if 2 ^ 64 \<le> int (length (mw_log w)) + 1 then (Inl (ExternalError ''nats: stream is full''), w)
         else (Inr (int (length (mw_log w)) + 1), w\<lparr>mw_log := mw_log w @ [(subject, d)]\<rparr>))),
      js_subscribe = (\<lambda>f cfg b w. (Inr (mem_subscription (length (mw_subs w))),
        w\<lparr>mw_subs := mw_subs w @ [messages_from cfg (mem_msgs w f)]\<rparr>)),
      js_stream_info = (\<lambda>n w. (Inr (int (length (mw_log w))), w)),
      js_find_stream = (\<lambda>n w.
        (if n \<in> set (dkeys (mw_streams w)) then Inr n else Inl (NotFoundError ''nats: NotFoundError''), w)),
      js_add_stream = (\<lambda>cfg w. (Inr (),
        w\<lparr>mw_streams := dset (mw_streams w) (sc_name cfg) (sc_subjects cfg, sc_max_age cfg)\<rparr>)),
      nc_flush = (\<lambda>t w. (Inr (), w)),
      nc_is_connected = (\<lambda>w. True),
      nc_drain = (\<lambda>w. (Inr (), w))\<rparr>"

lemma mem_subscription_reliable: "consumer_reliable (mem_subscription i) (mem_pending i)"
proof -
  have "\<exists>w'. case mem_pending i w of
        [] \<Rightarrow> sub_next_msg (mem_subscription i) t w = (Inl (TimeoutError ''nats: timeout''), w')
      | d # ds \<Rightarrow> sub_next_msg (mem_subscription i) t w = (Inr d, w') \<and> mem_pending i w' = ds" for t w
  proof (cases "mem_pending i w")
    case Nil
    then show ?thesis by (simp add: mem_subscription_def)
  next
    case (Cons d ds)
    then have "i < length (mw_subs w)" by (simp add: mem_pending_def split: if_splits)
    with Cons show ?thesis by (simp add: mem_subscription_def mem_pending_def)
  qed
  then show ?thesis unfolding consumer_reliable_def by (simp add: mem_subscription_def)
qed

lemma mem_subscription_ok: "consumer_ok (mem_subscription i) (mem_pending i)"
  unfolding consumer_ok_def mem_subscription_def
  by (auto simp: mem_pending_def split: list.splits if_splits)

lemma mem_pending_new:
  fixes w :: mem_world
  shows "mem_pending (length (mw_subs w)) (w\<lparr>mw_subs := mw_subs w @ [m]\<rparr>) = m"
  by (simp add: mem_pending_def)

lemma mem_js_reliable: "js_reliable mem_js mem_msgs"
  unfolding js_reliable_def
proof (intro allI)
  fix f cfg b and w :: mem_world
  have "js_subscribe mem_js f cfg b w = (Inr (mem_subscription (length (mw_subs w))),
      w\<lparr>mw_subs := mw_subs w @ [messages_from cfg (mem_msgs w f)]\<rparr>)" by (simp add: mem_js_def)
  with mem_subscription_reliable mem_pending_new
  show "\<exists>sub w' pending. js_subscribe mem_js f cfg b w = (Inr sub, w') \<and>
      pending w' = messages_from cfg (mem_msgs w f) \<and> consumer_reliable sub pending" by blast
qed

lemma mem_js_ok: "js_client_ok mem_js mem_msgs"
  unfolding js_client_ok_def
proof (intro allI impI)
  fix f cfg b sub and w w' :: mem_world
  assume "js_subscribe mem_js f cfg b w = (Inr sub, w')"
  then have "sub = mem_subscription (length (mw_subs w))"
    "w' = w\<lparr>mw_subs := mw_subs w @ [messages_from cfg (mem_msgs w f)]\<rparr>" by (simp_all add: mem_js_def)
  with mem_subscription_ok mem_pending_new
  show "\<exists>pending. pending w' = messages_from cfg (mem_msgs w f) \<and> consumer_ok sub pending" by blast
qed

lemma mem_js_admin_ok: "stream_admin_ok mem_js (\<lambda>w. map_of (mw_streams w))"
  unfolding stream_admin_ok_def mem_js_def
  by (auto simp: map_of_eq_None_iff split: if_splits)

definition example_event_codec :: event_codec where
  "example_event_codec =
     \<lparr>enc_event = (\<lambda>e. encode (ev_stream e @ '' '' @ ev_topic e)),
      dec_event = (\<lambda>d. case split_once CHR '' '' (decode_bytes d) of
         (a, Some b) \<Rightarrow> Inr \<lparr>ev_stream = a, ev_topic = b, ev_fields = []\<rparr>
       | (a, None) \<Rightarrow> Inl (ValueError ''no topic''))\<rparr>"

definition mem_events :: "mem_world event_store" where
  "mem_events = \<lparr>jes_client = mem_js, jes_codec = example_event_codec\<rparr>"

section \<open>Properties\<close>

text \<open>
  A read returns a gap-free, ordered part of the log. With a client that delivers a
  subscription's messages in order and may time out at any point, the events \<open>read_events\<close>
  returns are the decoded first messages of those the broker holds with a sequence number
  beyond \<open>after_sequence\<close>, none skipped or repeated, and at most \<open>limit\<close> of them.
\<close>

theorem read_events_in_order:
  assumes "js_client_ok (jes_client s) msgs"
    and "read_events s stream after_sequence limit w = (Inr events, w')"
  shows "\<exists>ds rest. stored_after msgs w stream after_sequence = ds @ rest \<and>
     list_all2 (\<lambda>d e. dec_event (jes_codec s) d = Inr e) ds events \<and> length events \<le> nat limit"
  using assms by (rule read_events_prefix)

definition example_log :: mem_world where
  "example_log = mem_empty\<lparr>mw_log :=
     map (\<lambda>t. (''s.'' @ t, encode (''s '' @ t))) [''a'', ''b'', ''c'', ''d'']\<rparr>"

lemma example_log_read:
  "fst (read_events mem_events ''s'' (Some 1) 2 example_log) =
     Inr [\<lparr>ev_stream = ''s'', ev_topic = ''b'', ev_fields = []\<rparr>,
          \<lparr>ev_stream = ''s'', ev_topic = ''c'', ev_fields = []\<rparr>]"
  by code_simp

theorem read_events_in_order_witness:
  "\<exists>events. fst (read_events mem_events ''s'' (Some 1) 2 example_log) = Inr events \<and>
     length events = 2 \<and>
     (\<exists>ds rest. stored_after mem_msgs example_log ''s'' (Some 1) = ds @ rest \<and>
        list_all2 (\<lambda>d e. dec_event example_event_codec d = Inr e) ds events)"
proof -
  obtain w' where r: "read_events mem_events ''s'' (Some 1) 2 example_log =
      (Inr [\<lparr>ev_stream = ''s'', ev_topic = ''b'', ev_fields = []\<rparr>,
          \<lparr>ev_stream = ''s'', ev_topic = ''c'', ev_fields = []\<rparr>], w')"
    using example_log_read by (metis prod.collapse)
  have "js_client_ok (jes_client mem_events) mem_msgs" by (simp add: mem_events_def mem_js_ok)
  from read_events_in_order [OF this r] r show ?thesis by (auto simp: mem_events_def)
qed

text \<open>
  The documented behaviour of \<open>publish\<close> over the messages of a subject filter: a message that is
  acknowledged is stored last, with the acknowledged sequence number, a positive 64-bit integer.
\<close>

definition js_publish_ok :: "'w js_client \<Rightarrow> ('w \<Rightarrow> string \<Rightarrow> (int \<times> bytes) list) \<Rightarrow> bool" where
  "js_publish_ok c msgs \<longleftrightarrow>
     (\<forall>stream topic d w n w'. js_publish c (stream @ ''.'' @ topic) d w = (Inr n, w') \<longrightarrow>
        msgs w' (stream @ ''.>'') = msgs w (stream @ ''.>'') @ [(n, d)] \<and>
        (\<forall>m \<in> set (msgs w (stream @ ''.>'')). fst m < n) \<and> 0 < n \<and> n < 2 ^ 64)"

fun write_all :: "'w event_store \<Rightarrow> event_envelope list \<Rightarrow> ('w, unit) op" where
  "write_all s [] = opret ()"
| "write_all s (e # es) = opbind (write_event s e) (\<lambda>_. write_all s es)"

lemma write_event_effect:
  assumes ok: "js_publish_ok (jes_client s) msgs" and "write_event s e w = (Inr q, w')"
  shows "\<exists>n. q = str_int n \<and> 0 < n \<and> n < 2 ^ 64 \<and>
     msgs w' (ev_stream e @ ''.>'') = msgs w (ev_stream e @ ''.>'') @ [(n, enc_event (jes_codec s) e)] \<and>
     (\<forall>m \<in> set (msgs w (ev_stream e @ ''.>'')). fst m < n)"
proof -
  from assms(2) obtain n where
    p: "js_publish (jes_client s) (ev_stream e @ ''.'' @ ev_topic e) (enc_event (jes_codec s) e) w = (Inr n, w')"
    and q: "q = str_int n"
    unfolding write_event_def by (auto elim!: opbind_InrE)
  show ?thesis
    using ok [unfolded js_publish_ok_def, rule_format, OF p] q by blast
qed

lemma write_all_effect:
  assumes ok: "js_publish_ok (jes_client s) msgs"
  shows "write_all s es w = (Inr (), w') \<Longrightarrow> \<forall>e \<in> set es. ev_stream e = stream \<Longrightarrow>
     \<exists>ns. length ns = length es \<and>
       msgs w' (stream @ ''.>'') = msgs w (stream @ ''.>'') @ zip ns (map (enc_event (jes_codec s)) es) \<and>
       (\<forall>m \<in> set (msgs w (stream @ ''.>'')). \<forall>n \<in> set ns. fst m < n)"
proof (induction es arbitrary: w)
  case Nil
  then show ?case by simp
next
  case (Cons e es)
  from Cons.prems(1) obtain q w1 where
    one: "write_event s e w = (Inr q, w1)" and rest: "write_all s es w1 = (Inr (), w')"
    unfolding write_all.simps by (rule opbind_InrE)
  have stream: "ev_stream e = stream" using Cons.prems(2) by simp
  from write_event_effect [OF ok one] obtain n where
    n: "msgs w1 (stream @ ''.>'') = msgs w (stream @ ''.>'') @ [(n, enc_event (jes_codec s) e)]"
      "\<forall>m \<in> set (msgs w (stream @ ''.>'')). fst m < n"
    unfolding stream by blast
  from Cons.IH [OF rest] Cons.prems(2) obtain ns where
    ns: "length ns = length es"
      "msgs w' (stream @ ''.>'') = msgs w1 (stream @ ''.>'') @ zip ns (map (enc_event (jes_codec s)) es)"
      "\<forall>m \<in> set (msgs w1 (stream @ ''.>'')). \<forall>k \<in> set ns. fst m < k" by auto
  show ?case
    by (rule exI [of _ "n # ns"]) (use n ns in auto)
qed

lemma two64_le: "(2::int) ^ 64 \<le> 10 ^ INT_DIGIT_LIMIT"
proof -
  have "(2::int) ^ 64 \<le> 10 ^ 20" by simp
  also have "(10::int) ^ 20 \<le> 10 ^ INT_DIGIT_LIMIT"
    by (rule power_increasing) (simp_all add: INT_DIGIT_LIMIT_def)
  finally show ?thesis .
qed

lemma stored_after_zip:
  assumes "msgs w (stream @ ''.>'') = old @ zip ns ds" and "length ns = length ds"
    and "\<forall>m \<in> set old. fst m \<le> n" and "\<forall>k \<in> set ns. n < k"
  shows "stored_after msgs w stream (Some n) = ds"
proof -
  have "filter (\<lambda>m. n < fst m) old = []" using assms(3) by (auto simp: filter_empty_conv)
  moreover have "filter (\<lambda>m. n < fst m) (zip ns ds) = zip ns ds"
    using assms(4) by (intro filter_True) (auto dest: set_zip_leftD)
  ultimately show ?thesis using assms(1,2) by (simp add: stored_after_def)
qed

text \<open>What is stored after the cursor of an event: what has been written to its stream since.\<close>

lemma written_after:
  assumes pub: "js_publish_ok (jes_client s) msgs"
    and one: "write_event s e w = (Inr cursor, w1)" and same: "msgs w2 = msgs w1"
    and rest: "write_all s es w2 = (Inr (), w3)" "\<forall>x \<in> set es. ev_stream x = ev_stream e"
  shows "\<exists>n. cursor = str_int n \<and> 0 < n \<and> py_int cursor = Some n \<and>
    stored_after msgs w3 (ev_stream e) (Some n) = map (enc_event (jes_codec s)) es"
proof -
  let ?f = "ev_stream e @ ''.>''" and ?enc = "enc_event (jes_codec s)"
  from write_event_effect [OF pub one] obtain n where
    n: "cursor = str_int n" "0 < n" "n < 2 ^ 64" "msgs w1 ?f = msgs w ?f @ [(n, ?enc e)]"
      "\<forall>m \<in> set (msgs w ?f). fst m < n" by blast
  from write_all_effect [OF pub rest] obtain ns where
    ns: "length ns = length es" "msgs w3 ?f = msgs w1 ?f @ zip ns (map ?enc es)"
      "\<forall>m \<in> set (msgs w1 ?f). \<forall>k \<in> set ns. fst m < k" unfolding same by blast
  have "stored_after msgs w3 (ev_stream e) (Some n) = map ?enc es"
    by (rule stored_after_zip [where old = "msgs w1 ?f" and ns = ns]) (use n ns in auto)
  moreover have "py_int cursor = Some n"
    unfolding n(1) by (rule py_int_str_int) (use n(2,3) two64_le in simp)
  ultimately show ?thesis using n(1,2) by blast
qed

text \<open>
  C16: a cursor resumes exactly after the event it names. The string \<open>write_event\<close> returns for
  an event reads back as an integer; reading after it gives the events written to the stream
  since, in the order they were written, up to the limit.
\<close>

theorem cursor_resumes:
  assumes "js_reliable (jes_client s) msgs" and "js_publish_ok (jes_client s) msgs"
    and "\<forall>x \<in> set es. dec_event (jes_codec s) (enc_event (jes_codec s) x) = Inr x"
    and "write_event s e w = (Inr cursor, w1)"
    and "write_all s es w1 = (Inr (), w2)" and "\<forall>x \<in> set es. ev_stream x = ev_stream e"
  shows "\<exists>n w3. py_int cursor = Some n \<and>
    read_events s (ev_stream e) (Some n) limit w2 = (Inr (take (nat limit) es), w3)"
proof -
  let ?enc = "enc_event (jes_codec s)"
  from written_after [OF assms(2,4) refl assms(5,6)] obtain n where
    n: "py_int cursor = Some n" "stored_after msgs w2 (ev_stream e) (Some n) = map ?enc es" by blast
  let ?dec = "\<lambda>d. case dec_event (jes_codec s) d of Inr x \<Rightarrow> x | Inl _ \<Rightarrow> e"
  obtain w3 where "read_events s (ev_stream e) (Some n) limit w2 =
      (Inr (map ?dec (take (nat limit) (map ?enc es))), w3)"
    using read_events_reliable [OF assms(1), where limit = limit and w = w2 and stream = "ev_stream e" and after = "Some n" and f = ?dec]
      assms(3) n(2) by (fastforce simp: take_map dest: in_set_takeD)
  moreover have "map ?dec (take (nat limit) (map ?enc es)) = take (nat limit) es"
    using assms(3) by (auto simp: take_map comp_def intro!: map_idI dest!: in_set_takeD)
  ultimately show ?thesis using n(1) by auto
qed

lemma mem_js_publish_ok: "js_publish_ok mem_js mem_msgs"
proof -
  have "mem_matches (stream @ ''.>'') (stream @ ''.'' @ topic)" for stream topic
  proof -
    have "butlast (stream @ ''.>'') = stream @ ''.''" by (simp add: butlast_append)
    then show ?thesis by (simp add: mem_matches_def startswith_def)
  qed
  then show ?thesis
    unfolding js_publish_ok_def
    by (auto simp: mem_js_def mem_msgs_def enumerate_append_eq in_set_enumerate_eq split: if_splits)
qed

definition example_event :: "string \<Rightarrow> event_envelope" where
  "example_event topic = \<lparr>ev_stream = ''s'', ev_topic = topic, ev_fields = []\<rparr>"

theorem cursor_resumes_witness:
  "let w1 = snd (write_event mem_events (example_event ''a'') mem_empty);
       w2 = snd (write_all mem_events [example_event ''b'', example_event ''c''] w1)
   in fst (write_event mem_events (example_event ''a'') mem_empty) = Inr ''1'' \<and>
      py_int ''1'' = Some 1 \<and>
      (\<exists>w3. read_events mem_events ''s'' (Some 1) 100 w2 =
         (Inr [example_event ''b'', example_event ''c''], w3))"
proof -
  let ?W = "write_event mem_events (example_event ''a'') mem_empty"
  let ?A = "write_all mem_events [example_event ''b'', example_event ''c''] (snd ?W)"
  have W: "fst ?W = Inr ''1''" by code_simp
  have A: "fst ?A = Inr ()" by code_simp
  have p: "py_int ''1'' = Some 1" by code_simp
  have c: "\<forall>x \<in> set [example_event ''b'', example_event ''c''].
      dec_event (jes_codec mem_events) (enc_event (jes_codec mem_events) x) = Inr x" by code_simp
  have j: "js_reliable (jes_client mem_events) mem_msgs" "js_publish_ok (jes_client mem_events) mem_msgs"
    by (simp_all add: mem_events_def mem_js_reliable mem_js_publish_ok)
  have "\<exists>n w3. py_int ''1'' = Some n \<and>
      read_events mem_events (ev_stream (example_event ''a'')) (Some n) 100 (snd ?A) =
        (Inr (take (nat 100) [example_event ''b'', example_event ''c'']), w3)"
  proof (rule cursor_resumes [OF j c])
    show "?W = (Inr ''1'', snd ?W)" using W by (metis prod.collapse)
    show "?A = (Inr (), snd ?A)" using A by (metis prod.collapse)
    show "\<forall>x \<in> set [example_event ''b'', example_event ''c'']. ev_stream x = ev_stream (example_event ''a'')"
      by (simp add: example_event_def)
  qed
  with W p show ?thesis by (simp add: Let_def example_event_def)
qed

text \<open>
  Creating the canonical streams is idempotent. Whether \<open>ensure_streams\<close> returns or raises,
  every existing stream keeps its configuration and any new one is a canonical stream with the
  canonical subjects and age; when it returns, every canonical stream exists, and a
  second call changes nothing.
\<close>

theorem ensure_streams_idempotent:
  assumes "stream_admin_ok js view" and "ensure_streams js w = (r, w')"
  shows "(\<forall>n v. view w n = Some v \<longrightarrow> view w' n = Some v) \<and>
     (\<forall>n v. view w n = None \<and> view w' n = Some v \<longrightarrow>
        (\<exists>subjects. (n, subjects) \<in> set STREAMS \<and> v = (subjects, MAX_AGE_SECONDS))) \<and>
     (r = Inr () \<longrightarrow> (\<forall>n \<in> set (dkeys STREAMS). view w' n \<noteq> None) \<and>
        (\<forall>q w''. ensure_streams js w' = (q, w'') \<longrightarrow> view w'' = view w'))"
proof -
  note effect = ensure_all_effect [OF assms(1) assms(2) [unfolded ensure_streams_def]]
  have "view w'' = view w'" if "r = Inr ()" "ensure_streams js w' = (q, w'')" for q w''
  proof (rule ensure_all_present [OF assms(1)])
    show "ensure_all js STREAMS w' = (q, w'')" using that(2) by (simp add: ensure_streams_def)
    show "\<forall>n \<in> set (dkeys STREAMS). view w' n \<noteq> None" using effect that(1) by blast
  qed
  with effect show ?thesis by blast
qed

definition example_streams :: mem_world where
  "example_streams = mem_empty\<lparr>mw_streams := [(''gaia-events'', ([''gaia.events.>'', ''extra''], 60))]\<rparr>"

theorem ensure_streams_idempotent_witness:
  "let w' = snd (ensure_streams mem_js example_streams)
   in fst (ensure_streams mem_js example_streams) = Inr () \<and>
      map_of (mw_streams w') ''gaia-events'' = Some ([''gaia.events.>'', ''extra''], 60) \<and>
      (\<forall>n \<in> set (dkeys STREAMS). map_of (mw_streams w') n \<noteq> None)"
proof -
  let ?E = "ensure_streams mem_js example_streams"
  have r: "fst ?E = Inr ()" by code_simp
  then have "?E = (Inr (), snd ?E)" by (metis prod.collapse)
  from ensure_streams_idempotent [OF mem_js_admin_ok this] r show ?thesis
    by (simp add: Let_def example_streams_def)
qed

text \<open>
  No canonical stream stores an event of a canonical stream name. Whatever matching rule the
  broker has, as long as a filter ending in a wildcard matches only subjects that begin with the
  text before the wildcard, the subject \<open>write_event\<close> publishes to for an event whose stream is a
  name of \<open>_STREAMS\<close> (\<open>gaia-events.\<close> and so on) is matched by no subject filter of \<open>_STREAMS\<close>
  (\<open>gaia.events.>\<close> and so on).
\<close>

theorem canonical_streams_miss_events:
  assumes "\<forall>p subject. CHR ''*'' \<notin> set p \<longrightarrow> matches (p @ ''.>'') subject \<longrightarrow> startswith subject (p @ ''.'')"
    and "name \<in> set (dkeys STREAMS)" and "(other, filters) \<in> set STREAMS" and "f \<in> set filters"
  shows "\<not> matches f (name @ ''.'' @ topic)"
proof
  assume m: "matches f (name @ ''.'' @ topic)"
  obtain p where f: "f = (''gaia.'' @ p) @ ''.>''" and p: "CHR ''*'' \<notin> set p"
    using assms(3,4) unfolding STREAMS_def
    by (auto intro: that [of "''events''"] that [of "''checkpoints''"] that [of "''federation''"]
        that [of "''governance''"] that [of "''validation''"])
  have "startswith (name @ ''.'' @ topic) ((''gaia.'' @ p) @ ''.'')"
    using assms(1) [rule_format, of "''gaia.'' @ p"] p m f by simp
  then obtain r where "name @ ''.'' @ topic = ''gaia.'' @ r"
    by (auto simp: startswith_iff)
  with assms(2) show False by (auto simp: STREAMS_def)
qed

theorem canonical_streams_miss_events_witness:
  "\<not> mem_matches ''gaia.checkpoints.>'' ''gaia-checkpoints.epoch''"
proof -
  have "\<not> mem_matches ''gaia.checkpoints.>'' (''gaia-checkpoints'' @ ''.'' @ ''epoch'')"
  proof (rule canonical_streams_miss_events [where name = "''gaia-checkpoints''"
      and other = "''gaia-checkpoints''" and filters = "[''gaia.checkpoints.>'']"])
    show "\<forall>p subject. CHR ''*'' \<notin> set p \<longrightarrow> mem_matches (p @ ''.>'') subject \<longrightarrow> startswith subject (p @ ''.'')"
      by (auto simp: mem_matches_def startswith_iff butlast_append)
  qed (simp_all add: STREAMS_def)
  then show ?thesis by simp
qed

end
