(* ===== verification/Storage_Registry.thy ===== *)
theory Storage_Registry
  imports Etcd_Store Minio_Store JetStream_Store
begin

text \<open>
  \<^verbatim>\<open>gaia_server/storage/registry.py\<close>: the three stores wired together and their joint health.
  \<^verbatim>\<open>asyncio.gather\<close> starts the three checks in order; they are run one after the other here.
  Shown: the joint check answers whatever the backends do, and reports \<open>ok\<close> exactly when each
  of them does; and that a call to one backend leaves the entries of the metadata store alone.
\<close>

record 'w storage_registry =
  reg_events :: "'w event_store"
  reg_checkpoints :: "'w minio_store"
  reg_metadata :: "'w etcd_store"

definition gather_health :: "('w, pydict) op \<Rightarrow> ('w, pydict) op \<Rightarrow> ('w, pydict) op \<Rightarrow> ('w, pydict list) op" where
  "gather_health a b c =
     opbind a (\<lambda>x. opbind b (\<lambda>y. opbind c (\<lambda>z. opret [x, y, z])))"

definition overall_status :: "pydict list \<Rightarrow> string" where
  "overall_status results =
     (if list_all (\<lambda>r. map_of r ''status'' = Some (PStr ''ok'')) results then ''ok'' else ''degraded'')"

definition joint_report :: "pydict list \<Rightarrow> pydict" where
  "joint_report results =
     [(''status'', PStr (overall_status results)), (''backends'', PList (map PDict results))]"

definition registry_health :: "'w storage_registry \<Rightarrow> ('w, pydict) op" where
  "registry_health reg =
     opbind (gather_health (js_health (reg_events reg)) (minio_health (reg_checkpoints reg))
         (etcd_health (reg_metadata reg)))
       (\<lambda>results. opret (joint_report results))"

section \<open>Health\<close>

definition health_calls_ok :: "'w storage_registry \<Rightarrow> bool" where
  "health_calls_ok reg \<longleftrightarrow>
     raises_Exceptions (nc_flush (jes_client (reg_events reg)) 2) \<and>
     raises_Exceptions (mc_bucket_exists (ms_client (reg_checkpoints reg)) (ms_bucket (reg_checkpoints reg))) \<and>
     raises_Exceptions (ec_status (es_client (reg_metadata reg)))"

definition reports :: "string \<Rightarrow> ('w, pydict) op \<Rightarrow> bool" where
  "reports backend m \<longleftrightarrow>
     (\<forall>w. \<exists>d w'. m w = (Inr d, w') \<and> map_of d ''backend'' = Some (PStr backend) \<and>
        (map_of d ''status'' = Some (PStr ''ok'') \<or> map_of d ''status'' = Some (PStr ''error'')))"

lemma reportsI:
  assumes "raises_Exceptions m"
    and "\<And>x w. \<exists>d w'. k x w = (Inr d, w') \<and> map_of d ''backend'' = Some (PStr backend) \<and>
           map_of d ''status'' = Some (PStr ''ok'')"
    and "\<And>e w. \<exists>d. h e w = (Inr d, w) \<and> map_of d ''backend'' = Some (PStr backend) \<and>
           map_of d ''status'' = Some (PStr ''error'')"
  shows "reports backend (optry (opbind m k) h)"
  unfolding reports_def
proof
  fix w
  obtain r w1 where r: "m w = (r, w1)" by fastforce
  show "\<exists>d w'. optry (opbind m k) h w = (Inr d, w') \<and> map_of d ''backend'' = Some (PStr backend) \<and>
        (map_of d ''status'' = Some (PStr ''ok'') \<or> map_of d ''status'' = Some (PStr ''error''))"
  proof (cases r)
    case (Inl e)
    with r assms(1) have "is_Exception e" unfolding raises_Exceptions_def by blast
    with r Inl have "optry (opbind m k) h w = h e w1" by (simp add: opcatch_def opbind_def)
    with assms(3) [of e w1] show ?thesis by auto
  next
    case (Inr x)
    from assms(2) [of x w1] obtain d w' where
      "k x w1 = (Inr d, w')" "map_of d ''backend'' = Some (PStr backend)"
      "map_of d ''status'' = Some (PStr ''ok'')" by blast
    with r Inr show ?thesis by (simp add: opcatch_def opbind_def)
  qed
qed

lemma js_health_reports:
  "raises_Exceptions (nc_flush (jes_client s) 2) \<Longrightarrow> reports ''jetstream'' (js_health s)"
  unfolding js_health_def by (rule reportsI) simp_all

lemma minio_health_reports:
  "raises_Exceptions (mc_bucket_exists (ms_client s) (ms_bucket s)) \<Longrightarrow> reports ''minio'' (minio_health s)"
  unfolding minio_health_def by (rule reportsI) simp_all

lemma etcd_health_reports:
  "raises_Exceptions (ec_status (es_client s)) \<Longrightarrow> reports ''etcd'' (etcd_health s)"
  unfolding etcd_health_def by (rule reportsI) (auto split: prod.split)

lemma registry_health_total:
  assumes "health_calls_ok reg"
  shows "\<exists>a b c w'. registry_health reg w =
       (Inr [(''status'', PStr (overall_status [a, b, c])), (''backends'', PList [PDict a, PDict b, PDict c])], w') \<and>
     map (\<lambda>r. map_of r ''backend'') [a, b, c] = map (Some \<circ> PStr) [''jetstream'', ''minio'', ''etcd''] \<and>
     (overall_status [a, b, c] = ''ok'' \<longleftrightarrow>
        (\<forall>r \<in> {a, b, c}. map_of r ''status'' \<noteq> Some (PStr ''error'')))"
proof -
  have j: "reports ''jetstream'' (js_health (reg_events reg))"
    and m: "reports ''minio'' (minio_health (reg_checkpoints reg))"
    and e: "reports ''etcd'' (etcd_health (reg_metadata reg))"
    using assms by (simp_all add: health_calls_ok_def js_health_reports minio_health_reports etcd_health_reports)
  from j obtain a w1 where a: "js_health (reg_events reg) w = (Inr a, w1)"
    "map_of a ''backend'' = Some (PStr ''jetstream'')"
    "map_of a ''status'' = Some (PStr ''ok'') \<or> map_of a ''status'' = Some (PStr ''error'')"
    unfolding reports_def by blast
  from m obtain b w2 where b: "minio_health (reg_checkpoints reg) w1 = (Inr b, w2)"
    "map_of b ''backend'' = Some (PStr ''minio'')"
    "map_of b ''status'' = Some (PStr ''ok'') \<or> map_of b ''status'' = Some (PStr ''error'')"
    unfolding reports_def by blast
  from e obtain c w3 where c: "etcd_health (reg_metadata reg) w2 = (Inr c, w3)"
    "map_of c ''backend'' = Some (PStr ''etcd'')"
    "map_of c ''status'' = Some (PStr ''ok'') \<or> map_of c ''status'' = Some (PStr ''error'')"
    unfolding reports_def by blast
  have "registry_health reg w =
      (Inr [(''status'', PStr (overall_status [a, b, c])), (''backends'', PList [PDict a, PDict b, PDict c])], w3)"
    using a(1) b(1) c(1) by (simp add: registry_health_def joint_report_def gather_health_def opbind_def)
  moreover have "overall_status [a, b, c] = ''ok'' \<longleftrightarrow>
      (\<forall>r \<in> {a, b, c}. map_of r ''status'' \<noteq> Some (PStr ''error''))"
    using a(3) b(3) c(3) by (auto simp: overall_status_def)
  ultimately show ?thesis using a(2) b(2) c(2) by auto
qed

text \<open>
  The joint health check always answers. When the clients raise only exceptions, it
  returns a report on the three backends, each ok or in error, and its own status is ok exactly when
  all three are ok, degraded otherwise.
\<close>

theorem registry_health_answers:
  assumes "health_calls_ok reg"
  shows "\<exists>a b c w'. registry_health reg w =
       (Inr [(''status'', PStr (overall_status [a, b, c])), (''backends'', PList [PDict a, PDict b, PDict c])], w') \<and>
     map (\<lambda>r. map_of r ''backend'') [a, b, c] = map (Some \<circ> PStr) [''jetstream'', ''minio'', ''etcd''] \<and>
     (overall_status [a, b, c] = ''ok'' \<longleftrightarrow>
        (\<forall>r \<in> {a, b, c}. map_of r ''status'' \<noteq> Some (PStr ''error'')))"
  using assms by (rule registry_health_total)

definition mem_registry :: "mem_world storage_registry" where
  "mem_registry = \<lparr>reg_events = mem_events, reg_checkpoints = mem_minio_store, reg_metadata = mem_store\<rparr>"

theorem registry_health_answers_witness:
  "\<exists>a b c w'. registry_health mem_registry mem_empty =
       (Inr [(''status'', PStr (overall_status [a, b, c])), (''backends'', PList [PDict a, PDict b, PDict c])], w') \<and>
     map_of c ''backend'' = Some (PStr ''etcd'')"
proof -
  have "health_calls_ok mem_registry"
    by (simp add: health_calls_ok_def raises_Exceptions_def mem_registry_def mem_events_def mem_js_def
        mem_minio_store_def mem_minio_def mem_store_def mem_etcd_def)
  from registry_health_answers [OF this, of mem_empty] show ?thesis by auto
qed

section \<open>The metadata under the other backends\<close>

text \<open>The calls of the event and checkpoint clients do not touch the entries of the metadata store.\<close>

definition backends_separate :: "'w storage_registry \<Rightarrow> ('w \<Rightarrow> 'v) \<Rightarrow> bool" where
  "backends_separate reg view \<longleftrightarrow>
     (\<forall>b k. op_keeps view (mc_get_object (ms_client (reg_checkpoints reg)) b k)) \<and>
     (\<forall>f cfg b. op_keeps view (js_subscribe (jes_client (reg_events reg)) f cfg b)) \<and>
     (\<forall>f cfg b w sub w'. js_subscribe (jes_client (reg_events reg)) f cfg b w = (Inr sub, w') \<longrightarrow>
        (\<forall>t. op_keeps view (sub_next_msg sub t)) \<and> op_keeps view (sub_unsubscribe sub))"

lemma get_checkpoint_keeps:
  assumes "backends_separate reg view"
  shows "op_keeps view (get_checkpoint (reg_checkpoints reg) i)"
proof -
  have "op_keeps view (mc_get_object (ms_client (reg_checkpoints reg)) b k)" for b k
    using assms by (simp add: backends_separate_def)
  then show ?thesis unfolding get_checkpoint_def by (intro op_keeps_opbind op_keeps_oplift op_keeps_opret)
qed

lemma read_loop_keeps:
  assumes "\<And>t. op_keeps view (sub_next_msg sub t)"
  shows "op_keeps view (read_loop s sub n acc)"
proof (induction n arbitrary: acc)
  case 0
  then show ?case by simp
next
  case (Suc n)
  have "op_keeps view (read_one s sub)" unfolding read_one_def
    by (intro op_keeps_opcatch op_keeps_opbind op_keeps_oplift op_keeps_opret assms)
  then show ?case unfolding read_loop.simps
    by (rule op_keeps_opbind) (simp add: Suc.IH split: option.split)
qed

lemma read_events_keeps:
  assumes "backends_separate reg view" and "read_events (reg_events reg) stream after limit w = (r, w')"
  shows "view w' = view w"
proof -
  let ?c = "jes_client (reg_events reg)" and ?f = "stream @ ''.>''" and ?cfg = "read_config stream after"
  obtain q w1 where q: "js_subscribe ?c ?f ?cfg True w = (q, w1)" by fastforce
  have "op_keeps view (js_subscribe ?c ?f ?cfg True)" using assms(1) by (simp add: backends_separate_def)
  then have v: "view w1 = view w" using q by (rule op_keepsD)
  show ?thesis
  proof (cases q)
    case (Inl e)
    with assms(2) q v show ?thesis by (simp add: read_events_def opbind_Inl)
  next
    case (Inr sub)
    with assms(1) q have k: "\<And>t. op_keeps view (sub_next_msg sub t)" "op_keeps view (sub_unsubscribe sub)"
      unfolding backends_separate_def by blast+
    let ?m = "opfinally (read_loop (reg_events reg) sub (nat limit) []) (sub_unsubscribe sub)"
    have "op_keeps view ?m" by (rule op_keeps_opfinally [OF read_loop_keeps [OF k(1)] k(2)])
    moreover have "?m w1 = (r, w')" using assms(2) q Inr by (simp add: read_events_def opbind_Inr)
    ultimately show ?thesis using v op_keepsD by metis
  qed
qed

text \<open>
  The services do not see each other: beside the above, the metadata reads leave the objects
  \<open>oview\<close> and the messages \<open>msgs\<close> alone, and the object reads leave the messages alone.
\<close>

definition services_separate :: "'w storage_registry \<Rightarrow> ('w \<Rightarrow> string \<Rightarrow> bytes option)
    \<Rightarrow> ('w \<Rightarrow> string \<times> string \<Rightarrow> bytes option) \<Rightarrow> ('w \<Rightarrow> string \<Rightarrow> (int \<times> bytes) list) \<Rightarrow> bool" where
  "services_separate reg view oview msgs \<longleftrightarrow> backends_separate reg view \<and>
     (\<forall>k. op_keeps oview (ec_get (es_client (reg_metadata reg)) k)) \<and>
     (\<forall>k. op_keeps msgs (ec_get (es_client (reg_metadata reg)) k)) \<and>
     (\<forall>b k. op_keeps msgs (mc_get_object (ms_client (reg_checkpoints reg)) b k))"

lemma get_checkpoint_keeps_msgs:
  assumes "services_separate reg view oview msgs"
  shows "op_keeps msgs (get_checkpoint (reg_checkpoints reg) i)"
proof -
  have "op_keeps msgs (mc_get_object (ms_client (reg_checkpoints reg)) b k)" for b k
    using assms by (simp add: services_separate_def)
  then show ?thesis unfolding get_checkpoint_def by (intro op_keeps_opbind op_keeps_oplift op_keeps_opret)
qed

lemma mem_subscription_keeps:
  "op_keeps mem_view (sub_next_msg (mem_subscription i) t)"
  "op_keeps mem_view (sub_unsubscribe (mem_subscription i))"
  by (auto simp: op_keeps_def mem_subscription_def split: list.splits)

lemma mem_backends_separate: "backends_separate mem_registry mem_view"
  unfolding backends_separate_def
proof (intro conjI allI impI)
  fix f cfg b and w w' :: mem_world and sub t
  assume "js_subscribe (jes_client (reg_events mem_registry)) f cfg b w = (Inr sub, w')"
  then have "sub = mem_subscription (length (mw_subs w))"
    by (simp add: mem_registry_def mem_events_def mem_js_def)
  then show "op_keeps mem_view (sub_next_msg sub t)" "op_keeps mem_view (sub_unsubscribe sub)"
    by (simp_all add: mem_subscription_keeps)
qed (auto simp: op_keeps_def mem_registry_def mem_events_def mem_js_def mem_minio_store_def mem_minio_def)

lemma mem_services_separate: "services_separate mem_registry mem_view mem_objects mem_msgs"
  unfolding services_separate_def
  by (auto simp: mem_backends_separate)
    (auto simp: op_keeps_def mem_registry_def mem_store_def mem_etcd_def mem_minio_store_def
      mem_minio_def mem_msgs_def)

end
