(* ===== verification/Json_Text.thy ===== *)
theory Json_Text
  imports Py_Text "HOL-Library.List_Lexorder" "HOL-Library.Char_ord"
begin

text \<open>
  \<^verbatim>\<open>json.dumps\<close> with \<^verbatim>\<open>sort_keys=True\<close> on values that JSON has a form for, as the restore orchestrator calls it
  to get the text it hashes. The separators are arguments, and so is \<open>frepr\<close>, the text of
  a finite float. Shown: the parts of the text are printable ASCII. \<open>Json_Payload\<close> has the call of
  the artifact signer, on values of any kind.
\<close>

section \<open>Strings\<close>

text \<open>Code points of a UTF-8 text; a malformed tail is passed byte by byte.\<close>

fun code_points :: "nat list \<Rightarrow> nat list" where
  "code_points [] = []"
| "code_points (a # as) =
     (if a < 128 then a # code_points as
      else if a < 224 then
        (case as of b # bs \<Rightarrow> ((a - 192) * 64 + (b - 128)) # code_points bs | _ \<Rightarrow> [a])
      else if a < 240 then
        (case as of b # c # cs \<Rightarrow> ((a - 224) * 4096 + (b - 128) * 64 + (c - 128)) # code_points cs
         | _ \<Rightarrow> a # as)
      else
        (case as of b # c # d # ds \<Rightarrow>
           ((a - 240) * 262144 + (b - 128) * 4096 + (c - 128) * 64 + (d - 128)) # code_points ds
         | _ \<Rightarrow> a # as))"

definition json_u :: "nat \<Rightarrow> string" where
  "json_u n = [backslash, CHR ''u'', hex_digit (n div 4096), hex_digit (n div 256 mod 16),
     hex_digit (n div 16 mod 16), hex_digit (n mod 16)]"

definition json_escape :: "nat \<Rightarrow> string" where
  "json_escape n =
     (if n = 34 then [backslash, double_quote]
      else if n = 92 then [backslash, backslash]
      else if n = 10 then [backslash, CHR ''n'']
      else if n = 13 then [backslash, CHR ''r'']
      else if n = 9 then [backslash, CHR ''t'']
      else if n = 12 then [backslash, CHR ''f'']
      else if n = 8 then [backslash, CHR ''b'']
      else if 32 \<le> n \<and> n \<le> 126 then [char_of n]
      else if n < 65536 then json_u n
      else json_u (55296 + (n - 65536) div 1024) @ json_u (56320 + (n - 65536) mod 1024))"

definition json_string :: "string \<Rightarrow> string" where
  "json_string s = [double_quote] @ concat (map json_escape (code_points (map of_char s))) @ [double_quote]"

section \<open>Values\<close>

fun join :: "string \<Rightarrow> string list \<Rightarrow> string" where
  "join sep [] = []"
| "join sep [x] = x"
| "join sep (x # y # ys) = x @ sep @ join sep (y # ys)"

fun json_float :: "(rat \<Rightarrow> string) \<Rightarrow> pyfloat \<Rightarrow> string" where
  "json_float frepr (Fin r) = frepr r"
| "json_float frepr PosInf = ''Infinity''"
| "json_float frepr NegInf = ''-Infinity''"
| "json_float frepr NaN = ''NaN''"

definition json_object :: "string \<Rightarrow> string \<Rightarrow> (string, string) dict \<Rightarrow> string" where
  "json_object isep ksep d =
     ''{'' @ join isep (map (\<lambda>(k, t). json_string k @ ksep @ t) (sort_key fst d)) @ ''}''"

primrec json_dumps :: "string \<Rightarrow> string \<Rightarrow> (rat \<Rightarrow> string) \<Rightarrow> pyval \<Rightarrow> string" where
  "json_dumps isep ksep frepr PNone = ''null''"
| "json_dumps isep ksep frepr (PBool b) = (if b then ''true'' else ''false'')"
| "json_dumps isep ksep frepr (PInt n) = str_int n"
| "json_dumps isep ksep frepr (PFloat x) = json_float frepr x"
| "json_dumps isep ksep frepr (PStr s) = json_string s"
| "json_dumps isep ksep frepr (PList xs) = ''['' @ join isep (map (json_dumps isep ksep frepr) xs) @ '']''"
| "json_dumps isep ksep frepr (PDict d) = json_object isep ksep (map (map_prod id (json_dumps isep ksep frepr)) d)"

section \<open>The parts of the text are printable ASCII\<close>

definition printable :: "string \<Rightarrow> bool" where
  "printable s \<longleftrightarrow> list_all (\<lambda>c. 32 \<le> (of_char c :: nat) \<and> (of_char c :: nat) \<le> 126) s"

lemma printable_simps [simp]:
  "printable []" "printable (c # s) \<longleftrightarrow> 32 \<le> (of_char c :: nat) \<and> (of_char c :: nat) \<le> 126 \<and> printable s"
  "printable (s @ t) \<longleftrightarrow> printable s \<and> printable t"
  by (auto simp: printable_def)

lemma printable_concat: "(\<And>s. s \<in> set ss \<Longrightarrow> printable s) \<Longrightarrow> printable (concat ss)"
  by (induction ss) auto

lemma printable_join: "printable sep \<Longrightarrow> (\<And>s. s \<in> set ss \<Longrightarrow> printable s) \<Longrightarrow> printable (join sep ss)"
  by (induction sep ss rule: join.induct) auto

lemma printable_hex_digit [simp]: "d < 16 \<Longrightarrow> 32 \<le> (of_char (hex_digit d) :: nat) \<and> (of_char (hex_digit d) :: nat) \<le> 126"
  by (simp add: hex_digit_def)

lemma printable_json_u: "n < 65536 \<Longrightarrow> printable (json_u n)"
proof -
  assume "n < 65536"
  then have "n div 4096 < 16" by simp
  then show ?thesis by (simp add: json_u_def backslash_def)
qed

text \<open>The largest code point that four bytes can spell, well formed or not, has two surrogates.\<close>

lemma code_points_3:
  assumes "n \<in> set (code_points (a # as))" and "224 \<le> a" and "a < 240" and "\<forall>x \<in> set (a # as). x < 256"
  shows "n < 8000000 \<or> n \<in> set (code_points (drop 2 as))"
proof (cases "\<exists>b c cs. as = b # c # cs")
  case True
  then obtain b c cs where as: "as = b # c # cs" by blast
  with assms have "n = (a - 224) * 4096 + (b - 128) * 64 + (c - 128) \<or> n \<in> set (code_points cs)"
    "b < 256" "c < 256" by auto
  then have "n < 8000000 \<or> n \<in> set (code_points cs)" using assms(2,3) by linarith
  with as show ?thesis by simp
next
  case False
  with assms(1-3) have "n \<in> set (a # as)" by (auto split: list.splits)
  with assms(4) show ?thesis by fastforce
qed

lemma code_points_4:
  assumes "n \<in> set (code_points (a # as))" and "240 \<le> a" and "\<forall>x \<in> set (a # as). x < 256"
  shows "n < 8000000 \<or> n \<in> set (code_points (drop 3 as))"
proof (cases "\<exists>b c d ds. as = b # c # d # ds")
  case True
  then obtain b c e ds where as: "as = b # c # e # ds" by blast
  with assms have n: "n = (a - 240) * 262144 + (b - 128) * 4096 + (c - 128) * 64 + (e - 128) \<or>
      n \<in> set (code_points ds)" and "a < 256" "b < 256" "c < 256" "e < 256" by auto
  then have "(a - 240) * 262144 \<le> 15 * 262144" "(b - 128) * 4096 \<le> 128 * 4096" "(c - 128) * 64 \<le> 128 * 64"
    by (intro mult_le_mono1; linarith)+
  moreover have "e - 128 \<le> 128" using \<open>e < 256\<close> by simp
  ultimately have "n < 8000000 \<or> n \<in> set (code_points ds)" using n by linarith
  with as show ?thesis by simp
next
  case False
  with assms(1,2) have "n \<in> set (a # as)" by (auto split: list.splits)
  with assms(3) show ?thesis by fastforce
qed

lemma code_points_head:
  assumes "n \<in> set (code_points (a # as))" and "\<forall>x \<in> set (a # as). x < 256"
  shows "n < 8000000 \<or> (\<exists>k. n \<in> set (code_points (drop k as)))"
proof -
  consider "a < 128" | "128 \<le> a" "a < 224" | "224 \<le> a" "a < 240" | "240 \<le> a" by linarith
  then show ?thesis
  proof cases
    case 1
    with assms(1) have "n < 8000000 \<or> n \<in> set (code_points (drop 0 as))" by auto
    then show ?thesis by blast
  next
    case 2
    show ?thesis
    proof (cases as)
      case Nil
      with 2 assms show ?thesis by auto
    next
      case (Cons b bs)
      with 2 assms have "n = (a - 192) * 64 + (b - 128) \<or> n \<in> set (code_points bs)" "b < 256" by auto
      then have "n < 8000000 \<or> n \<in> set (code_points bs)" using 2 by linarith
      moreover have "drop 1 as = bs" using Cons by simp
      ultimately show ?thesis by metis
    qed
  qed (use code_points_3 [OF assms(1)] code_points_4 [OF assms(1)] assms(2) in blast)+
qed

lemma code_points_bound: "\<forall>a \<in> set as. a < 256 \<Longrightarrow> n \<in> set (code_points as) \<Longrightarrow> n < 8000000"
proof (induction "length as" arbitrary: as rule: less_induct)
  case less
  show ?case
  proof (cases as)
    case Nil
    with less.prems show ?thesis by simp
  next
    case (Cons a bs)
    from code_points_head [of n a bs] less.prems Cons consider "n < 8000000"
      | k where "n \<in> set (code_points (drop k bs))" by blast
    then show ?thesis
    proof cases
      case 2
      moreover have "\<forall>a \<in> set (drop k bs). a < 256" using less.prems(1) Cons by (auto dest: in_set_dropD)
      moreover have "length (drop k bs) < length as" using Cons by simp
      ultimately show ?thesis using less.hyps by blast
    qed
  qed
qed

lemma printable_json_escape: "n < 8000000 \<Longrightarrow> printable (json_escape n)"
proof -
  assume n: "n < 8000000"
  then have "55296 + (n - 65536) div 1024 < 65536" "56320 + (n - 65536) mod 1024 < 65536" by simp_all
  then have "printable (json_u (55296 + (n - 65536) div 1024) @ json_u (56320 + (n - 65536) mod 1024))"
    by (simp add: printable_json_u)
  then show ?thesis
    by (auto simp: json_escape_def backslash_def double_quote_def printable_json_u)
qed

lemma printable_json_string [simp]: "printable (json_string s)"
proof -
  have "\<forall>a \<in> set (map of_char s). a < (256 :: nat)" by simp
  then have "printable (json_escape n)" if "n \<in> set (code_points (map of_char s))" for n
    using that code_points_bound printable_json_escape by blast
  then have "printable (concat (map json_escape (code_points (map of_char s))))"
    by (intro printable_concat) auto
  then show ?thesis by (simp add: json_string_def double_quote_def)
qed

lemma printable_str_int [simp]: "printable (str_int n)"
proof -
  have "printable (str_nat k)" for k
    using str_nat_digits [of k] unfolding printable_def list_all_iff by fastforce
  then show ?thesis by (simp add: str_int_def)
qed

end
