(* ===== verification/Restore.thy ===== *)
theory Restore
  imports Storage_Registry Json_Text
begin

text \<open>
  \<^verbatim>\<open>gaia_server/restore/orchestrator.py\<close>: the restore sequence. \<open>RestoreManifest\<close>, \<open>RestorePath\<close> and
  \<open>TrustClass\<close> belong to \<^verbatim>\<open>gaia_core\<close>: the orchestrator reads the fields below, and what turns
  a manifest to bytes, to a wire dictionary and a trust class to its text is the parameter
  \<open>wire\<close>, with the hash function. Shown: what a completed restore has verified, that the metadata
  store changes in one entry and only after every check, that a restore that meets the conditions
  completes when the backends work, and that a split-brain token is spent once.
\<close>

section \<open>Manifests\<close>

datatype restore_path =
    CROSS_HOST
  | K8S_STATEFUL_RESTORE
  | QUARANTINED_FOREIGN_HOST
  | CRIU_MIGRATION
  | OtherPath string

datatype trust_class = DEGRADED | QUARANTINED | OtherTrust string

record restore_manifest =
  rm_manifest_id :: string
  rm_checkpoint_id :: string
  rm_node_id :: string
  rm_restore_path :: restore_path
  rm_requested_trust_class :: trust_class
  rm_manifest_hash :: "string option"
  rm_state_hash :: "string option"
  rm_payload_hash :: "string option"
  rm_causal_cursor :: "string option"
  rm_attestation_ref :: "string option"
  rm_admissibility_policy_ref :: "string option"
  rm_split_brain_token :: "string option"

record restore_wire =
  rw_decode :: "bytes \<Rightarrow> py_exn + restore_manifest"
  rw_to_wire :: "restore_manifest \<Rightarrow> pydict"
  rw_trust_text :: "trust_class \<Rightarrow> string"
  rw_sha256 :: "bytes \<Rightarrow> string"
  rw_float_text :: "rat \<Rightarrow> string"

record restore_result =
  rr_manifest_id :: string
  rr_node_id :: string
  rr_restore_path :: restore_path
  rr_events_replayed :: nat
  rr_granted_trust_class :: trust_class
  rr_payload :: bytes

definition MANIFEST_PREFIX :: string where
  "MANIFEST_PREFIX = ''manifests''"

definition TRUST_PREFIX :: string where
  "TRUST_PREFIX = ''nodes''"

definition ATTESTATION_PREFIX :: string where
  "ATTESTATION_PREFIX = ''attestations''"

definition manifest_entry :: "string \<Rightarrow> string" where
  "manifest_entry manifest_id = MANIFEST_PREFIX @ ''/'' @ manifest_id"

definition attestation_entry :: "string \<Rightarrow> string" where
  "attestation_entry ref = ATTESTATION_PREFIX @ ''/'' @ ref"

definition trust_key :: "restore_manifest \<Rightarrow> string" where
  "trust_key manifest = TRUST_PREFIX @ ''/'' @ rm_node_id manifest @ ''/trust''"

text \<open>None of these keys begins with a slash, so the metadata store keeps them as they are.\<close>

lemma entry_norm [simp]:
  "lstrip CHR ''/'' (manifest_entry i) = manifest_entry i"
  "lstrip CHR ''/'' (attestation_entry r) = attestation_entry r"
  "lstrip CHR ''/'' (trust_key m) = trust_key m"
  by (simp_all add: manifest_entry_def attestation_entry_def trust_key_def MANIFEST_PREFIX_def
      ATTESTATION_PREFIX_def TRUST_PREFIX_def lstrip_def)

lemma trust_key_other [simp]:
  "trust_key m \<noteq> manifest_entry i" "trust_key m \<noteq> attestation_entry r"
  by (simp_all add: manifest_entry_def attestation_entry_def trust_key_def MANIFEST_PREFIX_def
      ATTESTATION_PREFIX_def TRUST_PREFIX_def)

section \<open>The steps\<close>

definition sha256_dict :: "restore_wire \<Rightarrow> pydict \<Rightarrow> string" where
  "sha256_dict wire d =
     rw_sha256 wire (encode (json_dumps '','' '':'' (rw_float_text wire) (PDict d)))"

definition load_manifest :: "'w storage_registry \<Rightarrow> restore_wire \<Rightarrow> string \<Rightarrow> ('w, restore_manifest) op" where
  "load_manifest reg wire manifest_id =
     opbind (etcd_get (reg_metadata reg) (manifest_entry manifest_id))
       (\<lambda>raw. case raw of
          None \<Rightarrow> opraise (ManifestError (ManifestNotFound manifest_id))
        | Some data \<Rightarrow>
            opbind (optry (oplift (rw_decode wire data))
                (\<lambda>exc. opraise (ManifestError (ManifestDeserialization exc))))
              (\<lambda>manifest.
                 if \<not> truthy_str (rm_manifest_hash manifest)
                 then opraise (ManifestError (ManifestUnsigned manifest_id))
                 else opret manifest))"

definition manifest_digest :: "restore_wire \<Rightarrow> restore_manifest \<Rightarrow> string" where
  "manifest_digest wire manifest =
     sha256_dict wire (filter (\<lambda>(k, v). k \<noteq> ''manifest_hash'') (rw_to_wire wire manifest))"

definition verify_hashes :: "restore_wire \<Rightarrow> restore_manifest \<Rightarrow> ('w, unit) op" where
  "verify_hashes wire manifest =
     (let computed = manifest_digest wire manifest in
      case rm_manifest_hash manifest of
        None \<Rightarrow> opraise (AttributeError ([single_quote] @ ''NoneType'' @ [single_quote] @
          '' object has no attribute '' @ [single_quote] @ ''endswith'' @ [single_quote]))
      | Some stored \<Rightarrow>
          if \<not> endswith stored computed
          then opraise (ManifestError (ManifestHashMismatch (rm_manifest_id manifest) computed stored))
          else opret ())"

definition attested_paths :: "restore_path set" where
  "attested_paths = {CROSS_HOST, K8S_STATEFUL_RESTORE, QUARANTINED_FOREIGN_HOST, CRIU_MIGRATION}"

definition verify_attestation :: "'w storage_registry \<Rightarrow> restore_manifest \<Rightarrow> ('w, unit) op" where
  "verify_attestation reg manifest =
     (if rm_restore_path manifest \<in> attested_paths \<and> \<not> truthy_str (rm_attestation_ref manifest)
      then opraise (AttestationError (AttestationRefMissing (rm_manifest_id manifest)))
      else if truthy_str (rm_attestation_ref manifest)
      then opbind (etcd_get (reg_metadata reg)
             (attestation_entry (str_val (rm_attestation_ref manifest))))
           (\<lambda>raw. case raw of
              None \<Rightarrow> opraise (AttestationError (AttestationNotFound (str_val (rm_attestation_ref manifest))))
            | Some _ \<Rightarrow> opret ())
      else opret ())"

definition fetch_payload :: "'w storage_registry \<Rightarrow> restore_wire \<Rightarrow> restore_manifest \<Rightarrow> ('w, bytes) op" where
  "fetch_payload reg wire manifest =
     opbind (get_checkpoint (reg_checkpoints reg) (rm_checkpoint_id manifest))
       (\<lambda>(ref, payload).
          if truthy_str (rm_payload_hash manifest)
             \<and> ''sha256:'' @ rw_sha256 wire payload \<noteq> str_val (rm_payload_hash manifest)
          then opraise (ManifestError (PayloadHashMismatch (rm_checkpoint_id manifest)
                 (''sha256:'' @ rw_sha256 wire payload) (str_val (rm_payload_hash manifest))))
          else opret payload)"

definition REPLAY_STREAM :: string where
  "REPLAY_STREAM = ''gaia-checkpoints''"

definition replay_events :: "'w storage_registry \<Rightarrow> restore_manifest \<Rightarrow> string \<Rightarrow> ('w, nat) op" where
  "replay_events reg manifest stream =
     (if \<not> truthy_str (rm_causal_cursor manifest) then opret 0
      else case py_int (remove_all ''seq:'' (str_val (rm_causal_cursor manifest))) of
        None \<Rightarrow> opraise (CausalReplayError (CursorFormat (str_val (rm_causal_cursor manifest))))
      | Some after_seq \<Rightarrow>
          opbind (read_events (reg_events reg) stream (Some after_seq) 1000)
            (\<lambda>events.
               if events = []
               then opraise (CausalReplayError (NoEventsAfterCursor
                      (str_val (rm_causal_cursor manifest)) (rm_manifest_id manifest)))
               else opret (length events)))"

definition check_criu_invariant :: "restore_manifest \<Rightarrow> ('w, unit) op" where
  "check_criu_invariant manifest =
     (if rm_restore_path manifest = CRIU_MIGRATION \<and> \<not> truthy_str (rm_admissibility_policy_ref manifest)
      then opraise (ManifestError CriuNotPolicyGated)
      else opret ())"

definition granted_trust :: "restore_manifest \<Rightarrow> trust_class" where
  "granted_trust manifest =
     (if rm_restore_path manifest \<in> {CROSS_HOST, K8S_STATEFUL_RESTORE, CRIU_MIGRATION} then DEGRADED
      else if rm_restore_path manifest = QUARANTINED_FOREIGN_HOST then QUARANTINED
      else rm_requested_trust_class manifest)"

definition promote_trust :: "'w storage_registry \<Rightarrow> restore_wire \<Rightarrow> restore_manifest \<Rightarrow> ('w, trust_class) op" where
  "promote_trust reg wire manifest =
     (let granted = granted_trust manifest;
          new_value = encode (rw_trust_text wire granted)
      in opbind
           (if truthy_str (rm_split_brain_token manifest)
            then opbind (etcd_compare_and_swap (reg_metadata reg) (trust_key manifest)
                   (encode (str_val (rm_split_brain_token manifest))) new_value)
                 (\<lambda>swapped. if \<not> swapped then opraise (TrustPromotionError (rm_node_id manifest))
                            else opret ())
            else etcd_put (reg_metadata reg) (trust_key manifest) new_value None)
           (\<lambda>_. opret granted))"

definition restore :: "'w storage_registry \<Rightarrow> restore_wire \<Rightarrow> string \<Rightarrow> ('w, restore_result) op" where
  "restore reg wire manifest_id =
     opbind (load_manifest reg wire manifest_id) (\<lambda>manifest.
     opbind (verify_hashes wire manifest) (\<lambda>_.
     opbind (verify_attestation reg manifest) (\<lambda>_.
     opbind (fetch_payload reg wire manifest) (\<lambda>payload.
     opbind (replay_events reg manifest REPLAY_STREAM) (\<lambda>events_replayed.
     opbind (check_criu_invariant manifest) (\<lambda>_.
     opbind (promote_trust reg wire manifest) (\<lambda>granted.
       opret \<lparr>rr_manifest_id = manifest_id, rr_node_id = rm_node_id manifest,
              rr_restore_path = rm_restore_path manifest, rr_events_replayed = events_replayed,
              rr_granted_trust_class = granted, rr_payload = payload\<rparr>)))))))"

section \<open>What a restore demands\<close>

text \<open>
  The contract of a restore, over what the services hold: \<open>meta\<close> for the metadata entries, the two
  objects of the checkpoint, and the stored events after a sequence number.
\<close>

definition manifest_admissible ::
    "restore_wire \<Rightarrow> (string \<Rightarrow> bytes option) \<Rightarrow> string \<Rightarrow> restore_manifest \<Rightarrow> bool" where
  "manifest_admissible wire meta manifest_id m \<longleftrightarrow>
     (\<exists>raw. meta (manifest_entry manifest_id) = Some raw \<and> rw_decode wire raw = Inr m) \<and>
     (\<exists>stored. rm_manifest_hash m = Some stored \<and> stored \<noteq> [] \<and> endswith stored (manifest_digest wire m)) \<and>
     (rm_restore_path m \<in> attested_paths \<longrightarrow> truthy_str (rm_attestation_ref m)) \<and>
     (truthy_str (rm_attestation_ref m) \<longrightarrow> meta (attestation_entry (str_val (rm_attestation_ref m))) \<noteq> None) \<and>
     (rm_restore_path m = CRIU_MIGRATION \<longrightarrow> truthy_str (rm_admissibility_policy_ref m))"

definition payload_admissible ::
    "ref_codec \<Rightarrow> restore_wire \<Rightarrow> bytes option \<times> bytes option \<Rightarrow> restore_manifest \<Rightarrow> bytes \<Rightarrow> bool" where
  "payload_admissible codec wire objects m payload \<longleftrightarrow>
     (\<exists>d ref. objects = (Some d, Some payload) \<and> dec_ref codec d = Inr ref) \<and>
     (truthy_str (rm_payload_hash m) \<longrightarrow> rm_payload_hash m = Some (''sha256:'' @ rw_sha256 wire payload))"

definition cursor_sequence :: "restore_manifest \<Rightarrow> int option" where
  "cursor_sequence m = py_int (remove_all ''seq:'' (str_val (rm_causal_cursor m)))"

definition tail_admissible :: "(int \<Rightarrow> bytes list) \<Rightarrow> restore_manifest \<Rightarrow> nat \<Rightarrow> bool" where
  "tail_admissible stored m n \<longleftrightarrow>
     (if \<not> truthy_str (rm_causal_cursor m) then n = 0
      else \<exists>after. cursor_sequence m = Some after \<and> 0 < n \<and> n \<le> 1000 \<and> n \<le> length (stored after))"

text \<open>The checks of a restore, up to the promotion.\<close>

definition verified :: "'w storage_registry \<Rightarrow> restore_wire \<Rightarrow> string
    \<Rightarrow> ('w, restore_manifest \<times> bytes \<times> nat) op" where
  "verified reg wire manifest_id =
     opbind (load_manifest reg wire manifest_id) (\<lambda>m.
     opbind (verify_hashes wire m) (\<lambda>_.
     opbind (verify_attestation reg m) (\<lambda>_.
     opbind (fetch_payload reg wire m) (\<lambda>payload.
     opbind (replay_events reg m REPLAY_STREAM) (\<lambda>n.
     opbind (check_criu_invariant m) (\<lambda>_. opret (m, payload, n)))))))"

definition result_of :: "string \<Rightarrow> restore_manifest \<Rightarrow> bytes \<Rightarrow> nat \<Rightarrow> restore_result" where
  "result_of manifest_id m payload n =
     \<lparr>rr_manifest_id = manifest_id, rr_node_id = rm_node_id m, rr_restore_path = rm_restore_path m,
      rr_events_replayed = n, rr_granted_trust_class = granted_trust m, rr_payload = payload\<rparr>"

lemma opbind_assoc: "opbind (opbind m k) h = opbind m (\<lambda>x. opbind (k x) h)"
  by (auto simp: opbind_def fun_eq_iff split: prod.split sum.split)

lemma promote_trust_value:
  "promote_trust reg wire m w = (Inr g, w') \<Longrightarrow> g = granted_trust m"
  by (auto simp: promote_trust_def Let_def elim!: opbind_InrE)

lemma restore_split:
  "restore reg wire i =
     opbind (verified reg wire i) (\<lambda>(m, payload, n).
       opbind (promote_trust reg wire m) (\<lambda>_. opret (result_of i m payload n)))"
proof -
  have p: "opbind (promote_trust reg wire m) (\<lambda>granted. opret \<lparr>rr_manifest_id = i,
        rr_node_id = rm_node_id m, rr_restore_path = rm_restore_path m, rr_events_replayed = n,
        rr_granted_trust_class = granted, rr_payload = payload\<rparr>) =
      opbind (promote_trust reg wire m) (\<lambda>_. opret (result_of i m payload n))" for m payload n
    by (auto simp: opbind_def fun_eq_iff result_of_def dest: promote_trust_value
        split: prod.split sum.split)
  show ?thesis
    by (simp add: restore_def verified_def opbind_assoc p del: opret_apply)
qed

section \<open>The steps keep the metadata\<close>

abbreviation meta_of :: "'w storage_registry \<Rightarrow> ('w \<Rightarrow> string \<Rightarrow> bytes option) \<Rightarrow> 'w \<Rightarrow> string \<Rightarrow> bytes option" where
  "meta_of reg view \<equiv> etcd_kv (reg_metadata reg) view"

lemma etcd_get_keeps: "etcd_client_ok (es_client s) view \<Longrightarrow> op_keeps view (etcd_get s k)"
  unfolding op_keeps_def etcd_get_def by (metis ec_get_frame prod.collapse)

lemma load_manifest_keeps:
  assumes "op_keeps v (etcd_get (reg_metadata reg) (manifest_entry i))"
  shows "op_keeps v (load_manifest reg wire i)"
  unfolding load_manifest_def
proof (rule op_keeps_opbind [OF assms], split option.split, intro conjI allI impI)
  show "op_keeps v (opraise (ManifestError (ManifestNotFound i)))" by (rule op_keeps_opraise)
  fix data
  show "op_keeps v (opbind (optry (oplift (rw_decode wire data))
      (\<lambda>exc. opraise (ManifestError (ManifestDeserialization exc))))
      (\<lambda>m. if \<not> truthy_str (rm_manifest_hash m) then opraise (ManifestError (ManifestUnsigned i)) else opret m))"
    by (rule op_keeps_opbind, rule op_keeps_opcatch)
      (simp_all del: opret_apply opraise_apply oplift_apply)
qed

lemma verify_hashes_pure: "snd (verify_hashes wire m w) = w"
  by (simp add: verify_hashes_def Let_def split: option.split)

lemma check_criu_pure: "snd (check_criu_invariant m w) = w"
  by (simp add: check_criu_invariant_def)

lemma verify_attestation_keeps:
  assumes "op_keeps v (etcd_get (reg_metadata reg) (attestation_entry (str_val (rm_attestation_ref m))))"
  shows "op_keeps v (verify_attestation reg m)"
  using assms unfolding verify_attestation_def
  by (auto intro!: op_keeps_opbind split: option.split simp del: opret_apply opraise_apply)

lemma fetch_payload_keeps:
  assumes "op_keeps v (get_checkpoint (reg_checkpoints reg) (rm_checkpoint_id m))"
  shows "op_keeps v (fetch_payload reg wire m)"
  unfolding fetch_payload_def
  by (rule op_keeps_opbind [OF assms]) (auto split: prod.split simp del: opret_apply opraise_apply)

lemma replay_events_keeps:
  assumes "\<And>stream after limit. op_keeps v (read_events (reg_events reg) stream after limit)"
  shows "op_keeps v (replay_events reg m stream)"
  unfolding replay_events_def
  by (auto intro!: op_keeps_opbind [OF assms] split: option.split simp del: opret_apply opraise_apply)

text \<open>Reading off what each step has checked, in the world before it.\<close>

lemma load_manifest_value:
  assumes ok: "etcd_client_ok (es_client (reg_metadata reg)) view"
    and run: "load_manifest reg wire i w = (Inr m, w')"
  shows "view w' = view w"
    and "(\<exists>raw. meta_of reg view w (manifest_entry i) = Some raw \<and> rw_decode wire raw = Inr m)"
    and "truthy_str (rm_manifest_hash m)"
proof -
  let ?k = "manifest_entry i"
  from run obtain raw w1 where get: "etcd_get (reg_metadata reg) ?k w = (Inr raw, w1)"
    and rest: "(case raw of None \<Rightarrow> opraise (ManifestError (ManifestNotFound i))
      | Some data \<Rightarrow> opbind (optry (oplift (rw_decode wire data))
          (\<lambda>exc. opraise (ManifestError (ManifestDeserialization exc))))
          (\<lambda>m. if \<not> truthy_str (rm_manifest_hash m) then opraise (ManifestError (ManifestUnsigned i))
             else opret m)) w1 = (Inr m, w')"
    unfolding load_manifest_def by (rule opbind_InrE)
  obtain data where raw: "raw = Some data" using rest by (cases raw) auto
  with rest have d: "rw_decode wire data = Inr m \<and> truthy_str (rm_manifest_hash m) \<and> w' = w1"
    by (auto simp: opbind_def opcatch_def split: sum.splits if_splits)
  have meta: "raw = meta_of reg view w (etcd_norm ?k)"
    using ec_get_value [OF ok] get unfolding etcd_get_def etcd_kv_at by blast
  show "view w' = view w" using ec_get_frame [OF ok] get d unfolding etcd_get_def by blast
  show "\<exists>raw. meta_of reg view w (manifest_entry i) = Some raw \<and> rw_decode wire raw = Inr m"
    using meta raw d by - (rule exI [of _ data], simp)
  show "truthy_str (rm_manifest_hash m)" using d by simp
qed

lemma verify_hashes_value:
  "verify_hashes wire m w = (Inr u, w') \<Longrightarrow>
     w' = w \<and> (\<exists>stored. rm_manifest_hash m = Some stored \<and> endswith stored (manifest_digest wire m))"
  by (auto simp: verify_hashes_def Let_def split: option.splits if_splits)

lemma verify_attestation_value:
  assumes ok: "etcd_client_ok (es_client (reg_metadata reg)) view"
    and run: "verify_attestation reg m w = (Inr u, w')"
  shows "rm_restore_path m \<in> attested_paths \<Longrightarrow> truthy_str (rm_attestation_ref m)"
    and "truthy_str (rm_attestation_ref m) \<Longrightarrow>
      meta_of reg view w (attestation_entry (str_val (rm_attestation_ref m))) \<noteq> None"
proof -
  let ?k = "attestation_entry (str_val (rm_attestation_ref m))"
  show "rm_restore_path m \<in> attested_paths \<Longrightarrow> truthy_str (rm_attestation_ref m)"
    using run by (auto simp: verify_attestation_def split: if_splits)
  assume t: "truthy_str (rm_attestation_ref m)"
  with run have "opbind (etcd_get (reg_metadata reg) ?k) (\<lambda>raw. case raw of
      None \<Rightarrow> opraise (AttestationError (AttestationNotFound (str_val (rm_attestation_ref m))))
    | Some _ \<Rightarrow> opret ()) w = (Inr u, w')" unfolding verify_attestation_def by simp
  then obtain raw w1 where get: "etcd_get (reg_metadata reg) ?k w = (Inr raw, w1)"
    and "(case raw of None \<Rightarrow> opraise (AttestationError (AttestationNotFound (str_val (rm_attestation_ref m))))
      | Some _ \<Rightarrow> opret ()) w1 = (Inr u, w')" by (rule opbind_InrE)
  then have "raw \<noteq> None" by (cases raw) auto
  moreover have "raw = meta_of reg view w (etcd_norm ?k)"
    using ec_get_value [OF ok] get unfolding etcd_get_def etcd_kv_at by blast
  ultimately show "meta_of reg view w (attestation_entry (str_val (rm_attestation_ref m))) \<noteq> None" by simp
qed

lemma fetch_payload_value:
  assumes ok: "minio_client_ok (ms_client (reg_checkpoints reg)) oview"
    and run: "fetch_payload reg wire m w = (Inr payload, w')"
  shows "payload_admissible (ms_codec (reg_checkpoints reg)) wire
     (checkpoint_objects (reg_checkpoints reg) oview w (rm_checkpoint_id m)) m payload"
proof -
  from run obtain ref p w1 where get: "get_checkpoint (reg_checkpoints reg) (rm_checkpoint_id m) w = (Inr (ref, p), w1)"
    and p: "p = payload" "truthy_str (rm_payload_hash m) \<longrightarrow>
      ''sha256:'' @ rw_sha256 wire p = str_val (rm_payload_hash m)"
    unfolding fetch_payload_def by (auto elim!: opbind_InrE split: if_splits)
  from get_checkpoint_value(1) [OF ok get] p show ?thesis
    by (auto simp: payload_admissible_def dest: truthy_str_cases)
qed

lemma replay_events_value:
  assumes ok: "js_client_ok (jes_client (reg_events reg)) msgs"
    and run: "replay_events reg m stream w = (Inr n, w')"
  shows "tail_admissible (\<lambda>after. stored_after msgs w stream (Some after)) m n"
proof (cases "truthy_str (rm_causal_cursor m)")
  case False
  with run show ?thesis by (simp add: replay_events_def tail_admissible_def)
next
  case True
  with run obtain after where after: "cursor_sequence m = Some after"
    by (auto simp: replay_events_def cursor_sequence_def split: option.splits)
  with True run obtain evs w1 where
    evs: "read_events (reg_events reg) stream (Some after) 1000 w = (Inr evs, w1)" "evs \<noteq> []" "n = length evs"
    by (auto simp: replay_events_def cursor_sequence_def elim!: opbind_InrE split: if_splits)
  from read_events_prefix [OF ok evs(1)] evs(2,3)
  have "0 < n \<and> n \<le> 1000 \<and> n \<le> length (stored_after msgs w stream (Some after))"
    by (auto dest: list_all2_lengthD)
  with True after show ?thesis by (auto simp: tail_admissible_def)
qed

lemma check_criu_value:
  "check_criu_invariant m w = (Inr u, w') \<Longrightarrow>
     w' = w \<and> (rm_restore_path m = CRIU_MIGRATION \<longrightarrow> truthy_str (rm_admissibility_policy_ref m))"
  by (auto simp: check_criu_invariant_def split: if_splits)

section \<open>The checks and the promotion\<close>

lemma verified_keeps:
  assumes ok: "etcd_client_ok (es_client (reg_metadata reg)) view" and sep: "backends_separate reg view"
  shows "op_keeps view (verified reg wire i)"
proof -
  note get = etcd_get_keeps [OF ok]
  have read: "op_keeps view (read_events (reg_events reg) stream after limit)" for stream after limit
    unfolding op_keeps_def by (metis read_events_keeps [OF sep] prod.collapse)
  have "op_keeps view (verify_hashes wire m)" "op_keeps view (check_criu_invariant m)" for m
    by (simp_all add: op_keeps_def verify_hashes_pure check_criu_pure)
  then show ?thesis
    unfolding verified_def
    by (intro op_keeps_opbind load_manifest_keeps verify_attestation_keeps fetch_payload_keeps
        replay_events_keeps op_keeps_opret get read get_checkpoint_keeps [OF sep])
qed

lemma verified_sound:
  assumes ec: "etcd_client_ok (es_client (reg_metadata reg)) view"
    and mc: "minio_client_ok (ms_client (reg_checkpoints reg)) oview"
    and js: "js_client_ok (jes_client (reg_events reg)) msgs"
    and sep: "services_separate reg view oview msgs"
    and run: "verified reg wire i w = (Inr (m, payload, n), w')"
  shows "manifest_admissible wire (meta_of reg view w) i m"
    and "payload_admissible (ms_codec (reg_checkpoints reg)) wire
      (checkpoint_objects (reg_checkpoints reg) oview w (rm_checkpoint_id m)) m payload"
    and "tail_admissible (\<lambda>after. stored_after msgs w REPLAY_STREAM (Some after)) m n"
proof -
  from run obtain w1 w2 w3 w4 w5 u1 u2 u3 where
    1: "load_manifest reg wire i w = (Inr m, w1)" and
    2: "verify_hashes wire m w1 = (Inr u1, w2)" and
    3: "verify_attestation reg m w2 = (Inr u2, w3)" and
    4: "fetch_payload reg wire m w3 = (Inr payload, w4)" and
    5: "replay_events reg m REPLAY_STREAM w4 = (Inr n, w5)" and
    6: "check_criu_invariant m w5 = (Inr u3, w')"
    unfolding verified_def by (auto elim!: opbind_InrE)
  have eo: "op_keeps oview (etcd_get (reg_metadata reg) k)"
    and em: "op_keeps msgs (etcd_get (reg_metadata reg) k)" for k
    using sep by (simp_all add: services_separate_def op_keeps_def etcd_get_def)
  have o: "oview w3 = oview w"
    using op_keepsD [OF load_manifest_keeps [OF eo] 1] verify_hashes_value [OF 2]
      op_keepsD [OF verify_attestation_keeps [OF eo] 3] by simp
  have g: "msgs w4 = msgs w"
    using op_keepsD [OF load_manifest_keeps [OF em] 1] verify_hashes_value [OF 2]
      op_keepsD [OF verify_attestation_keeps [OF em] 3]
      op_keepsD [OF fetch_payload_keeps [OF get_checkpoint_keeps_msgs [OF sep]] 4] by simp
  have v: "meta_of reg view w2 = meta_of reg view w"
    using load_manifest_value(1) [OF ec 1] verify_hashes_value [OF 2]
    by (intro etcd_kv_same) simp
  from load_manifest_value(2,3) [OF ec 1] verify_hashes_value [OF 2] verify_attestation_value [OF ec 3]
    check_criu_value [OF 6] v
  show "manifest_admissible wire (meta_of reg view w) i m"
    unfolding manifest_admissible_def by (auto dest: truthy_str_cases)
  from fetch_payload_value [OF mc 4] o
  show "payload_admissible (ms_codec (reg_checkpoints reg)) wire
      (checkpoint_objects (reg_checkpoints reg) oview w (rm_checkpoint_id m)) m payload"
    by (simp add: checkpoint_objects_def)
  from replay_events_value [OF js 5] g
  show "tail_admissible (\<lambda>after. stored_after msgs w REPLAY_STREAM (Some after)) m n"
    by (simp add: stored_after_def)
qed

lemma promote_trust_cases:
  assumes ok: "etcd_client_ok (es_client (reg_metadata reg)) view"
    and run: "promote_trust reg wire m w = (r, w')"
  shows "meta_of reg view w' = meta_of reg view w \<and> (\<exists>e. r = Inl e) \<or>
     meta_of reg view w' = (meta_of reg view w)(trust_key m \<mapsto> encode (rw_trust_text wire (granted_trust m))) \<and>
     (truthy_str (rm_split_brain_token m) \<longrightarrow>
        meta_of reg view w (trust_key m) = Some (encode (str_val (rm_split_brain_token m))))"
proof -
  let ?step = "if truthy_str (rm_split_brain_token m)
     then opbind (etcd_compare_and_swap (reg_metadata reg) (trust_key m)
            (encode (str_val (rm_split_brain_token m))) (encode (rw_trust_text wire (granted_trust m))))
          (\<lambda>swapped. if \<not> swapped then opraise (TrustPromotionError (rm_node_id m)) else opret ())
     else etcd_put (reg_metadata reg) (trust_key m) (encode (rw_trust_text wire (granted_trust m))) None"
  obtain q w1 where q: "?step w = (q, w1)" by fastforce
  have p: "promote_trust reg wire m = opbind ?step (\<lambda>_. opret (granted_trust m))"
    unfolding promote_trust_def Let_def ..
  have "w' = w1" "\<And>e. q = Inl e \<Longrightarrow> r = Inl e" using run q unfolding p by (cases q; simp add: opbind_def)+
  with coordination_backend.guarded_write [OF etcd_backend [OF ok] q] show ?thesis by auto
qed

lemma restore_cases:
  assumes "restore reg wire i w = (r, w')"
  obtains (refused) e where "r = Inl e" and "verified reg wire i w = (Inl e, w')"
    | (promoted) m payload n q w1 where "verified reg wire i w = (Inr (m, payload, n), w1)"
        and "promote_trust reg wire m w1 = (q, w')"
        and "r = map_sum id (\<lambda>_. result_of i m payload n) q"
proof -
  obtain v w1 where v: "verified reg wire i w = (v, w1)" by fastforce
  show thesis
  proof (cases v)
    case (Inl e)
    with assms v refused [of e] show thesis by (simp add: restore_split opbind_Inl)
  next
    case (Inr x)
    obtain m payload n where x: "x = (m, payload, n)" by (cases x) auto
    obtain q w2 where q: "promote_trust reg wire m w1 = (q, w2)" by fastforce
    have "w' = w2 \<and> r = map_sum id (\<lambda>_. result_of i m payload n) q"
      using assms v Inr x q by (cases q) (auto simp: restore_split opbind_def)
    with promoted v Inr x q show thesis by blast
  qed
qed

lemma restore_effect:
  assumes ec: "etcd_client_ok (es_client (reg_metadata reg)) view" and sep: "backends_separate reg view"
    and run: "restore reg wire i w = (r, w')"
  shows "meta_of reg view w' = meta_of reg view w \<and> (\<exists>e. r = Inl e) \<or>
     (\<exists>m payload n w1. verified reg wire i w = (Inr (m, payload, n), w1) \<and>
        (\<forall>res. r = Inr res \<longrightarrow> res = result_of i m payload n) \<and>
        meta_of reg view w' = (meta_of reg view w)(trust_key m \<mapsto> encode (rw_trust_text wire (granted_trust m))) \<and>
        (truthy_str (rm_split_brain_token m) \<longrightarrow>
           meta_of reg view w (trust_key m) = Some (encode (str_val (rm_split_brain_token m)))))"
  using run
proof (cases rule: restore_cases)
  case (refused e)
  from op_keepsD [OF verified_keeps [OF ec sep] refused(2)] refused(1) show ?thesis
    by (auto intro: etcd_kv_same)
next
  case (promoted m payload n q w1)
  have v: "meta_of reg view w1 = meta_of reg view w"
    by (rule etcd_kv_same) (rule op_keepsD [OF verified_keeps [OF ec sep] promoted(1)])
  from promote_trust_cases [OF ec promoted(2)] show ?thesis
  proof (elim disjE conjE)
    assume "meta_of reg view w' = meta_of reg view w1" "\<exists>e. q = Inl e"
    with v promoted(3) show ?thesis by auto
  next
    assume "meta_of reg view w' = (meta_of reg view w1)(trust_key m \<mapsto> encode (rw_trust_text wire (granted_trust m)))"
      "truthy_str (rm_split_brain_token m) \<longrightarrow>
        meta_of reg view w1 (trust_key m) = Some (encode (str_val (rm_split_brain_token m)))"
    moreover have "\<forall>res. r = Inr res \<longrightarrow> res = result_of i m payload n"
      using promoted(3) by (cases q) auto
    ultimately show ?thesis using v promoted(1) by auto
  qed
qed

section \<open>Running the steps\<close>

text \<open>A metadata client whose calls do not fail.\<close>

definition etcd_reliable :: "'w etcd_client \<Rightarrow> ('w \<Rightarrow> string \<Rightarrow> bytes option) \<Rightarrow> bool" where
  "etcd_reliable c view \<longleftrightarrow> etcd_client_ok c view \<and>
     (\<forall>k w. \<exists>x w'. ec_get c k w = (Inr x, w')) \<and>
     (\<forall>k v l w. \<exists>w'. ec_put c k v l w = (Inr (), w')) \<and>
     (\<forall>cmp yes no w. \<exists>b w'. ec_transaction c cmp yes no w = (Inr b, w'))"

lemma etcd_reliableD:
  assumes "etcd_reliable c view"
  shows etcd_reliable_ok: "etcd_client_ok c view"
    and ec_get_runs: "\<exists>x w'. ec_get c k w = (Inr x, w')"
    and ec_put_runs: "\<exists>w'. ec_put c k v l w = (Inr (), w')"
    and ec_txn_runs: "\<exists>b w'. ec_transaction c cmp yes no w = (Inr b, w')"
  using assms unfolding etcd_reliable_def by simp_all

lemma mc_get_runs:
  assumes "minio_reliable c oview" and "oview w (b, k) \<noteq> None"
  shows "\<exists>d w'. mc_get_object c b k w = (Inr d, w')"
  using assms unfolding minio_reliable_def by simp

lemma etcd_get_runs:
  assumes "etcd_reliable (es_client s) view" and "etcd_kv s view w k = x" and "etcd_norm k = k"
  shows "\<exists>w'. etcd_get s k w = (Inr x, w')"
proof -
  obtain y w' where y: "etcd_get s k w = (Inr y, w')"
    using ec_get_runs [OF assms(1)] unfolding etcd_get_def by blast
  then have "y = etcd_kv s view w (etcd_norm k)"
    unfolding etcd_get_def etcd_kv_at by (rule ec_get_value [OF etcd_reliable_ok [OF assms(1)]])
  with y assms(2,3) show ?thesis by auto
qed

lemma load_manifest_runs:
  assumes "etcd_reliable (es_client (reg_metadata reg)) view"
    and "meta_of reg view w (manifest_entry i) = Some raw" and "rw_decode wire raw = Inr m"
    and "truthy_str (rm_manifest_hash m)"
  shows "\<exists>w'. load_manifest reg wire i w = (Inr m, w')"
  using etcd_get_runs [OF assms(1,2)] assms(3,4)
  by (auto simp: load_manifest_def opbind_Inr opcatch_def)

lemma verify_hashes_runs:
  assumes "rm_manifest_hash m = Some stored" and "endswith stored (manifest_digest wire m)"
  shows "verify_hashes wire m w = (Inr (), w)"
  using assms by (simp add: verify_hashes_def Let_def)

lemma verify_attestation_runs:
  assumes "etcd_reliable (es_client (reg_metadata reg)) view"
    and "rm_restore_path m \<in> attested_paths \<Longrightarrow> truthy_str (rm_attestation_ref m)"
    and "truthy_str (rm_attestation_ref m) \<Longrightarrow>
      meta_of reg view w (attestation_entry (str_val (rm_attestation_ref m))) \<noteq> None"
  shows "\<exists>w'. verify_attestation reg m w = (Inr (), w')"
proof (cases "truthy_str (rm_attestation_ref m)")
  case False
  with assms(2) show ?thesis by (auto simp: verify_attestation_def)
next
  case True
  with assms(3) obtain x where
    "meta_of reg view w (attestation_entry (str_val (rm_attestation_ref m))) = Some x" by blast
  from etcd_get_runs [OF assms(1) this] True show ?thesis
    by (auto simp: verify_attestation_def opbind_Inr)
qed

lemma fetch_payload_runs:
  assumes rel: "minio_reliable (ms_client (reg_checkpoints reg)) oview"
    and adm: "payload_admissible (ms_codec (reg_checkpoints reg)) wire
      (checkpoint_objects (reg_checkpoints reg) oview w (rm_checkpoint_id m)) m payload"
  shows "\<exists>w'. fetch_payload reg wire m w = (Inr payload, w')"
proof -
  let ?s = "reg_checkpoints reg" and ?i = "rm_checkpoint_id m"
  let ?c = "ms_client ?s" and ?b = "ms_bucket ?s"
  have ok: "minio_client_ok ?c oview" using rel by (simp add: minio_reliable_def)
  from adm obtain d ref where d: "oview w (?b, manifest_key ?i) = Some d"
    "oview w (?b, payload_key ?i) = Some payload" "dec_ref (ms_codec ?s) d = Inr ref"
    by (auto simp: payload_admissible_def checkpoint_objects_def)
  have runs: "\<exists>w2. mc_get_object ?c ?b k w1 = (Inr x, w2) \<and> oview w2 = oview w1"
    if x: "oview w1 (?b, k) = Some x" for k w1 x
  proof -
    obtain y w2 where y: "mc_get_object ?c ?b k w1 = (Inr y, w2)"
      using mc_get_runs [OF rel, of w1 ?b k] x by auto
    with x show ?thesis using mc_get_value [OF ok y] mc_get_frame [OF ok y] by simp
  qed
  from runs [OF d(1)] obtain w1 where 1: "mc_get_object ?c ?b (manifest_key ?i) w = (Inr d, w1)"
    "oview w1 = oview w" by blast
  from runs [of w1 "payload_key ?i" payload] 1(2) d(2) obtain w2 where
    2: "mc_get_object ?c ?b (payload_key ?i) w1 = (Inr payload, w2)" by auto
  have "get_checkpoint ?s ?i w = (Inr (ref, payload), w2)"
    using 1(1) 2 d(3) by (simp add: get_checkpoint_def opbind_def)
  then show ?thesis
    using adm by (auto simp: fetch_payload_def opbind_Inr payload_admissible_def dest: truthy_str_cases)
qed

definition events_expected :: "(int \<Rightarrow> bytes list) \<Rightarrow> restore_manifest \<Rightarrow> nat" where
  "events_expected stored m =
     (if \<not> truthy_str (rm_causal_cursor m) then 0
      else case cursor_sequence m of None \<Rightarrow> 0 | Some after \<Rightarrow> min 1000 (length (stored after)))"

text \<open>The tail after the cursor, if there is a cursor: not empty, and readable up to the limit.\<close>

definition tail_readable :: "event_codec \<Rightarrow> (int \<Rightarrow> bytes list) \<Rightarrow> restore_manifest \<Rightarrow> bool" where
  "tail_readable codec stored m \<longleftrightarrow>
     (truthy_str (rm_causal_cursor m) \<longrightarrow>
        (\<exists>after. cursor_sequence m = Some after \<and> stored after \<noteq> [] \<and>
           (\<forall>d \<in> set (take 1000 (stored after)). \<exists>e. dec_event codec d = Inr e)))"

lemma replay_events_runs:
  assumes rel: "js_reliable (jes_client (reg_events reg)) msgs"
    and tail: "tail_readable (jes_codec (reg_events reg)) (\<lambda>after. stored_after msgs w stream (Some after)) m"
  shows "\<exists>w'. replay_events reg m stream w =
     (Inr (events_expected (\<lambda>after. stored_after msgs w stream (Some after)) m), w')"
proof (cases "truthy_str (rm_causal_cursor m)")
  case False
  then show ?thesis by (simp add: replay_events_def events_expected_def)
next
  case True
  let ?dec = "dec_event (jes_codec (reg_events reg))"
  from tail True obtain after where after: "cursor_sequence m = Some after"
    and ne: "stored_after msgs w stream (Some after) \<noteq> []"
    and dec: "\<forall>d \<in> set (take 1000 (stored_after msgs w stream (Some after))). \<exists>e. ?dec d = Inr e"
    by (auto simp: tail_readable_def)
  from dec obtain f where "\<forall>d \<in> set (take (nat 1000) (stored_after msgs w stream (Some after))). ?dec d = Inr (f d)"
    by (metis nat_numeral)
  from read_events_reliable [OF rel this] obtain w' where
    "read_events (reg_events reg) stream (Some after) 1000 w =
      (Inr (map f (take (nat 1000) (stored_after msgs w stream (Some after)))), w')" by blast
  with True after ne show ?thesis
    by (auto simp: replay_events_def events_expected_def cursor_sequence_def opbind_Inr min.commute)
qed

lemma check_criu_runs:
  "(rm_restore_path m = CRIU_MIGRATION \<Longrightarrow> truthy_str (rm_admissibility_policy_ref m)) \<Longrightarrow>
     check_criu_invariant m w = (Inr (), w)"
  by (auto simp: check_criu_invariant_def)

lemma promote_trust_runs:
  assumes rel: "etcd_reliable (es_client (reg_metadata reg)) view"
    and token: "truthy_str (rm_split_brain_token m) \<Longrightarrow>
      meta_of reg view w (trust_key m) = Some (encode (str_val (rm_split_brain_token m)))"
  shows "\<exists>w'. promote_trust reg wire m w = (Inr (granted_trust m), w')"
proof (cases "truthy_str (rm_split_brain_token m)")
  case False
  obtain w' where "etcd_put (reg_metadata reg) (trust_key m)
      (encode (rw_trust_text wire (granted_trust m))) None w = (Inr (), w')"
    using ec_put_runs [OF rel] by (simp add: etcd_put_def) blast
  with False show ?thesis by (auto simp: promote_trust_def Let_def opbind_Inr)
next
  case True
  let ?cas = "etcd_compare_and_swap (reg_metadata reg) (trust_key m)
      (encode (str_val (rm_split_brain_token m))) (encode (rw_trust_text wire (granted_trust m)))"
  note ok = etcd_reliable_ok [OF rel]
  obtain b w' where b: "?cas w = (Inr b, w')"
    using ec_txn_runs [OF rel] unfolding etcd_compare_and_swap_def by blast
  have "b"
    using coordination_backend.cas_false [OF etcd_backend [OF ok]] b token [OF True]
    by (cases b) (auto, fastforce)
  with b True show ?thesis by (auto simp: promote_trust_def Let_def opbind_Inr)
qed

lemma restore_runs:
  assumes ec: "etcd_reliable (es_client (reg_metadata reg)) view"
    and mc: "minio_reliable (ms_client (reg_checkpoints reg)) oview"
    and js: "js_reliable (jes_client (reg_events reg)) msgs"
    and sep: "services_separate reg view oview msgs"
    and m: "manifest_admissible wire (meta_of reg view w) i m"
    and payload: "payload_admissible (ms_codec (reg_checkpoints reg)) wire
      (checkpoint_objects (reg_checkpoints reg) oview w (rm_checkpoint_id m)) m payload"
    and tail: "tail_readable (jes_codec (reg_events reg)) (\<lambda>after. stored_after msgs w REPLAY_STREAM (Some after)) m"
    and token: "truthy_str (rm_split_brain_token m) \<Longrightarrow>
      meta_of reg view w (trust_key m) = Some (encode (str_val (rm_split_brain_token m)))"
  shows "\<exists>w'. restore reg wire i w =
     (Inr (result_of i m payload (events_expected (\<lambda>after. stored_after msgs w REPLAY_STREAM (Some after)) m)), w')"
proof -
  note ok = etcd_reliable_ok [OF ec]
  have bsep: "backends_separate reg view" using sep by (simp add: services_separate_def)
  have eo: "op_keeps oview (etcd_get (reg_metadata reg) k)"
    and em: "op_keeps msgs (etcd_get (reg_metadata reg) k)"
    and ev: "op_keeps view (etcd_get (reg_metadata reg) k)" for k
    using sep etcd_get_keeps [OF ok] by (simp_all add: services_separate_def op_keeps_def etcd_get_def)
  obtain raw stored where raw: "meta_of reg view w (manifest_entry i) = Some raw" "rw_decode wire raw = Inr m"
    and stored: "rm_manifest_hash m = Some stored" "stored \<noteq> []" "endswith stored (manifest_digest wire m)"
    using m by (auto simp: manifest_admissible_def)
  obtain w1 where 1: "load_manifest reg wire i w = (Inr m, w1)"
    using load_manifest_runs [OF ec raw] stored by auto
  note k1 = op_keepsD [OF load_manifest_keeps [OF ev] 1] op_keepsD [OF load_manifest_keeps [OF eo] 1]
    op_keepsD [OF load_manifest_keeps [OF em] 1]
  have 2: "verify_hashes wire m w1 = (Inr (), w1)" by (rule verify_hashes_runs [OF stored(1,3)])
  obtain w2 where 3: "verify_attestation reg m w1 = (Inr (), w2)"
    using verify_attestation_runs [OF ec, of m w1] m etcd_kv_same [OF k1(1)]
    by (auto simp: manifest_admissible_def)
  note k2 = op_keepsD [OF verify_attestation_keeps [OF ev] 3] op_keepsD [OF verify_attestation_keeps [OF eo] 3]
    op_keepsD [OF verify_attestation_keeps [OF em] 3]
  obtain w3 where 4: "fetch_payload reg wire m w2 = (Inr payload, w3)"
    using fetch_payload_runs [OF mc, of wire w2 m payload] payload k1(2) k2(2)
    by (auto simp: checkpoint_objects_def)
  note k3 = op_keepsD [OF fetch_payload_keeps [OF get_checkpoint_keeps [OF bsep]] 4]
    op_keepsD [OF fetch_payload_keeps [OF get_checkpoint_keeps_msgs [OF sep]] 4]
  let ?n = "events_expected (\<lambda>after. stored_after msgs w REPLAY_STREAM (Some after)) m"
  have st: "stored_after msgs w3 = stored_after msgs w"
    using k1(3) k2(3) k3(2) by (simp add: stored_after_def fun_eq_iff)
  obtain w4 where 5: "replay_events reg m REPLAY_STREAM w3 = (Inr ?n, w4)"
    using replay_events_runs [OF js, of w3 REPLAY_STREAM m] tail st by auto
  have 6: "check_criu_invariant m w4 = (Inr (), w4)"
    by (rule check_criu_runs) (use m in \<open>auto simp: manifest_admissible_def\<close>)
  have v: "verified reg wire i w = (Inr (m, payload, ?n), w4)"
    using 1 2 3 4 5 6 by (simp add: verified_def opbind_Inr)
  have "meta_of reg view w4 = meta_of reg view w"
    by (rule etcd_kv_same) (rule op_keepsD [OF verified_keeps [OF ok bsep] v])
  then obtain w5 where "promote_trust reg wire m w4 = (Inr (granted_trust m), w5)"
    using promote_trust_runs [OF ec, of m w4 wire] token by auto
  with v show ?thesis by (simp add: restore_split opbind_Inr)
qed

section \<open>An example\<close>

definition example_manifest :: restore_manifest where
  "example_manifest =
     \<lparr>rm_manifest_id = ''m1'', rm_checkpoint_id = ''c1'', rm_node_id = ''n1'',
      rm_restore_path = CROSS_HOST, rm_requested_trust_class = OtherTrust ''trusted'',
      rm_manifest_hash = Some ''sha256:35'', rm_state_hash = Some ''sha256:s'',
      rm_payload_hash = Some ''sha256:3'', rm_causal_cursor = Some ''seq:1'',
      rm_attestation_ref = Some ''a1'', rm_admissibility_policy_ref = None,
      rm_split_brain_token = Some ''tok''\<rparr>"

definition example_wire :: restore_wire where
  "example_wire =
     \<lparr>rw_decode = (\<lambda>d. if d = encode ''m'' then Inr example_manifest else Inl (ValueError ''bad wire'')),
      rw_to_wire = (\<lambda>m. [(''manifest_id'', PStr (rm_manifest_id m)), (''node_id'', PStr (rm_node_id m)),
         (''manifest_hash'', PStr (str_val (rm_manifest_hash m)))]),
      rw_trust_text = (\<lambda>t. case t of DEGRADED \<Rightarrow> ''degraded'' | QUARANTINED \<Rightarrow> ''quarantined'' | OtherTrust s \<Rightarrow> s),
      rw_sha256 = (\<lambda>d. str_nat (length d)),
      rw_float_text = (\<lambda>_. ''0.0'')\<rparr>"

definition example_world :: mem_world where
  "example_world = mem_empty
     \<lparr>mw_kv := [(''/gaia/manifests/m1'', encode ''m''), (''/gaia/attestations/a1'', encode ''ok''),
         (''/gaia/nodes/n1/trust'', encode ''tok'')],
      mw_objects := [((''gaia-checkpoints'', ''checkpoints/c1/manifest.json''), encode ''c1''),
         ((''gaia-checkpoints'', ''checkpoints/c1/payload.bin''), [1, 2, 3])],
      mw_log := map (\<lambda>t. (''gaia-checkpoints.'' @ t, encode (''gaia-checkpoints '' @ t))) [''a'', ''b'', ''c'']\<rparr>"

lemma mem_etcd_reliable: "etcd_reliable mem_etcd mem_view"
  unfolding etcd_reliable_def using mem_etcd_ok by (simp add: mem_etcd_def)

lemma mem_registry_reliable:
  "etcd_reliable (es_client (reg_metadata mem_registry)) mem_view"
  "minio_reliable (ms_client (reg_checkpoints mem_registry)) mem_objects"
  "js_reliable (jes_client (reg_events mem_registry)) mem_msgs"
  by (simp_all add: mem_registry_def mem_store_def mem_minio_store_def mem_events_def
      mem_etcd_reliable mem_minio_reliable mem_js_reliable)

lemma mem_registry_ok:
  "etcd_client_ok (es_client (reg_metadata mem_registry)) mem_view"
  "minio_client_ok (ms_client (reg_checkpoints mem_registry)) mem_objects"
  "js_client_ok (jes_client (reg_events mem_registry)) mem_msgs"
  using mem_registry_reliable mem_js_ok
  by (simp_all add: etcd_reliable_def minio_reliable_def mem_registry_def mem_events_def)

lemma example_admissible:
  "manifest_admissible example_wire (meta_of mem_registry mem_view example_world) ''m1'' example_manifest"
proof -
  have "meta_of mem_registry mem_view example_world (manifest_entry ''m1'') = Some (encode ''m'')"
    "rw_decode example_wire (encode ''m'') = Inr example_manifest"
    "endswith ''sha256:35'' (manifest_digest example_wire example_manifest)"
    "meta_of mem_registry mem_view example_world (attestation_entry ''a1'') = Some (encode ''ok'')"
    by code_simp+
  then show ?thesis unfolding manifest_admissible_def by (simp add: example_manifest_def)
qed

lemma example_payload:
  "payload_admissible (ms_codec (reg_checkpoints mem_registry)) example_wire
     (checkpoint_objects (reg_checkpoints mem_registry) mem_objects example_world ''c1'') example_manifest [1, 2, 3]"
proof -
  have "checkpoint_objects (reg_checkpoints mem_registry) mem_objects example_world ''c1'' =
      (Some (encode ''c1''), Some [1, 2, 3])"
    "dec_ref (ms_codec (reg_checkpoints mem_registry)) (encode ''c1'') =
      Inr \<lparr>cr_checkpoint_id = ''c1'', cr_fields = []\<rparr>"
    "''sha256:'' @ rw_sha256 example_wire [1, 2, 3] = ''sha256:3''"
    by code_simp+
  then show ?thesis unfolding payload_admissible_def by (simp add: example_manifest_def)
qed

lemma example_tail:
  "stored_after mem_msgs example_world REPLAY_STREAM (Some 1) =
     [encode ''gaia-checkpoints b'', encode ''gaia-checkpoints c'']"
  "cursor_sequence example_manifest = Some 1"
  by code_simp+

lemma example_readable:
  "tail_readable (jes_codec (reg_events mem_registry))
     (\<lambda>after. stored_after mem_msgs example_world REPLAY_STREAM (Some after)) example_manifest"
proof -
  have "\<forall>d \<in> set [encode ''gaia-checkpoints b'', encode ''gaia-checkpoints c''].
      \<exists>e. dec_event (jes_codec (reg_events mem_registry)) d = Inr e"
    by (simp add: mem_registry_def mem_events_def example_event_codec_def split_once_def)
  with example_tail show ?thesis unfolding tail_readable_def by auto
qed

lemma example_token:
  "meta_of mem_registry mem_view example_world (trust_key example_manifest) = Some (encode ''tok'')"
  by code_simp

lemma example_restore:
  "\<exists>w'. restore mem_registry example_wire ''m1'' example_world =
     (Inr (result_of ''m1'' example_manifest [1, 2, 3] 2), w')"
proof -
  have "events_expected (\<lambda>after. stored_after mem_msgs example_world REPLAY_STREAM (Some after)) example_manifest = 2"
    using example_tail by (simp add: events_expected_def example_manifest_def)
  moreover have "rm_checkpoint_id example_manifest = ''c1''" "str_val (rm_split_brain_token example_manifest) = ''tok''"
    by (simp_all add: example_manifest_def)
  ultimately show ?thesis
    using restore_runs [OF mem_registry_reliable mem_services_separate example_admissible,
        of "[1, 2, 3]"] example_payload example_readable example_token
    by simp
qed

section \<open>Properties\<close>

text \<open>
  C3: what a completed restore has verified. When \<open>restore\<close> returns, the manifest was in the
  metadata store, its hash is not empty and ends with the digest of its other fields, a
  cross-host, cluster, foreign-host or CRIU path has an attestation reference and every reference
  names an existing entry, a CRIU path names an admissibility policy, the payload is the
  checkpoint's object and has the declared hash, a declared cursor was followed by between 1 and 1000
  stored events, and the result reports this manifest, payload and number of events.
\<close>

theorem restore_verified:
  assumes "etcd_client_ok (es_client (reg_metadata reg)) view"
    and "minio_client_ok (ms_client (reg_checkpoints reg)) oview"
    and "js_client_ok (jes_client (reg_events reg)) msgs"
    and "services_separate reg view oview msgs"
    and "restore reg wire manifest_id w = (Inr result, w')"
  shows "\<exists>m payload n.
     manifest_admissible wire (meta_of reg view w) manifest_id m \<and>
     payload_admissible (ms_codec (reg_checkpoints reg)) wire
       (checkpoint_objects (reg_checkpoints reg) oview w (rm_checkpoint_id m)) m payload \<and>
     tail_admissible (\<lambda>after. stored_after msgs w REPLAY_STREAM (Some after)) m n \<and>
     result = result_of manifest_id m payload n"
  using assms(5)
proof (cases rule: restore_cases)
  case (refused e)
  then show ?thesis by simp
next
  case (promoted m payload n q w1)
  from promoted(3) have "result = result_of manifest_id m payload n" by (cases q) auto
  with verified_sound [OF assms(1-4) promoted(1)] show ?thesis by blast
qed

theorem restore_verified_witness:
  "\<exists>w' m payload n. restore mem_registry example_wire ''m1'' example_world =
       (Inr (result_of ''m1'' example_manifest [1, 2, 3] 2), w') \<and>
     manifest_admissible example_wire (meta_of mem_registry mem_view example_world) ''m1'' m \<and>
     tail_admissible (\<lambda>after. stored_after mem_msgs example_world REPLAY_STREAM (Some after)) m n \<and>
     result_of ''m1'' example_manifest [1, 2, 3] 2 = result_of ''m1'' m payload n"
proof -
  obtain w' where r: "restore mem_registry example_wire ''m1'' example_world =
      (Inr (result_of ''m1'' example_manifest [1, 2, 3] 2), w')" using example_restore by blast
  from restore_verified [OF mem_registry_ok mem_services_separate r] r show ?thesis by blast
qed

text \<open>
  C2: the metadata changes in one entry, and only after every check. Whatever the outcome of
  \<open>restore\<close>, either it raised and the metadata is as before, or the manifest, the payload and the
  tail have passed all checks and the one change is the node's trust entry, which now holds
  the granted class; under a split-brain token the entry held the token before. A restore
  that returns is of the second kind.
\<close>

theorem restore_changes_trust_only:
  assumes "etcd_client_ok (es_client (reg_metadata reg)) view"
    and "minio_client_ok (ms_client (reg_checkpoints reg)) oview"
    and "js_client_ok (jes_client (reg_events reg)) msgs"
    and "services_separate reg view oview msgs"
    and "restore reg wire manifest_id w = (r, w')"
  shows "(\<exists>e. r = Inl e) \<and> meta_of reg view w' = meta_of reg view w \<or>
     (\<exists>m payload n.
        manifest_admissible wire (meta_of reg view w) manifest_id m \<and>
        payload_admissible (ms_codec (reg_checkpoints reg)) wire
          (checkpoint_objects (reg_checkpoints reg) oview w (rm_checkpoint_id m)) m payload \<and>
        tail_admissible (\<lambda>after. stored_after msgs w REPLAY_STREAM (Some after)) m n \<and>
        meta_of reg view w' =
          (meta_of reg view w)(trust_key m \<mapsto> encode (rw_trust_text wire (granted_trust m))) \<and>
        (\<forall>token. rm_split_brain_token m = Some token \<and> token \<noteq> [] \<longrightarrow>
           meta_of reg view w (trust_key m) = Some (encode token)))"
proof -
  have sep: "backends_separate reg view" using assms(4) by (simp add: services_separate_def)
  from restore_effect [OF assms(1) sep assms(5)] show ?thesis
  proof (elim disjE exE conjE)
    fix m payload n w1
    assume v: "verified reg wire manifest_id w = (Inr (m, payload, n), w1)"
      and "meta_of reg view w' =
        (meta_of reg view w)(trust_key m \<mapsto> encode (rw_trust_text wire (granted_trust m)))"
      and "truthy_str (rm_split_brain_token m) \<longrightarrow>
        meta_of reg view w (trust_key m) = Some (encode (str_val (rm_split_brain_token m)))"
    with verified_sound [OF assms(1-4) v] show ?thesis
      by - (rule disjI2, rule exI [of _ m], rule exI [of _ payload], rule exI [of _ n], auto)
  qed simp
qed

theorem restore_changes_trust_only_witness:
  "\<exists>w'. (\<exists>r. restore mem_registry example_wire ''m1'' example_world = (r, w')) \<and>
     (\<forall>key. key \<noteq> ''nodes/n1/trust'' \<longrightarrow>
        meta_of mem_registry mem_view w' key = meta_of mem_registry mem_view example_world key)"
proof -
  obtain w' where r: "restore mem_registry example_wire ''m1'' example_world =
      (Inr (result_of ''m1'' example_manifest [1, 2, 3] 2), w')" using example_restore by blast
  from restore_changes_trust_only [OF mem_registry_ok mem_services_separate r] obtain m where
    m: "manifest_admissible example_wire (meta_of mem_registry mem_view example_world) ''m1'' m"
    and w': "meta_of mem_registry mem_view w' = (meta_of mem_registry mem_view example_world)
      (trust_key m \<mapsto> encode (rw_trust_text example_wire (granted_trust m)))" by auto
  from m example_admissible have "m = example_manifest" unfolding manifest_admissible_def by auto
  then have "trust_key m = ''nodes/n1/trust''"
    by (simp add: trust_key_def TRUST_PREFIX_def example_manifest_def)
  with r w' show ?thesis by auto
qed

text \<open>
  C6: a restore that meets the conditions completes. With backends that do not fail, an admissible
  manifest and payload, a readable and non-empty tail after a declared cursor, and the node's
  trust entry holding the declared split-brain token, \<open>restore\<close> returns, reporting the
  stored events after the cursor up to 1000.
\<close>

theorem restore_completes:
  assumes "etcd_reliable (es_client (reg_metadata reg)) view"
    and "minio_reliable (ms_client (reg_checkpoints reg)) oview"
    and "js_reliable (jes_client (reg_events reg)) msgs"
    and "services_separate reg view oview msgs"
    and "manifest_admissible wire (meta_of reg view w) manifest_id m"
    and "payload_admissible (ms_codec (reg_checkpoints reg)) wire
      (checkpoint_objects (reg_checkpoints reg) oview w (rm_checkpoint_id m)) m payload"
    and "tail_readable (jes_codec (reg_events reg)) (\<lambda>after. stored_after msgs w REPLAY_STREAM (Some after)) m"
    and "truthy_str (rm_split_brain_token m) \<Longrightarrow>
      meta_of reg view w (trust_key m) = Some (encode (str_val (rm_split_brain_token m)))"
  shows "\<exists>w'. restore reg wire manifest_id w = (Inr (result_of manifest_id m payload
     (events_expected (\<lambda>after. stored_after msgs w REPLAY_STREAM (Some after)) m)), w')"
  using assms by (rule restore_runs)

theorem restore_completes_witness:
  "\<exists>result w'. restore mem_registry example_wire ''m1'' example_world = (Inr result, w') \<and>
     rr_granted_trust_class result = DEGRADED \<and> rr_payload result = [1, 2, 3]"
proof -
  have c: "rm_checkpoint_id example_manifest = ''c1''" "str_val (rm_split_brain_token example_manifest) = ''tok''"
    by (simp_all add: example_manifest_def)
  have g: "granted_trust example_manifest = DEGRADED"
    by (simp add: granted_trust_def example_manifest_def)
  from restore_completes [OF mem_registry_reliable mem_services_separate example_admissible,
      of "[1, 2, 3]"] example_payload example_readable example_token c g
  show ?thesis by (auto simp: result_of_def)
qed

text \<open>
  A split-brain token is spent once. Two promotions of the same node under the same token do
  not both succeed, in whatever order and whatever happens between them that leaves the node's
  trust entry alone, provided the text of the first granted class is not the token itself; the
  second one leaves the metadata as it found it.
\<close>

theorem promotion_token_spent_once:
  assumes "etcd_client_ok (es_client (reg_metadata reg)) view"
    and "rm_split_brain_token m = Some token" and "rm_split_brain_token m' = Some token" and "token \<noteq> []"
    and "rm_node_id m' = rm_node_id m" and "rw_trust_text wire (granted_trust m) \<noteq> token"
    and "promote_trust reg wire m w = (Inr g, w1)"
    and "meta_of reg view w2 (trust_key m) = meta_of reg view w1 (trust_key m)"
    and "promote_trust reg wire m' w2 = (r, w3)"
  shows "(\<exists>e. r = Inl e) \<and> meta_of reg view w3 = meta_of reg view w2"
proof -
  have k: "trust_key m' = trust_key m" using assms(5) by (simp add: trust_key_def)
  from promote_trust_cases [OF assms(1,7)] have
    "meta_of reg view w1 (trust_key m) = Some (encode (rw_trust_text wire (granted_trust m)))" by auto
  with assms(6,8) have "meta_of reg view w2 (trust_key m') \<noteq> Some (encode token)" by (simp add: k)
  with promote_trust_cases [OF assms(1,9)] assms(3,4) show ?thesis by auto
qed

theorem promotion_token_spent_once_witness:
  "let w1 = snd (promote_trust mem_registry example_wire example_manifest example_world)
   in fst (promote_trust mem_registry example_wire example_manifest example_world) = Inr DEGRADED \<and>
      (\<exists>e. fst (promote_trust mem_registry example_wire example_manifest w1) = Inl e)"
proof -
  let ?p = "promote_trust mem_registry example_wire example_manifest example_world"
  let ?q = "promote_trust mem_registry example_wire example_manifest (snd ?p)"
  have p: "fst ?p = Inr DEGRADED" by code_simp
  then have 1: "?p = (Inr DEGRADED, snd ?p)" by (metis prod.collapse)
  have 2: "?q = (fst ?q, snd ?q)" by simp
  have "(\<exists>e. fst ?q = Inl e) \<and>
      meta_of mem_registry mem_view (snd ?q) = meta_of mem_registry mem_view (snd ?p)"
    by (rule promotion_token_spent_once [OF mem_registry_ok(1) _ _ _ _ _ 1 _ 2, of "''tok''"])
      (simp_all add: example_manifest_def example_wire_def granted_trust_def)
  with p show ?thesis by (simp add: Let_def)
qed

text \<open>
  A restore from another host is never trusted. Whatever the manifest asks for, a completed
  restore on a cross-host, cluster, CRIU or foreign-host path grants the degraded or the
  quarantined class, and the latter exactly for a foreign host.
\<close>

theorem foreign_restore_not_trusted:
  assumes "restore reg wire manifest_id w = (Inr result, w')"
    and "rr_restore_path result \<in> attested_paths"
  shows "rr_granted_trust_class result =
     (if rr_restore_path result = QUARANTINED_FOREIGN_HOST then QUARANTINED else DEGRADED)"
  using assms(1)
proof (cases rule: restore_cases)
  case (refused e)
  then show ?thesis by simp
next
  case (promoted m payload n q w1)
  from promoted(3) have "result = result_of manifest_id m payload n" by (cases q) auto
  with assms(2) show ?thesis by (auto simp: result_of_def granted_trust_def attested_paths_def)
qed

theorem foreign_restore_not_trusted_witness:
  "rr_granted_trust_class (result_of ''m1'' example_manifest [1, 2, 3] 2) = DEGRADED"
proof -
  obtain w' where r: "restore mem_registry example_wire ''m1'' example_world =
      (Inr (result_of ''m1'' example_manifest [1, 2, 3] 2), w')" using example_restore by blast
  have p: "rr_restore_path (result_of ''m1'' example_manifest [1, 2, 3] 2) = CROSS_HOST"
    by (simp add: result_of_def example_manifest_def)
  from foreign_restore_not_trusted [OF r] p show ?thesis by (simp add: attested_paths_def)
qed

text \<open>
  Without a split-brain token the promotion is a plain write: of two promotions of a node, one after
  the other, both succeed, whatever the node's entry holds.
\<close>

theorem promotion_without_token:
  assumes "etcd_reliable (es_client (reg_metadata reg)) view"
    and "\<not> truthy_str (rm_split_brain_token m)" and "\<not> truthy_str (rm_split_brain_token m')"
  shows "\<exists>w1 w2. promote_trust reg wire m w = (Inr (granted_trust m), w1) \<and>
     promote_trust reg wire m' w1 = (Inr (granted_trust m'), w2)"
  using promote_trust_runs [OF assms(1), of m _ wire] promote_trust_runs [OF assms(1), of m' _ wire] assms(2,3)
  by blast

end
