(* ===== verification/Restore_Coroutine.thy ===== *)
theory Restore_Coroutine
  imports Coroutine Restore
begin

text \<open>
  \<^verbatim>\<open>gaia_server/restore/orchestrator.py\<close> as coroutines. Each method gives way around every call of a
  client: the tasks of one event loop are switched at the awaits of the event store, and several
  servers over the same backends at any call. Shown: a coroutine that runs alone is the operation
  of \<open>Restore\<close>, so what is proved there holds of it.
\<close>

section \<open>The restore sequence as a coroutine\<close>

definition co_load_manifest :: "'w storage_registry \<Rightarrow> restore_wire \<Rightarrow> string \<Rightarrow> ('w, restore_manifest) task" where
  "co_load_manifest reg wire manifest_id =
     cobind (cocall (etcd_get (reg_metadata reg) (manifest_entry manifest_id)))
       (\<lambda>raw. case raw of
          None \<Rightarrow> coraise (ManifestError (ManifestNotFound manifest_id))
        | Some data \<Rightarrow>
            cobind (cotry (colift (rw_decode wire data))
                (\<lambda>exc. coraise (ManifestError (ManifestDeserialization exc))))
              (\<lambda>manifest.
                 if \<not> truthy_str (rm_manifest_hash manifest)
                 then coraise (ManifestError (ManifestUnsigned manifest_id))
                 else coret manifest))"

definition co_verify_hashes :: "restore_wire \<Rightarrow> restore_manifest \<Rightarrow> ('w, unit) task" where
  "co_verify_hashes wire manifest =
     (let computed = manifest_digest wire manifest in
      case rm_manifest_hash manifest of
        None \<Rightarrow> coraise (AttributeError ([single_quote] @ ''NoneType'' @ [single_quote] @
          '' object has no attribute '' @ [single_quote] @ ''endswith'' @ [single_quote]))
      | Some stored \<Rightarrow>
          if \<not> endswith stored computed
          then coraise (ManifestError (ManifestHashMismatch (rm_manifest_id manifest) computed stored))
          else coret ())"

definition co_verify_attestation :: "'w storage_registry \<Rightarrow> restore_manifest \<Rightarrow> ('w, unit) task" where
  "co_verify_attestation reg manifest =
     (if rm_restore_path manifest \<in> attested_paths \<and> \<not> truthy_str (rm_attestation_ref manifest)
      then coraise (AttestationError (AttestationRefMissing (rm_manifest_id manifest)))
      else if truthy_str (rm_attestation_ref manifest)
      then cobind (cocall (etcd_get (reg_metadata reg)
             (attestation_entry (str_val (rm_attestation_ref manifest)))))
           (\<lambda>raw. case raw of
              None \<Rightarrow> coraise (AttestationError (AttestationNotFound (str_val (rm_attestation_ref manifest))))
            | Some _ \<Rightarrow> coret ())
      else coret ())"

definition co_get_checkpoint :: "'w minio_store \<Rightarrow> string \<Rightarrow> ('w, checkpoint_ref \<times> bytes) task" where
  "co_get_checkpoint s checkpoint_id =
     cobind (cocall (mc_get_object (ms_client s) (ms_bucket s) (manifest_key checkpoint_id)))
       (\<lambda>manifest_data. cobind (colift (dec_ref (ms_codec s) manifest_data))
         (\<lambda>ref. cobind (cocall (mc_get_object (ms_client s) (ms_bucket s) (payload_key checkpoint_id)))
           (\<lambda>payload. coret (ref, payload))))"

definition co_fetch_payload :: "'w storage_registry \<Rightarrow> restore_wire \<Rightarrow> restore_manifest \<Rightarrow> ('w, bytes) task" where
  "co_fetch_payload reg wire manifest =
     cobind (co_get_checkpoint (reg_checkpoints reg) (rm_checkpoint_id manifest))
       (\<lambda>(ref, payload).
          if truthy_str (rm_payload_hash manifest)
             \<and> ''sha256:'' @ rw_sha256 wire payload \<noteq> str_val (rm_payload_hash manifest)
          then coraise (ManifestError (PayloadHashMismatch (rm_checkpoint_id manifest)
                 (''sha256:'' @ rw_sha256 wire payload) (str_val (rm_payload_hash manifest))))
          else coret payload)"

definition co_read_one :: "'w event_store \<Rightarrow> 'w subscription \<Rightarrow> ('w, event_envelope option) task" where
  "co_read_one s sub =
     cocatch is_TimeoutError
       (cobind (cocall (sub_next_msg sub (1 / 2))) (\<lambda>msg.
          cobind (colift (dec_event (jes_codec s) msg)) (\<lambda>event. coret (Some event))))
       (\<lambda>_. coret None)"

fun co_read_loop :: "'w event_store \<Rightarrow> 'w subscription \<Rightarrow> nat \<Rightarrow> event_envelope list
    \<Rightarrow> ('w, event_envelope list) task" where
  "co_read_loop s sub 0 results = coret results"
| "co_read_loop s sub (Suc n) results =
     cobind (co_read_one s sub) (\<lambda>r. case r of
       None \<Rightarrow> coret results
     | Some event \<Rightarrow> co_read_loop s sub n (results @ [event]))"

definition co_read_events :: "'w event_store \<Rightarrow> string \<Rightarrow> int option \<Rightarrow> int
    \<Rightarrow> ('w, event_envelope list) task" where
  "co_read_events s stream after_sequence limit =
     cobind (cocall (js_subscribe (jes_client s) (stream @ ''.>'') (read_config stream after_sequence) True))
       (\<lambda>sub. cofinally (co_read_loop s sub (nat limit) []) (cocall (sub_unsubscribe sub)))"

definition co_replay_events :: "'w storage_registry \<Rightarrow> restore_manifest \<Rightarrow> string \<Rightarrow> ('w, nat) task" where
  "co_replay_events reg manifest stream =
     (if \<not> truthy_str (rm_causal_cursor manifest) then coret 0
      else case py_int (remove_all ''seq:'' (str_val (rm_causal_cursor manifest))) of
        None \<Rightarrow> coraise (CausalReplayError (CursorFormat (str_val (rm_causal_cursor manifest))))
      | Some after_seq \<Rightarrow>
          cobind (co_read_events (reg_events reg) stream (Some after_seq) 1000)
            (\<lambda>events.
               if events = []
               then coraise (CausalReplayError (NoEventsAfterCursor
                      (str_val (rm_causal_cursor manifest)) (rm_manifest_id manifest)))
               else coret (length events)))"

definition co_check_criu_invariant :: "restore_manifest \<Rightarrow> ('w, unit) task" where
  "co_check_criu_invariant manifest =
     (if rm_restore_path manifest = CRIU_MIGRATION \<and> \<not> truthy_str (rm_admissibility_policy_ref manifest)
      then coraise (ManifestError CriuNotPolicyGated)
      else coret ())"

definition co_promote_trust :: "'w storage_registry \<Rightarrow> restore_wire \<Rightarrow> restore_manifest \<Rightarrow> ('w, trust_class) task" where
  "co_promote_trust reg wire manifest =
     (let granted = granted_trust manifest;
          new_value = encode (rw_trust_text wire granted)
      in cobind
           (if truthy_str (rm_split_brain_token manifest)
            then cobind (cocall (etcd_compare_and_swap (reg_metadata reg) (trust_key manifest)
                   (encode (str_val (rm_split_brain_token manifest))) new_value))
                 (\<lambda>swapped. if \<not> swapped then coraise (TrustPromotionError (rm_node_id manifest))
                            else coret ())
            else cocall (etcd_put (reg_metadata reg) (trust_key manifest) new_value None))
           (\<lambda>_. coret granted))"

definition co_restore :: "'w storage_registry \<Rightarrow> restore_wire \<Rightarrow> string \<Rightarrow> ('w, restore_result) task" where
  "co_restore reg wire manifest_id =
     cobind (co_load_manifest reg wire manifest_id) (\<lambda>manifest.
     cobind (co_verify_hashes wire manifest) (\<lambda>_.
     cobind (co_verify_attestation reg manifest) (\<lambda>_.
     cobind (co_fetch_payload reg wire manifest) (\<lambda>payload.
     cobind (co_replay_events reg manifest REPLAY_STREAM) (\<lambda>events_replayed.
     cobind (co_check_criu_invariant manifest) (\<lambda>_.
     cobind (co_promote_trust reg wire manifest) (\<lambda>granted.
       coret \<lparr>rr_manifest_id = manifest_id, rr_node_id = rm_node_id manifest,
              rr_restore_path = rm_restore_path manifest, rr_events_replayed = events_replayed,
              rr_granted_trust_class = granted, rr_payload = payload\<rparr>)))))))"

section \<open>Alone, it is the restore sequence\<close>

lemma run_co_load_manifest [coro_runs]: "run_coro (co_load_manifest reg wire i) = load_manifest reg wire i"
  unfolding co_load_manifest_def load_manifest_def
  by (simp add: coro_runs if_distrib [of run_coro] option.case_distrib [of run_coro] cong: if_cong option.case_cong)

lemma run_co_verify_hashes [coro_runs]: "run_coro (co_verify_hashes wire m) = verify_hashes wire m"
  by (simp add: co_verify_hashes_def verify_hashes_def Let_def coro_runs split: option.split)

lemma run_co_verify_attestation [coro_runs]:
  "run_coro (co_verify_attestation reg m) = verify_attestation reg m"
  by (simp add: co_verify_attestation_def verify_attestation_def coro_runs
      option.case_distrib [of run_coro] cong: option.case_cong)

lemma run_co_get_checkpoint [coro_runs]: "run_coro (co_get_checkpoint s i) = get_checkpoint s i"
  by (simp add: co_get_checkpoint_def get_checkpoint_def coro_runs)

lemma run_co_fetch_payload [coro_runs]: "run_coro (co_fetch_payload reg wire m) = fetch_payload reg wire m"
  by (simp add: co_fetch_payload_def fetch_payload_def coro_runs prod.case_distrib [of run_coro]
      if_distrib [of run_coro] cong: if_cong)

lemma run_co_read_one [coro_runs]: "run_coro (co_read_one s sub) = read_one s sub"
  by (simp add: co_read_one_def read_one_def coro_runs)

lemma run_co_read_loop [coro_runs]: "run_coro (co_read_loop s sub n acc) = read_loop s sub n acc"
  by (induction n arbitrary: acc) (simp_all add: coro_runs option.case_distrib [of run_coro] cong: option.case_cong)

lemma run_co_read_events [coro_runs]: "run_coro (co_read_events s st a l) = read_events s st a l"
  by (simp add: co_read_events_def read_events_def coro_runs)

lemma run_co_replay_events [coro_runs]: "run_coro (co_replay_events reg m st) = replay_events reg m st"
  by (simp add: co_replay_events_def replay_events_def coro_runs if_distrib [of run_coro] cong: if_cong
      split: option.split)

lemma run_co_check_criu [coro_runs]: "run_coro (co_check_criu_invariant m) = check_criu_invariant m"
  by (simp add: co_check_criu_invariant_def check_criu_invariant_def coro_runs)

lemma run_co_promote_trust [coro_runs]: "run_coro (co_promote_trust reg wire m) = promote_trust reg wire m"
  by (simp add: co_promote_trust_def promote_trust_def Let_def coro_runs if_distrib [of run_coro] cong: if_cong)

lemma run_co_restore [coro_runs]: "run_coro (co_restore reg wire i) = restore reg wire i"
  by (simp add: co_restore_def restore_def coro_runs)

text \<open>
  A restore whose coroutine runs without interruption is the restore of the sequential model,
  result and world.
\<close>

theorem co_restore_alone: "run_coro (co_restore reg wire manifest_id) = restore reg wire manifest_id"
  by (rule run_co_restore)

end
