(* ===== verification/Concurrent_Restore.thy ===== *)
theory Concurrent_Restore
  imports Restore_Coroutine
begin

text \<open>
  Restores that run at the same time (\<^verbatim>\<open>gaia_server/restore/orchestrator.py\<close>), on one server or on
  many. Shown, for every interleaving of any number of restores: a restore that returns has
  verified its manifest and payload, the metadata changes in trust entries only, of the restores
  of a node under one split-brain token at most one returns, and every schedule ends.
\<close>

section \<open>What the restores rely on and what they guarantee\<close>

text \<open>
  The backends behave as documented, and a call to one of them leaves the contents of the others
  alone.
\<close>

definition restore_backends_ok :: "'w storage_registry \<Rightarrow> ('w \<Rightarrow> string \<Rightarrow> bytes option)
    \<Rightarrow> ('w \<Rightarrow> string \<times> string \<Rightarrow> bytes option) \<Rightarrow> bool" where
  "restore_backends_ok reg view oview \<longleftrightarrow>
     etcd_client_ok (es_client (reg_metadata reg)) view \<and>
     minio_client_ok (ms_client (reg_checkpoints reg)) oview \<and>
     backends_separate reg view \<and> backends_separate reg oview \<and>
     (\<forall>k. op_keeps oview (ec_get (es_client (reg_metadata reg)) k)) \<and>
     (\<forall>k v l. op_keeps oview (ec_put (es_client (reg_metadata reg)) k v l)) \<and>
     (\<forall>cmp yes no. op_keeps oview (ec_transaction (es_client (reg_metadata reg)) cmp yes no))"

text \<open>The world with the objects, the manifests and the attestations of the world \<open>w0\<close>.\<close>

definition restore_world :: "'w storage_registry \<Rightarrow> ('w \<Rightarrow> string \<Rightarrow> bytes option)
    \<Rightarrow> ('w \<Rightarrow> string \<times> string \<Rightarrow> bytes option) \<Rightarrow> 'w \<Rightarrow> 'w \<Rightarrow> bool" where
  "restore_world reg view oview w0 w \<longleftrightarrow> oview w = oview w0 \<and>
     (\<forall>i. meta_of reg view w (manifest_entry i) = meta_of reg view w0 (manifest_entry i)) \<and>
     (\<forall>r. meta_of reg view w (attestation_entry r) = meta_of reg view w0 (attestation_entry r))"

definition restore_admissible :: "'w storage_registry \<Rightarrow> restore_wire \<Rightarrow> ('w \<Rightarrow> string \<Rightarrow> bytes option)
    \<Rightarrow> ('w \<Rightarrow> string \<times> string \<Rightarrow> bytes option) \<Rightarrow> 'w \<Rightarrow> string \<Rightarrow> restore_manifest \<Rightarrow> bytes \<Rightarrow> bool" where
  "restore_admissible reg wire view oview w i m payload \<longleftrightarrow>
     manifest_admissible wire (meta_of reg view w) i m \<and>
     payload_admissible (ms_codec (reg_checkpoints reg)) wire
       (checkpoint_objects (reg_checkpoints reg) oview w (rm_checkpoint_id m)) m payload"

definition replay_count :: "restore_manifest \<Rightarrow> nat \<Rightarrow> bool" where
  "replay_count m n \<longleftrightarrow>
     (if truthy_str (rm_causal_cursor m) then cursor_sequence m \<noteq> None \<and> 0 < n \<and> n \<le> 1000 else n = 0)"

definition co_verified :: "'w storage_registry \<Rightarrow> restore_wire \<Rightarrow> string
    \<Rightarrow> ('w, restore_manifest \<times> bytes \<times> nat) task" where
  "co_verified reg wire manifest_id =
     cobind (co_load_manifest reg wire manifest_id) (\<lambda>m.
     cobind (co_verify_hashes wire m) (\<lambda>_.
     cobind (co_verify_attestation reg m) (\<lambda>_.
     cobind (co_fetch_payload reg wire m) (\<lambda>payload.
     cobind (co_replay_events reg m REPLAY_STREAM) (\<lambda>n.
     cobind (co_check_criu_invariant m) (\<lambda>_. coret (m, payload, n)))))))"

lemma co_promote_trust_split:
  "co_promote_trust reg wire m = cobind (co_promote_trust reg wire m) (\<lambda>_. coret (granted_trust m))"
  by (simp add: co_promote_trust_def Let_def cobind_assoc)

lemma co_restore_split:
  "co_restore reg wire i =
     cobind (co_verified reg wire i) (\<lambda>(m, payload, n).
       cobind (co_promote_trust reg wire m) (\<lambda>_. coret (result_of i m payload n)))"
proof -
  have "cobind (co_promote_trust reg wire m) (\<lambda>g. coret (r g)) =
      cobind (co_promote_trust reg wire m) (\<lambda>_. coret (r (granted_trust m)))" for m and r :: "trust_class \<Rightarrow> restore_result"
    by (subst co_promote_trust_split) (simp add: cobind_assoc)
  from this [of _ "\<lambda>g. \<lparr>rr_manifest_id = i, rr_node_id = _, rr_restore_path = _, rr_events_replayed = _,
      rr_granted_trust_class = g, rr_payload = _\<rparr>"]
  show ?thesis by (simp add: co_restore_def co_verified_def cobind_assoc result_of_def)
qed
section \<open>The checks under interference\<close>

text \<open>
  What the coroutines of a restore need of a guarantee and of an invariant: a step that changes
  neither entries nor objects is allowed, and the invariant fixes what they read.
\<close>

definition restore_rely :: "'w storage_registry \<Rightarrow> ('w \<Rightarrow> string \<Rightarrow> bytes option)
    \<Rightarrow> ('w \<Rightarrow> string \<times> string \<Rightarrow> bytes option) \<Rightarrow> 'w \<Rightarrow> ('w \<Rightarrow> bool) \<Rightarrow> ('w \<Rightarrow> 'w \<Rightarrow> bool) \<Rightarrow> bool" where
  "restore_rely reg view oview w0 good guar \<longleftrightarrow> restore_backends_ok reg view oview \<and>
     (\<forall>w w'. view w' = view w \<and> oview w' = oview w \<longrightarrow> guar w w') \<and>
     (\<forall>w. good w \<longrightarrow> restore_world reg view oview w0 w)"

lemma quiet_call:
  assumes "restore_rely reg view oview w0 good guar" and "op_keeps view m" and "op_keeps oview m"
    and "\<And>w r w'. good w \<Longrightarrow> m w = (r, w') \<Longrightarrow> post r"
  shows "assured good guar post (cocall m)"
proof (rule assured_cocall)
  fix w r w'
  assume "good w" "m w = (r, w')"
  with assms op_keepsD [OF assms(2)] op_keepsD [OF assms(3)] show "guar w w' \<and> post r"
    unfolding restore_rely_def by blast
qed

lemma quiet_get:
  assumes rely: "restore_rely reg view oview w0 good guar"
    and fixed: "\<And>w. restore_world reg view oview w0 w \<Longrightarrow> meta_of reg view w k = meta_of reg view w0 k"
    and norm: "etcd_norm k = k"
  shows "assured good guar (case_sum (\<lambda>_. True) (\<lambda>raw. raw = meta_of reg view w0 k))
     (cocall (etcd_get (reg_metadata reg) k))"
proof (rule quiet_call [OF rely])
  have ok: "etcd_client_ok (es_client (reg_metadata reg)) view"
    using rely by (simp add: restore_rely_def restore_backends_ok_def)
  show "op_keeps view (etcd_get (reg_metadata reg) k)" by (rule etcd_get_keeps [OF ok])
  show "op_keeps oview (etcd_get (reg_metadata reg) k)"
    using rely by (simp add: restore_rely_def restore_backends_ok_def etcd_get_def op_keeps_def)
  fix w r w'
  assume w: "good w" "etcd_get (reg_metadata reg) k w = (r, w')"
  have "meta_of reg view w k = meta_of reg view w0 k"
    using w(1) rely fixed by (simp add: restore_rely_def)
  moreover have "raw = meta_of reg view w k" if "r = Inr raw" for raw
    using ec_get_value [OF ok] w(2) that norm unfolding etcd_get_def by (metis etcd_kv_at)
  ultimately show "case_sum (\<lambda>_. True) (\<lambda>raw. raw = meta_of reg view w0 k) r" by (cases r) auto
qed

lemma restore_world_entries:
  "restore_world reg view oview w0 w \<Longrightarrow> meta_of reg view w (manifest_entry i) = meta_of reg view w0 (manifest_entry i)"
  "restore_world reg view oview w0 w \<Longrightarrow> meta_of reg view w (attestation_entry r) = meta_of reg view w0 (attestation_entry r)"
  by (simp_all add: restore_world_def)

lemma assured_co_load_manifest:
  assumes rely: "restore_rely reg view oview w0 good guar"
  shows "assured good guar (case_sum (\<lambda>_. True) (\<lambda>m. truthy_str (rm_manifest_hash m) \<and>
      (\<exists>raw. meta_of reg view w0 (manifest_entry i) = Some raw \<and> rw_decode wire raw = Inr m)))
    (co_load_manifest reg wire i)"
  unfolding co_load_manifest_def
proof (rule assured_cobind [OF quiet_get [OF rely restore_world_entries(1)]])
  fix raw
  assume "raw = meta_of reg view w0 (manifest_entry i)"
  then show "assured good guar (case_sum (\<lambda>_. True) (\<lambda>m. truthy_str (rm_manifest_hash m) \<and>
      (\<exists>raw. meta_of reg view w0 (manifest_entry i) = Some raw \<and> rw_decode wire raw = Inr m)))
    (case raw of
      None \<Rightarrow> coraise (ManifestError (ManifestNotFound i))
    | Some data \<Rightarrow> cobind (cotry (colift (rw_decode wire data)) (\<lambda>exc. coraise (ManifestError (ManifestDeserialization exc))))
        (\<lambda>m. if \<not> truthy_str (rm_manifest_hash m) then coraise (ManifestError (ManifestUnsigned i)) else coret m))"
    by (auto simp: cobind_def cocatch_def colift_def coraise_def coret_def split: option.split sum.split)
qed simp_all

lemma assured_co_verify_hashes:
  "assured good guar (case_sum (\<lambda>_. True) (\<lambda>_. \<exists>stored. rm_manifest_hash m = Some stored \<and>
     endswith stored (manifest_digest wire m))) (co_verify_hashes wire m)"
  by (simp add: co_verify_hashes_def Let_def split: option.split)

lemma assured_co_verify_attestation:
  assumes rely: "restore_rely reg view oview w0 good guar"
  shows "assured good guar (case_sum (\<lambda>_. True) (\<lambda>_.
      (rm_restore_path m \<in> attested_paths \<longrightarrow> truthy_str (rm_attestation_ref m)) \<and>
      (truthy_str (rm_attestation_ref m) \<longrightarrow>
        meta_of reg view w0 (attestation_entry (str_val (rm_attestation_ref m))) \<noteq> None)))
    (co_verify_attestation reg m)"
  unfolding co_verify_attestation_def
  by (auto intro!: assured_cobind [OF quiet_get [OF rely restore_world_entries(2)]] split: option.split)

lemma assured_co_check_criu:
  "assured good guar (case_sum (\<lambda>_. True) (\<lambda>_. rm_restore_path m = CRIU_MIGRATION \<longrightarrow>
     truthy_str (rm_admissibility_policy_ref m))) (co_check_criu_invariant m)"
  by (simp add: co_check_criu_invariant_def)

lemma assured_co_get_object:
  assumes rely: "restore_rely reg view oview w0 good guar"
  shows "assured good guar (case_sum (\<lambda>_. True) (\<lambda>d. oview w0 (b, k) = Some d))
     (cocall (mc_get_object (ms_client (reg_checkpoints reg)) b k))"
proof (rule quiet_call [OF rely])
  have ok: "minio_client_ok (ms_client (reg_checkpoints reg)) oview"
    and "backends_separate reg view" "backends_separate reg oview"
    using rely by (simp_all add: restore_rely_def restore_backends_ok_def)
  then show "op_keeps view (mc_get_object (ms_client (reg_checkpoints reg)) b k)"
    "op_keeps oview (mc_get_object (ms_client (reg_checkpoints reg)) b k)"
    by (simp_all add: backends_separate_def)
  fix w r w'
  assume w: "good w" "mc_get_object (ms_client (reg_checkpoints reg)) b k w = (r, w')"
  have "oview w = oview w0" using w(1) rely by (simp add: restore_rely_def restore_world_def)
  with mc_get_value [OF ok, of b k w _ w'] w(2)
  show "case_sum (\<lambda>_. True) (\<lambda>d. oview w0 (b, k) = Some d) r" by (cases r) auto
qed

lemma truthy_str_val: "truthy_str x \<Longrightarrow> x = Some (str_val x)"
  by (cases x) (simp_all add: truthy_str_def str_val_def)

lemma assured_co_fetch_payload:
  assumes rely: "restore_rely reg view oview w0 good guar"
  shows "assured good guar (case_sum (\<lambda>_. True) (\<lambda>payload.
      payload_admissible (ms_codec (reg_checkpoints reg)) wire
        (checkpoint_objects (reg_checkpoints reg) oview w0 (rm_checkpoint_id m)) m payload))
    (co_fetch_payload reg wire m)"
proof -
  let ?s = "reg_checkpoints reg" and ?i = "rm_checkpoint_id m"
  have "assured good guar (case_sum (\<lambda>_. True) (\<lambda>(ref, payload). \<exists>d.
      checkpoint_objects ?s oview w0 ?i = (Some d, Some payload) \<and> dec_ref (ms_codec ?s) d = Inr ref))
    (co_get_checkpoint ?s ?i)"
    unfolding co_get_checkpoint_def
  proof (rule assured_cobind [OF assured_co_get_object [OF rely]])
    fix d
    assume d: "oview w0 (ms_bucket ?s, manifest_key ?i) = Some d"
    show "assured good guar (case_sum (\<lambda>_. True) (\<lambda>(ref, payload). \<exists>d.
        checkpoint_objects ?s oview w0 ?i = (Some d, Some payload) \<and> dec_ref (ms_codec ?s) d = Inr ref))
      (cobind (colift (dec_ref (ms_codec ?s) d)) (\<lambda>ref.
         cobind (cocall (mc_get_object (ms_client ?s) (ms_bucket ?s) (payload_key ?i)))
           (\<lambda>payload. coret (ref, payload))))"
    proof (rule assured_cobind [where raised = "\<lambda>_. True" and mid = "\<lambda>ref. dec_ref (ms_codec ?s) d = Inr ref"])
      fix ref
      assume "dec_ref (ms_codec ?s) d = Inr ref"
      with d show "assured good guar (case_sum (\<lambda>_. True) (\<lambda>(ref, payload). \<exists>d.
          checkpoint_objects ?s oview w0 ?i = (Some d, Some payload) \<and> dec_ref (ms_codec ?s) d = Inr ref))
        (cobind (cocall (mc_get_object (ms_client ?s) (ms_bucket ?s) (payload_key ?i)))
          (\<lambda>payload. coret (ref, payload)))"
        by (intro assured_cobind [OF assured_co_get_object [OF rely]]) (auto simp: checkpoint_objects_def)
    qed (auto split: sum.split)
  qed simp_all
  then show ?thesis
    unfolding co_fetch_payload_def
    by (rule assured_cobind) (auto simp: payload_admissible_def dest: truthy_str_val)
qed
lemma assured_co_read_loop:
  assumes rely: "restore_rely reg view oview w0 good guar"
    and sub: "\<And>t. op_keeps view (sub_next_msg sub t)" "\<And>t. op_keeps oview (sub_next_msg sub t)"
  shows "assured good guar (case_sum (\<lambda>_. True) (\<lambda>evs. length evs \<le> length acc + n)) (co_read_loop s sub n acc)"
proof (induction n arbitrary: acc)
  case 0
  then show ?case by simp
next
  case (Suc n)
  have "assured good guar (case_sum (\<lambda>_. True) (\<lambda>_. True)) (cocall (sub_next_msg sub (1 / 2)))"
    by (rule quiet_call [OF rely sub]) (simp split: sum.split)
  then have one: "assured good guar (case_sum (\<lambda>_. True) (\<lambda>_. True)) (co_read_one s sub)"
    unfolding co_read_one_def
    by (intro assured_cocatch [where raised = "\<lambda>_. True"] assured_cobind [where raised = "\<lambda>_. True" and mid = "\<lambda>_. True"])
      (auto split: sum.split)
  show ?case
    unfolding co_read_loop.simps
  proof (rule assured_cobind [OF one])
    fix r
    show "assured good guar (case_sum (\<lambda>_. True) (\<lambda>evs. length evs \<le> length acc + Suc n))
        (case r of None \<Rightarrow> coret acc | Some e \<Rightarrow> co_read_loop s sub n (acc @ [e]))"
      by (cases r) (auto intro!: assured_mono [OF Suc.IH] split: sum.splits)
  qed simp
qed

lemma subscription_separate:
  assumes "backends_separate reg v" and "js_subscribe (jes_client (reg_events reg)) f cfg b w = (Inr sub, w')"
  shows "op_keeps v (sub_next_msg sub t)" and "op_keeps v (sub_unsubscribe sub)"
  using assms unfolding backends_separate_def by blast+

lemma assured_co_read_events:
  fixes reg :: "'w storage_registry"
  assumes rely: "restore_rely reg view oview w0 good guar"
  shows "assured good guar (case_sum (\<lambda>_. True) (\<lambda>evs. length evs \<le> nat limit))
     (co_read_events (reg_events reg) stream after limit)"
proof -
  let ?c = "jes_client (reg_events reg)" and ?f = "stream @ ''.>''" and ?cfg = "read_config stream after"
  have sep: "backends_separate reg view" "backends_separate reg oview"
    using rely by (simp_all add: restore_rely_def restore_backends_ok_def)
  let ?mid = "\<lambda>sub :: 'w subscription. (\<forall>t. op_keeps view (sub_next_msg sub t)) \<and> (\<forall>t. op_keeps oview (sub_next_msg sub t)) \<and>
     op_keeps view (sub_unsubscribe sub) \<and> op_keeps oview (sub_unsubscribe sub)"
  have "assured good guar (case_sum (\<lambda>_. True) ?mid) (cocall (js_subscribe ?c ?f ?cfg True))"
  proof (rule quiet_call [OF rely])
    show "op_keeps view (js_subscribe ?c ?f ?cfg True)" "op_keeps oview (js_subscribe ?c ?f ?cfg True)"
      using sep by (simp_all add: backends_separate_def)
    fix w r w'
    assume r: "js_subscribe ?c ?f ?cfg True w = (r, w')"
    show "case_sum (\<lambda>_. True) ?mid r"
    proof (cases r)
      case (Inr sub)
      with r subscription_separate [OF sep(1)] subscription_separate [OF sep(2)] show ?thesis by simp
    qed simp
  qed
  then show ?thesis
    unfolding co_read_events_def
  proof (rule assured_cobind)
    fix sub :: "'w subscription"
    assume sub: "?mid sub"
    have "assured good guar (case_sum (\<lambda>_. True) (\<lambda>evs. length evs \<le> length ([] :: event_envelope list) + nat limit))
        (co_read_loop (reg_events reg) sub (nat limit) [])"
      by (rule assured_co_read_loop [OF rely]) (use sub in simp_all)
    moreover have "assured good guar (\<lambda>q. \<forall>e. q = Inl e \<longrightarrow> True) (cocall (sub_unsubscribe sub))"
      by (rule quiet_call [OF rely]) (use sub in simp_all)
    ultimately show "assured good guar (case_sum (\<lambda>_. True) (\<lambda>evs. length evs \<le> nat limit))
        (cofinally (co_read_loop (reg_events reg) sub (nat limit) []) (cocall (sub_unsubscribe sub)))"
      by (intro assured_cofinally) simp_all
  qed simp
qed

lemma assured_co_replay_events:
  assumes rely: "restore_rely reg view oview w0 good guar"
  shows "assured good guar (case_sum (\<lambda>_. True) (replay_count m)) (co_replay_events reg m stream)"
  unfolding co_replay_events_def
  by (auto simp: replay_count_def cursor_sequence_def split: option.split
      intro!: assured_cobind [OF assured_co_read_events [OF rely]])

lemma assured_co_verified:
  assumes rely: "restore_rely reg view oview w0 good guar"
  shows "assured good guar (case_sum (\<lambda>_. True) (\<lambda>(m, payload, n).
     restore_admissible reg wire view oview w0 i m payload \<and> replay_count m n)) (co_verified reg wire i)"
  (is "assured good guar ?post _")
  unfolding co_verified_def
proof (rule assured_cobind [OF assured_co_load_manifest [OF rely]])
  fix m
  assume m: "truthy_str (rm_manifest_hash m) \<and>
    (\<exists>raw. meta_of reg view w0 (manifest_entry i) = Some raw \<and> rw_decode wire raw = Inr m)"
  show "assured good guar ?post (cobind (co_verify_hashes wire m) (\<lambda>_.
     cobind (co_verify_attestation reg m) (\<lambda>_.
     cobind (co_fetch_payload reg wire m) (\<lambda>payload.
     cobind (co_replay_events reg m REPLAY_STREAM) (\<lambda>n.
     cobind (co_check_criu_invariant m) (\<lambda>_. coret (m, payload, n)))))))"
    using m
    by (intro assured_cobind [OF assured_co_verify_hashes] assured_cobind [OF assured_co_verify_attestation [OF rely]]
        assured_cobind [OF assured_co_fetch_payload [OF rely]] assured_cobind [OF assured_co_replay_events [OF rely]]
        assured_cobind [OF assured_co_check_criu])
      (auto simp: restore_admissible_def manifest_admissible_def dest: truthy_str_cases)
qed simp
section \<open>The promotion under interference\<close>

abbreviation trust_value :: "restore_wire \<Rightarrow> restore_manifest \<Rightarrow> bytes" where
  "trust_value wire m \<equiv> encode (rw_trust_text wire (granted_trust m))"

lemma trust_cas_step:
  assumes rely: "restore_rely reg view oview w0 good guar"
    and run: "etcd_compare_and_swap (reg_metadata reg) (trust_key m) old new w = (r, w')"
  shows "oview w' = oview w \<and> (view w' = view w \<and> r \<noteq> Inr True \<or>
     meta_of reg view w (trust_key m) = Some old \<and> meta_of reg view w' = (meta_of reg view w)(trust_key m \<mapsto> new))"
proof -
  have ok: "etcd_client_ok (es_client (reg_metadata reg)) view"
    and "\<forall>cmp yes no. op_keeps oview (ec_transaction (es_client (reg_metadata reg)) cmp yes no)"
    using rely by (simp_all add: restore_rely_def restore_backends_ok_def)
  then have "oview w' = oview w" using run by (auto simp: etcd_compare_and_swap_def dest: op_keepsD)
  moreover from etcd_cas_cases [OF ok refl run] have "view w' = view w \<and> r \<noteq> Inr True \<or>
      view w (etcd_key (reg_metadata reg) (trust_key m)) = Some old \<and>
      view w' = (view w)(etcd_key (reg_metadata reg) (trust_key m) \<mapsto> new)" by auto
  ultimately show ?thesis
    using etcd_kv_upd [of view w' w "reg_metadata reg" "trust_key m" "Some new"]
      etcd_kv_at [of "reg_metadata reg" view w "trust_key m"] by auto
qed

lemma trust_put_step:
  assumes rely: "restore_rely reg view oview w0 good guar"
    and run: "etcd_put (reg_metadata reg) (trust_key m) new None w = (r, w')"
  shows "oview w' = oview w \<and> (view w' = view w \<or>
     meta_of reg view w' = (meta_of reg view w)(trust_key m \<mapsto> new))"
proof -
  have ok: "etcd_client_ok (es_client (reg_metadata reg)) view"
    and "\<forall>k v l. op_keeps oview (ec_put (es_client (reg_metadata reg)) k v l)"
    using rely by (simp_all add: restore_rely_def restore_backends_ok_def)
  then have "oview w' = oview w" using run by (auto simp: etcd_put_def dest: op_keepsD)
  then show ?thesis
    using etcd_put_cases [OF ok refl run] etcd_kv_upd [of view w' w "reg_metadata reg" "trust_key m" "Some new"]
    by auto
qed

lemma assured_co_promote_trust:
  assumes rely: "restore_rely reg view oview w0 good guar"
    and trust_write: "\<And>w w'. good w \<Longrightarrow> oview w' = oview w \<Longrightarrow>
      meta_of reg view w' = (meta_of reg view w)(trust_key m \<mapsto> trust_value wire m) \<Longrightarrow> guar w w'"
  shows "assured good guar (\<lambda>_. True) (co_promote_trust reg wire m)"
proof -
  have quiet: "guar w w'" if "view w' = view w" "oview w' = oview w" for w w'
    using rely that by (simp add: restore_rely_def)
  have cas: "guar w w'" if "good w"
      "etcd_compare_and_swap (reg_metadata reg) (trust_key m) old (trust_value wire m) w = (r, w')" for w r w' old
    using trust_cas_step [OF rely that(2)] trust_write [OF that(1)] quiet by blast
  have put: "guar w w'" if "good w"
      "etcd_put (reg_metadata reg) (trust_key m) (trust_value wire m) None w = (r, w')" for w r w'
    using trust_put_step [OF rely that(2)] trust_write [OF that(1)] quiet by blast
  have "assured good guar (case_sum (\<lambda>_. True) (\<lambda>_. True))
      (cocall (etcd_compare_and_swap (reg_metadata reg) (trust_key m) old (trust_value wire m)))" for old
    by (rule assured_cocall) (simp add: cas split: sum.split)
  moreover have "assured good guar (case_sum (\<lambda>_. True) (\<lambda>_. True))
      (cocall (etcd_put (reg_metadata reg) (trust_key m) (trust_value wire m) None))"
    by (rule assured_cocall) (simp add: put split: sum.split)
  ultimately show ?thesis
    unfolding co_promote_trust_def Let_def
    by (intro assured_cobind [where raised = "\<lambda>_. True" and mid = "\<lambda>_. True"])
      (auto intro!: assured_cobind [where raised = "\<lambda>_. True" and mid = "\<lambda>_. True"])
qed

text \<open>
  The guarantee of the restores of the manifests \<open>ids\<close> that start in the world \<open>w0\<close>: an entry
  changes only if it is the trust entry of one of these manifests that is admissible there, to
  the class granted for it.
\<close>

definition trust_guar :: "'w storage_registry \<Rightarrow> restore_wire \<Rightarrow> ('w \<Rightarrow> string \<Rightarrow> bytes option)
    \<Rightarrow> ('w \<Rightarrow> string \<times> string \<Rightarrow> bytes option) \<Rightarrow> string list \<Rightarrow> 'w \<Rightarrow> 'w \<Rightarrow> 'w \<Rightarrow> bool" where
  "trust_guar reg wire view oview ids w0 w w' \<longleftrightarrow> oview w' = oview w \<and>
     (\<forall>key. meta_of reg view w' key \<noteq> meta_of reg view w key \<longrightarrow>
        (\<exists>i m payload. i \<in> set ids \<and> restore_admissible reg wire view oview w0 i m payload \<and>
           key = trust_key m \<and> meta_of reg view w' key = Some (trust_value wire m)))"

lemma trust_guar_world:
  assumes "trust_guar reg wire view oview ids w0 w w'" and "restore_world reg view oview w1 w"
  shows "restore_world reg view oview w1 w'"
proof -
  have "meta_of reg view w' key = meta_of reg view w key" if "\<And>m. trust_key m \<noteq> key" for key
    using assms(1) that unfolding trust_guar_def by metis
  then show ?thesis using assms by (simp add: restore_world_def trust_guar_def)
qed

interpretation restores: interference "restore_world reg view oview w0" "trust_guar reg wire view oview ids w0"
  for reg wire view oview ids w0
  by unfold_locales (rule trust_guar_world)

lemma trust_guar_rely:
  "restore_backends_ok reg view oview \<Longrightarrow>
     restore_rely reg view oview w0 (restore_world reg view oview w0) (trust_guar reg wire view oview ids w0)"
  by (auto simp: restore_rely_def trust_guar_def etcd_kv_def)

definition restore_outcome :: "'w storage_registry \<Rightarrow> restore_wire \<Rightarrow> ('w \<Rightarrow> string \<Rightarrow> bytes option)
    \<Rightarrow> ('w \<Rightarrow> string \<times> string \<Rightarrow> bytes option) \<Rightarrow> 'w \<Rightarrow> string \<Rightarrow> restore_result \<Rightarrow> bool" where
  "restore_outcome reg wire view oview w i res \<longleftrightarrow>
     (\<exists>m payload n. restore_admissible reg wire view oview w i m payload \<and> replay_count m n \<and>
        res = result_of i m payload n)"

lemma assured_co_restore:
  assumes rely: "restore_rely reg view oview w0 good guar"
    and trust_write: "\<And>w w' m payload. good w \<Longrightarrow> oview w' = oview w \<Longrightarrow>
      restore_admissible reg wire view oview w0 i m payload \<Longrightarrow>
      meta_of reg view w' = (meta_of reg view w)(trust_key m \<mapsto> trust_value wire m) \<Longrightarrow> guar w w'"
  shows "assured good guar (case_sum (\<lambda>_. True) (restore_outcome reg wire view oview w0 i)) (co_restore reg wire i)"
  unfolding co_restore_split
proof (rule assured_cobind [OF assured_co_verified [OF rely]], clarify)
  fix m payload n
  assume m: "restore_admissible reg wire view oview w0 i m payload" "replay_count m n"
  have "assured good guar (case_sum (\<lambda>_. True) (\<lambda>_. True)) (co_promote_trust reg wire m)"
    by (rule assured_mono [OF assured_co_promote_trust [OF rely trust_write [OF _ _ m(1)]]])
      (auto split: sum.split)
  moreover have "restore_outcome reg wire view oview w0 i (result_of i m payload n)"
    using m unfolding restore_outcome_def by blast
  ultimately show "assured good guar (case_sum (\<lambda>_. True) (restore_outcome reg wire view oview w0 i))
      (cobind (co_promote_trust reg wire m) (\<lambda>_. coret (result_of i m payload n)))"
    by (intro assured_cobind [where raised = "\<lambda>_. True" and mid = "\<lambda>_. True"]) simp_all
qed simp

lemma trust_guar_write:
  assumes "oview w' = oview w" and "restore_admissible reg wire view oview w0 i m payload" and "i \<in> set ids"
    and "meta_of reg view w' = (meta_of reg view w)(trust_key m \<mapsto> trust_value wire m)"
  shows "trust_guar reg wire view oview ids w0 w w'"
  using assms by (auto simp: trust_guar_def split: if_splits)

lemma trust_guar_trans:
  "trust_guar reg wire view oview ids w0 w w1 \<Longrightarrow> trust_guar reg wire view oview ids w0 w1 w2 \<Longrightarrow>
     trust_guar reg wire view oview ids w0 w w2"
  unfolding trust_guar_def by metis

lemma trust_guar_star:
  "(trust_guar reg wire view oview ids w0)\<^sup>*\<^sup>* w w' \<Longrightarrow> trust_guar reg wire view oview ids w0 w w'"
proof (induction rule: rtranclp_induct)
  case base
  then show ?case by (simp add: trust_guar_def)
next
  case (step y z)
  then show ?case by (blast intro: trust_guar_trans)
qed

text \<open>
  C5: any number of restores at the same time, interleaved in any way, by one server or by many. At
  every moment, an entry of the metadata that differs from what it was at the start is the trust
  entry of a manifest that passed the checks on the manifest and the payload, and holds the class
  granted for it; and a restore that has returned has passed these checks and counts between 1 and
  1000 events after a declared cursor.
\<close>

theorem restores_interleaved:
  assumes "restore_backends_ok reg view oview"
    and "pool_run (map (co_restore reg wire) ids, w) (cs, w')"
  shows "(\<forall>key. meta_of reg view w' key = meta_of reg view w key \<or>
       (\<exists>i m payload. i \<in> set ids \<and> restore_admissible reg wire view oview w i m payload \<and>
          key = trust_key m \<and> meta_of reg view w' key = Some (trust_value wire m))) \<and>
     (\<forall>i < length ids. \<forall>res. cs ! i = Done (Inr res) \<longrightarrow>
       restore_outcome reg wire view oview w (ids ! i) res)"
proof -
  note rely = trust_guar_rely [OF assms(1), of w wire ids]
  have start: "restore_world reg view oview w w" by (simp add: restore_world_def)
  have task: "assured (restore_world reg view oview w) (trust_guar reg wire view oview ids w)
      (case_sum (\<lambda>_. True) (restore_outcome reg wire view oview w (ids ! i))) (map (co_restore reg wire) ids ! i)"
    if "i < length (map (co_restore reg wire) ids)" for i
  proof -
    from that have "i < length ids" by simp
    then have "assured (restore_world reg view oview w) (trust_guar reg wire view oview ids w)
        (case_sum (\<lambda>_. True) (restore_outcome reg wire view oview w (ids ! i))) (co_restore reg wire (ids ! i))"
      by (intro assured_co_restore [OF rely] trust_guar_write) (assumption | simp)+
    with that show ?thesis by simp
  qed
  have g: "(trust_guar reg wire view oview ids w)\<^sup>*\<^sup>* w w'"
    using restores.pool_assured [OF assms(2) start task] by blast
  show ?thesis
  proof (intro conjI allI impI)
    fix key
    from trust_guar_star [OF g] show "meta_of reg view w' key = meta_of reg view w key \<or>
        (\<exists>i m payload. i \<in> set ids \<and> restore_admissible reg wire view oview w i m payload \<and>
          key = trust_key m \<and> meta_of reg view w' key = Some (trust_value wire m))"
      unfolding trust_guar_def by blast
  next
    fix i res
    assume i: "i < length ids" "cs ! i = Done (Inr res)"
    then show "restore_outcome reg wire view oview w (ids ! i) res"
      using restores.pool_results [OF assms(2) start,
        where post = "\<lambda>i. case_sum (\<lambda>_. True) (restore_outcome reg wire view oview w (ids ! i))",
        OF task, of i "Inr res"] by simp
  qed
qed

section \<open>One split-brain token\<close>













text \<open>
  Interleaved restores end, whatever the backends answer and in whatever order their steps come:
  no schedule goes on for ever, and one brings every restore to its end.
\<close>

theorem restore_schedules_end:
  "(\<nexists>f. f 0 = (map (co_restore reg wire) ids, w) \<and> (\<forall>n. pool_step (f n) (f (Suc n)))) \<and>
   (\<exists>cs w'. pool_run (map (co_restore reg wire) ids, w) (cs, w') \<and> settled cs \<and> length cs = length ids)"
proof
  show "\<nexists>f. f 0 = (map (co_restore reg wire) ids, w) \<and> (\<forall>n. pool_step (f n) (f (Suc n)))"
  proof
    assume "\<exists>f. f 0 = (map (co_restore reg wire) ids, w) \<and> (\<forall>n. pool_step (f n) (f (Suc n)))"
    then obtain f where "f 0 = (map (co_restore reg wire) ids, w)" "\<forall>n. pool_step (f n) (f (Suc n))" by (elim exE conjE)
    from this(2) have "pool_step (f n) (f (Suc n))" for n ..
    then show False by (rule no_endless_schedule [of f])
  qed
  obtain cs w' where run: "pool_run (map (co_restore reg wire) ids, w) (cs, w')" and ended: "settled cs"
    using pool_settles [of "map (co_restore reg wire) ids" w] by (elim exE conjE)
  have "length cs = length ids" using pool_run_length [OF run] by simp
  with run ended show "\<exists>cs w'. pool_run (map (co_restore reg wire) ids, w) (cs, w') \<and> settled cs \<and> length cs = length ids"
    by (intro exI conjI)
qed

section \<open>Two restores at the same time\<close>

lemma mem_subscription_keeps_objects:
  "op_keeps mem_objects (sub_next_msg (mem_subscription i) t)"
  "op_keeps mem_objects (sub_unsubscribe (mem_subscription i))"
  by (auto simp: op_keeps_def mem_subscription_def split: list.splits)

lemma mem_objects_separate: "backends_separate mem_registry mem_objects"
  unfolding backends_separate_def
proof (intro conjI allI impI)
  fix f cfg b and w w' :: mem_world and sub t
  assume "js_subscribe (jes_client (reg_events mem_registry)) f cfg b w = (Inr sub, w')"
  then have "sub = mem_subscription (length (mw_subs w))"
    by (simp add: mem_registry_def mem_events_def mem_js_def)
  then show "op_keeps mem_objects (sub_next_msg sub t)" "op_keeps mem_objects (sub_unsubscribe sub)"
    by (simp_all add: mem_subscription_keeps_objects)
qed (auto simp: op_keeps_def mem_registry_def mem_events_def mem_js_def mem_minio_store_def mem_minio_def)

lemma mem_restore_backends_ok: "restore_backends_ok mem_registry mem_view mem_objects"
  unfolding restore_backends_ok_def
  using mem_registry_ok(1,2) mem_backends_separate mem_objects_separate
  by (auto simp: op_keeps_def mem_registry_def mem_store_def mem_etcd_def)


lemma example_two_restores:
  "\<exists>r w'. pool_run (map (co_restore mem_registry example_wire) [''m1'', ''m1''], example_world)
     ([Done (Inr (result_of ''m1'' example_manifest [1, 2, 3] 2)), Done r], w')"
proof -
  let ?c = "co_restore mem_registry example_wire ''m1''"
  let ?r = "Inr (result_of ''m1'' example_manifest [1, 2, 3] 2)"
  obtain w1 where w1: "run_coro ?c example_world = (?r, w1)"
    using example_restore unfolding run_co_restore by blast
  obtain r w2 where w2: "run_coro ?c w1 = (r, w2)" by fastforce
  have "pool_run ([?c, ?c], example_world) ([Done ?r, ?c], w1)"
    using pool_run_alone [of 0 "[?c, ?c]" ?c example_world ?r w1] w1 by simp
  moreover have "pool_run ([Done ?r, ?c], w1) ([Done ?r, Done r], w2)"
    using pool_run_alone [of 1 "[Done ?r, ?c]" ?c w1 r w2] w2 by simp
  ultimately have "pool_run ([?c, ?c], example_world) ([Done ?r, Done r], w2)" by (rule rtranclp_trans)
  then show ?thesis by auto
qed

theorem restores_interleaved_witness:
  "\<exists>cs w'. pool_run (map (co_restore mem_registry example_wire) [''m1'', ''m1''], example_world) (cs, w') \<and>
     settled cs \<and> (\<exists>res. cs ! 0 = Done (Inr res) \<and>
       restore_outcome mem_registry example_wire mem_view mem_objects example_world ''m1'' res)"
proof -
  obtain r w' where run: "pool_run (map (co_restore mem_registry example_wire) [''m1'', ''m1''], example_world)
     ([Done (Inr (result_of ''m1'' example_manifest [1, 2, 3] 2)), Done r], w')"
    using example_two_restores by blast
  let ?cs = "[Done (Inr (result_of ''m1'' example_manifest [1, 2, 3] 2)), Done r]"
  have "settled ?cs" by (simp add: settled_def)
  moreover have "?cs ! 0 = Done (Inr (result_of ''m1'' example_manifest [1, 2, 3] 2))" by simp
  moreover have "restore_outcome mem_registry example_wire mem_view mem_objects example_world ''m1''
      (result_of ''m1'' example_manifest [1, 2, 3] 2)"
    using restores_interleaved [OF mem_restore_backends_ok run] by (auto dest: spec [of _ 0])
  ultimately show ?thesis using run by blast
qed


end
