(* ===== verification/Concurrent_Health.thy ===== *)
theory Concurrent_Health
  imports Coroutine Storage_Registry
begin

text \<open>
  \<^verbatim>\<open>StorageRegistry.health\<close> of \<^verbatim>\<open>gaia_server/storage/registry.py\<close> with its three checks as coroutines:
  \<^verbatim>\<open>asyncio.gather\<close> runs them interleaved and hands their results over in the order of its arguments.
  Shown: whatever the schedule, the report is one on the three backends in this order, and its
  status is ok exactly when all three are; one of the schedules is the sequential check.
\<close>

section \<open>The checks as coroutines\<close>

definition co_js_health :: "'w event_store \<Rightarrow> ('w, pydict) task" where
  "co_js_health s =
     cotry (cobind (cocall (nc_flush (jes_client s) 2)) (\<lambda>_. cocall (\<lambda>w.
         (Inr [(''backend'', PStr ''jetstream''), (''status'', PStr ''ok''),
            (''connected'', PBool (nc_is_connected (jes_client s) w))], w))))
       (\<lambda>exc. coret [(''backend'', PStr ''jetstream''), (''status'', PStr ''error''),
          (''detail'', PStr (exn_str exc))])"

definition co_minio_health :: "'w minio_store \<Rightarrow> ('w, pydict) task" where
  "co_minio_health s =
     cotry (cobind (cocall (mc_bucket_exists (ms_client s) (ms_bucket s)))
         (\<lambda>_. coret [(''backend'', PStr ''minio''), (''status'', PStr ''ok''),
            (''bucket'', PStr (ms_bucket s))]))
       (\<lambda>exc. coret [(''backend'', PStr ''minio''), (''status'', PStr ''error''),
          (''detail'', PStr (exn_str exc))])"

definition co_etcd_health :: "'w etcd_store \<Rightarrow> ('w, pydict) task" where
  "co_etcd_health s =
     cotry (cobind (cocall (ec_status (es_client s)))
         (\<lambda>(leader_id, version). coret
            [(''backend'', PStr ''etcd''), (''status'', PStr ''ok''), (''leader'', leader_id),
             (''version'', PStr version)]))
       (\<lambda>exc. coret [(''backend'', PStr ''etcd''), (''status'', PStr ''error''),
          (''detail'', PStr (exn_str exc))])"

definition health_tasks :: "'w storage_registry \<Rightarrow> ('w, pydict) task list" where
  "health_tasks reg =
     [co_js_health (reg_events reg), co_minio_health (reg_checkpoints reg), co_etcd_health (reg_metadata reg)]"

section \<open>Alone, they are the checks\<close>

lemma run_co_js_health [coro_runs]: "run_coro (co_js_health s) = js_health s"
  by (simp add: co_js_health_def js_health_def coro_runs)

lemma run_co_minio_health [coro_runs]: "run_coro (co_minio_health s) = minio_health s"
  by (simp add: co_minio_health_def minio_health_def coro_runs)

lemma run_co_etcd_health [coro_runs]: "run_coro (co_etcd_health s) = etcd_health s"
  by (simp add: co_etcd_health_def etcd_health_def coro_runs prod.case_distrib [of run_coro])

lemma health_tasks_in_turn:
  "registry_health reg = opbind (gather_health (run_coro (health_tasks reg ! 0)) (run_coro (health_tasks reg ! 1))
     (run_coro (health_tasks reg ! 2))) (\<lambda>results. opret (joint_report results))"
  by (simp add: registry_health_def health_tasks_def coro_runs)

section \<open>Any schedule\<close>

interpretation checks: interference "\<lambda>_ :: 'w. True" "\<lambda>_ _ :: 'w. True"
  by unfold_locales simp

definition check_report :: "string \<Rightarrow> py_exn + pydict \<Rightarrow> bool" where
  "check_report backend r \<longleftrightarrow> (\<exists>d. r = Inr d \<and> map_of d ''backend'' = Some (PStr backend) \<and>
     (map_of d ''status'' = Some (PStr ''ok'') \<or> map_of d ''status'' = Some (PStr ''error'')))"

abbreviation always_reports :: "string \<Rightarrow> ('w, pydict) task \<Rightarrow> bool" where
  "always_reports backend \<equiv> assured (\<lambda>_. True) (\<lambda>_ _. True) (check_report backend)"

text \<open>A check whose client call raises only exceptions.\<close>

lemma always_reportsI:
  assumes "raises_Exceptions m"
    and "\<And>x. assured (\<lambda>_. True) (\<lambda>_ _. True) (\<lambda>r. \<exists>d. r = Inr d \<and>
           map_of d ''backend'' = Some (PStr backend) \<and> map_of d ''status'' = Some (PStr ''ok'')) (k x)"
    and "\<And>e. map_of (d e) ''backend'' = Some (PStr backend) \<and> map_of (d e) ''status'' = Some (PStr ''error'')"
  shows "always_reports backend (cotry (cobind (cocall m) k) (\<lambda>e. coret (d e)))"
proof (rule assured_cocatch [where raised = is_Exception])
  have call: "assured (\<lambda>_. True) (\<lambda>_ _. True) (case_sum is_Exception (\<lambda>_. True)) (cocall m)"
    using assms(1) by (intro assured_cocall) (auto simp: raises_Exceptions_def split: sum.split)
  show "assured (\<lambda>_. True) (\<lambda>_ _. True) (case_sum is_Exception (\<lambda>x. check_report backend (Inr x)))
      (cobind (cocall m) k)"
    by (rule assured_cobind [OF call]) (auto intro!: assured_mono [OF assms(2)] simp: check_report_def)
qed (use assms(3) in \<open>simp_all add: check_report_def\<close>)

lemma health_tasks_report:
  assumes "health_calls_ok reg" and "i < 3"
  shows "always_reports ([''jetstream'', ''minio'', ''etcd''] ! i) (health_tasks reg ! i)"
proof -
  have "always_reports ''jetstream'' (co_js_health (reg_events reg))"
    unfolding co_js_health_def
    by (rule always_reportsI) (use assms(1) in \<open>auto simp: health_calls_ok_def intro!: assured_cocall\<close>)
  moreover have "always_reports ''minio'' (co_minio_health (reg_checkpoints reg))"
    unfolding co_minio_health_def
    by (rule always_reportsI) (use assms(1) in \<open>auto simp: health_calls_ok_def\<close>)
  moreover have "always_reports ''etcd'' (co_etcd_health (reg_metadata reg))"
    unfolding co_etcd_health_def
    by (rule always_reportsI) (use assms(1) in \<open>auto simp: health_calls_ok_def split: prod.split\<close>)
  moreover have "i = 0 \<or> i = 1 \<or> i = 2" using assms(2) by linarith
  ultimately show ?thesis by (auto simp: health_tasks_def)
qed

text \<open>
  The joint health check under any schedule. When the clients raise only exceptions, then however
  the three checks are interleaved they all end with a report, \<^verbatim>\<open>gather\<close> hands the reports over in
  the order events, checkpoints, metadata, and the joint status is ok exactly when none of them is
  an error.
\<close>

theorem health_under_any_schedule:
  assumes "health_calls_ok reg" and "pool_run (health_tasks reg, w) (cs, w')" and "settled cs"
  shows "\<exists>a b c. cs = map (Done \<circ> Inr) [a, b, c] \<and>
     map (\<lambda>r. map_of r ''backend'') [a, b, c] = map (Some \<circ> PStr) [''jetstream'', ''minio'', ''etcd''] \<and>
     map_of (joint_report [a, b, c]) ''status'' = Some (PStr
       (if \<exists>r \<in> {a, b, c}. map_of r ''status'' = Some (PStr ''error'') then ''degraded'' else ''ok''))"
proof -
  have len: "length cs = 3" using pool_run_length [OF assms(2)] by (simp add: health_tasks_def)
  have report: "\<exists>d. cs ! i = Done (Inr d) \<and>
      map_of d ''backend'' = Some (PStr ([''jetstream'', ''minio'', ''etcd''] ! i)) \<and>
      (map_of d ''status'' = Some (PStr ''ok'') \<or> map_of d ''status'' = Some (PStr ''error''))"
    if i: "i < 3" for i
  proof -
    obtain r where r: "cs ! i = Done r"
      using assms(3) i len by (auto simp: settled_def list_all_length)
    have "check_report ([''jetstream'', ''minio'', ''etcd''] ! i) r"
      using checks.pool_results [OF assms(2), where post = "\<lambda>i. check_report ([''jetstream'', ''minio'', ''etcd''] ! i)",
        of i r] health_tasks_report [OF assms(1)] i r by (simp add: health_tasks_def)
    with r show ?thesis unfolding check_report_def by blast
  qed
  obtain a b c where abc: "cs ! 0 = Done (Inr a)" "cs ! 1 = Done (Inr b)" "cs ! 2 = Done (Inr c)"
    and backends: "map_of a ''backend'' = Some (PStr ''jetstream'')" "map_of b ''backend'' = Some (PStr ''minio'')"
      "map_of c ''backend'' = Some (PStr ''etcd'')"
    and status: "\<forall>r \<in> {a, b, c}. map_of r ''status'' = Some (PStr ''ok'') \<or> map_of r ''status'' = Some (PStr ''error'')"
    using report [of 0] report [of 1] report [of 2] by auto
  have "cs = map (Done \<circ> Inr) [a, b, c]"
    by (rule nth_equalityI) (use len abc in \<open>auto simp: less_Suc_eq numeral_3_eq_3 numeral_2_eq_2\<close>)
  moreover have "overall_status [a, b, c] =
      (if \<exists>r \<in> {a, b, c}. map_of r ''status'' = Some (PStr ''error'') then ''degraded'' else ''ok'')"
    using status by (auto simp: overall_status_def)
  ultimately show ?thesis using backends by (auto simp: joint_report_def)
qed

theorem health_under_any_schedule_witness:
  "\<exists>a b c w'. pool_run (health_tasks mem_registry, mem_empty) (map (Done \<circ> Inr) [a, b, c], w') \<and>
     map_of c ''backend'' = Some (PStr ''etcd'')"
proof -
  have ok: "health_calls_ok mem_registry"
    by (simp add: health_calls_ok_def raises_Exceptions_def mem_registry_def mem_events_def mem_js_def
        mem_minio_store_def mem_minio_def mem_store_def mem_etcd_def)
  obtain cs w' where run: "pool_run (health_tasks mem_registry, mem_empty) (cs, w')" and ended: "settled cs"
    using pool_settles [of "health_tasks mem_registry" mem_empty] by (elim exE conjE)
  from health_under_any_schedule [OF ok run ended] obtain a b c where
    "cs = map (Done \<circ> Inr) [a, b, c]" "map_of c ''backend'' = Some (PStr ''etcd'')" by auto
  with run show ?thesis by blast
qed

end
