(* ===== verification/Py_Value.thy ===== *)
theory Py_Value
  imports Py_Text Json_Text
begin

text \<open>
  Operations of the language on dynamic values: \<^verbatim>\<open>v[k]\<close>, \<^verbatim>\<open>v.get(k, d)\<close>, \<^verbatim>\<open>len(v)\<close>, \<^verbatim>\<open>max\<close>, the
  characters and words of a text, and a chain of fallible evaluations. The arithmetic of
  floats, whose \<^verbatim>\<open>sum\<close> depends on the interpreter's version, is the parameter \<open>float_ops\<close>.
\<close>

section \<open>Chains of fallible evaluations\<close>

definition ebind :: "py_exn + 'a \<Rightarrow> ('a \<Rightarrow> py_exn + 'b) \<Rightarrow> py_exn + 'b" where
  "ebind r k = (case r of Inl e \<Rightarrow> Inl e | Inr x \<Rightarrow> k x)"

fun emap :: "('a \<Rightarrow> py_exn + 'b) \<Rightarrow> 'a list \<Rightarrow> py_exn + 'b list" where
  "emap f [] = Inr []"
| "emap f (x # xs) = ebind (f x) (\<lambda>y. ebind (emap f xs) (\<lambda>ys. Inr (y # ys)))"

lemma ebind_simps [simp]: "ebind (Inl e) k = Inl e" "ebind (Inr x) k = k x"
  by (simp_all add: ebind_def)

lemma ebind_eq_Inr: "ebind r k = Inr y \<longleftrightarrow> (\<exists>x. r = Inr x \<and> k x = Inr y)"
  by (cases r) simp_all

lemma ebind_eq_Inl: "ebind r k = Inl e \<longleftrightarrow> r = Inl e \<or> (\<exists>x. r = Inr x \<and> k x = Inl e)"
  by (cases r) simp_all

lemma emap_all: "(\<forall>x \<in> set xs. f x = Inr (g x)) \<Longrightarrow> emap f xs = Inr (map g xs)"
  by (induction xs) simp_all

lemma emap_ok: "(\<forall>x \<in> set xs. \<exists>y. f x = Inr y) \<Longrightarrow> \<exists>ys. emap f xs = Inr ys \<and> length ys = length xs"
  by (induction xs) (auto simp: ebind_def)

lemma emap_fails: "x \<in> set xs \<Longrightarrow> f x = Inl e \<Longrightarrow> \<exists>e'. emap f xs = Inl e'"
proof (induction xs)
  case Nil
  then show ?case by simp
next
  case (Cons a xs)
  then show ?case by (cases "f a") auto
qed

section \<open>Access\<close>

text \<open>The name of a value's class, for the messages of type errors.\<close>

fun type_name :: "pyval \<Rightarrow> string" where
  "type_name PNone = ''NoneType''"
| "type_name (PBool b) = ''bool''"
| "type_name (PInt n) = ''int''"
| "type_name (PFloat x) = ''float''"
| "type_name (PStr s) = ''str''"
| "type_name (PList xs) = ''list''"
| "type_name (PDict d) = ''dict''"

definition quoted :: "string \<Rightarrow> string" where
  "quoted s = [single_quote] @ s @ [single_quote]"

fun py_getitem :: "pyval \<Rightarrow> string \<Rightarrow> py_exn + pyval" where
  "py_getitem (PDict d) k = (case map_of d k of None \<Rightarrow> Inl (KeyError k) | Some v \<Rightarrow> Inr v)"
| "py_getitem (PStr s) k = Inl (TypeError ''string indices must be integers'')"
| "py_getitem (PList xs) k = Inl (TypeError ''list indices must be integers or slices, not str'')"
| "py_getitem v k = Inl (TypeError (quoted (type_name v) @ '' object is not subscriptable''))"

fun py_path :: "pyval \<Rightarrow> string list \<Rightarrow> py_exn + pyval" where
  "py_path v [] = Inr v"
| "py_path v (k # ks) = ebind (py_getitem v k) (\<lambda>u. py_path u ks)"

fun py_get :: "pyval \<Rightarrow> string \<Rightarrow> pyval \<Rightarrow> py_exn + pyval" where
  "py_get (PDict d) k dflt = Inr (dget d k dflt)"
| "py_get v k dflt = Inl (AttributeError (quoted (type_name v) @ '' object has no attribute '' @ quoted ''get''))"

fun py_items :: "pyval \<Rightarrow> py_exn + (string \<times> pyval) list" where
  "py_items (PDict d) = Inr d"
| "py_items v = Inl (AttributeError (quoted (type_name v) @ '' object has no attribute '' @ quoted ''items''))"

section \<open>Characters and words\<close>

text \<open>The bytes of a text that do not begin a character, and the text cut into characters.\<close>

definition is_continuation :: "char \<Rightarrow> bool" where
  "is_continuation c \<longleftrightarrow> 128 \<le> (of_char c :: nat) \<and> (of_char c :: nat) < 192"

definition str_len :: "string \<Rightarrow> nat" where
  "str_len s = length (filter (\<lambda>c. \<not> is_continuation c) s)"

text \<open>\<^verbatim>\<open>s[:n]\<close> for a natural number n.\<close>

fun take_chars :: "nat \<Rightarrow> string \<Rightarrow> string" where
  "take_chars n [] = []"
| "take_chars n (c # cs) =
     (if is_continuation c then c # take_chars n cs
      else case n of 0 \<Rightarrow> [] | Suc m \<Rightarrow> c # take_chars m cs)"

text \<open>\<^verbatim>\<open>len(s.split())\<close>: the number of maximal runs without white space.\<close>

fun count_words :: "bool \<Rightarrow> string \<Rightarrow> nat" where
  "count_words inside [] = 0"
| "count_words inside (c # cs) =
     (if is_space_char c then count_words False cs
      else (if inside then 0 else 1) + count_words True cs)"

text \<open>\<^verbatim>\<open>s.lower()\<close> and \<^verbatim>\<open>s.upper()\<close> on ASCII letters.\<close>

definition lower_char :: "char \<Rightarrow> char" where
  "lower_char c = (let n = (of_char c :: nat) in if 65 \<le> n \<and> n \<le> 90 then char_of (n + 32) else c)"

definition upper_char :: "char \<Rightarrow> char" where
  "upper_char c = (let n = (of_char c :: nat) in if 97 \<le> n \<and> n \<le> 122 then char_of (n - 32) else c)"

definition lower :: "string \<Rightarrow> string" where
  "lower s = map lower_char s"

definition upper :: "string \<Rightarrow> string" where
  "upper s = map upper_char s"

fun py_len :: "pyval \<Rightarrow> py_exn + nat" where
  "py_len (PStr s) = Inr (str_len s)"
| "py_len (PList xs) = Inr (length xs)"
| "py_len (PDict d) = Inr (length d)"
| "py_len v = Inl (TypeError (''object of type '' @ quoted (type_name v) @ '' has no len()''))"

lemma str_len_take_chars: "str_len (take_chars n s) \<le> n"
  by (induction n s rule: take_chars.induct) (auto simp: str_len_def split: nat.split)

section \<open>Arithmetic and comparison of dynamic values\<close>

record float_ops =
  fo_float :: "pyval \<Rightarrow> py_exn + pyfloat"
  fo_sum :: "pyfloat list \<Rightarrow> pyfloat"
  fo_div :: "pyfloat \<Rightarrow> int \<Rightarrow> pyfloat"
  fo_round :: "pyfloat \<Rightarrow> nat \<Rightarrow> pyfloat"
  fo_greater :: "pyval \<Rightarrow> pyval \<Rightarrow> py_exn + bool"
  fo_text :: "pyfloat \<Rightarrow> string"

text \<open>\<^verbatim>\<open>max\<close> over a non-empty sequence keeps the first of the largest.\<close>

fun py_max :: "(pyval \<Rightarrow> pyval \<Rightarrow> py_exn + bool) \<Rightarrow> pyval \<Rightarrow> pyval list \<Rightarrow> py_exn + pyval" where
  "py_max gt m [] = Inr m"
| "py_max gt m (x # xs) = ebind (gt x m) (\<lambda>b. py_max gt (if b then x else m) xs)"

lemma py_max_ok:
  assumes "\<forall>x \<in> insert m (set xs). \<forall>y \<in> insert m (set xs). \<exists>b. gt x y = Inr b"
  shows "\<exists>v \<in> insert m (set xs). py_max gt m xs = Inr v"
  using assms
proof (induction xs arbitrary: m)
  case Nil
  then show ?case by simp
next
  case (Cons x xs)
  then obtain b where b: "gt x m = Inr b" by auto
  let ?m = "if b then x else m"
  have "\<forall>u \<in> insert ?m (set xs). \<forall>v \<in> insert ?m (set xs). \<exists>b. gt u v = Inr b"
    using Cons.prems by auto
  from Cons.IH [OF this] b show ?case by auto
qed

text \<open>The truth value of a dynamic value.\<close>

fun truthy :: "pyval \<Rightarrow> bool" where
  "truthy PNone = False"
| "truthy (PBool b) = b"
| "truthy (PInt n) = (n \<noteq> 0)"
| "truthy (PFloat x) = (x \<noteq> Fin 0)"
| "truthy (PStr s) = (s \<noteq> [])"
| "truthy (PList xs) = (xs \<noteq> [])"
| "truthy (PDict d) = (d \<noteq> [])"

section \<open>Text of dynamic values\<close>

text \<open>\<^verbatim>\<open>repr(v)\<close> and \<^verbatim>\<open>str(v)\<close>, with the text of a float as an argument.\<close>

primrec repr_val :: "(pyfloat \<Rightarrow> string) \<Rightarrow> pyval \<Rightarrow> string" where
  "repr_val ft PNone = ''None''"
| "repr_val ft (PBool b) = (if b then ''True'' else ''False'')"
| "repr_val ft (PInt n) = str_int n"
| "repr_val ft (PFloat x) = ft x"
| "repr_val ft (PStr s) = py_repr s"
| "repr_val ft (PList xs) = ''['' @ join '', '' (map (repr_val ft) xs) @ '']''"
| "repr_val ft (PDict d) = ''{'' @
     join '', '' (map (\<lambda>(k, t). py_repr k @ '': '' @ t) (map (map_prod id (repr_val ft)) d)) @ ''}''"

definition str_of_val :: "(pyfloat \<Rightarrow> string) \<Rightarrow> pyval \<Rightarrow> string" where
  "str_of_val ft v = (case v of PStr s \<Rightarrow> s | _ \<Rightarrow> repr_val ft v)"

section \<open>Environment variables\<close>

type_synonym environ = "string \<Rightarrow> string option"

definition env_get :: "environ \<Rightarrow> string \<Rightarrow> string \<Rightarrow> string" where
  "env_get env k dflt = (case env k of None \<Rightarrow> dflt | Some v \<Rightarrow> v)"

definition int_of_text :: "string \<Rightarrow> py_exn + int" where
  "int_of_text s = (case py_int s of
     None \<Rightarrow> Inl (ValueError (''invalid literal for int() with base 10: '' @ py_repr s))
   | Some n \<Rightarrow> Inr n)"

definition env_int :: "environ \<Rightarrow> string \<Rightarrow> string \<Rightarrow> py_exn + int" where
  "env_int env k dflt = int_of_text (env_get env k dflt)"

definition env_flag :: "environ \<Rightarrow> string \<Rightarrow> string \<Rightarrow> bool" where
  "env_flag env k dflt \<longleftrightarrow> lower (env_get env k dflt) = ''true''"

lemma int_of_str_int: "\<bar>n\<bar> < 10 ^ INT_DIGIT_LIMIT \<Longrightarrow> int_of_text (str_int n) = Inr n"
  by (simp add: int_of_text_def py_int_str_int)

lemma env_int_default: "env k = None \<Longrightarrow> env_int env k dflt = int_of_text dflt"
  by (simp add: env_int_def env_get_def)

end
