(* ===== verification/Settings.thy ===== *)
theory Settings
  imports Py_Value
begin

text \<open>
  \<^verbatim>\<open>gaia_server/storage/settings.py\<close> and \<^verbatim>\<open>gaia_server/inference/settings.py\<close>: the settings read from
  environment variables. A number that is not one raises, in the order of the fields. Shown: the
  settings of an empty environment are the documented defaults, and settings written to the
  environment are read back.
\<close>

section \<open>Storage\<close>

record storage_settings =
  st_nats_url :: string
  st_nats_connect_timeout :: int
  st_nats_max_reconnect :: int
  st_minio_endpoint :: string
  st_minio_access_key :: string
  st_minio_secret_key :: string
  st_minio_bucket :: string
  st_minio_secure :: bool
  st_etcd_host :: string
  st_etcd_port :: int
  st_etcd_namespace :: string
  st_etcd_timeout :: int

definition storage_from_env :: "environ \<Rightarrow> py_exn + storage_settings" where
  "storage_from_env env =
     ebind (env_int env ''NATS_CONNECT_TIMEOUT'' ''5'') (\<lambda>connect_timeout.
     ebind (env_int env ''NATS_MAX_RECONNECT'' ''10'') (\<lambda>max_reconnect.
     ebind (env_int env ''ETCD_PORT'' ''2379'') (\<lambda>port.
     ebind (env_int env ''ETCD_TIMEOUT'' ''5'') (\<lambda>timeout. Inr
       \<lparr>st_nats_url = env_get env ''NATS_URL'' ''nats://localhost:4222'',
        st_nats_connect_timeout = connect_timeout,
        st_nats_max_reconnect = max_reconnect,
        st_minio_endpoint = env_get env ''MINIO_ENDPOINT'' ''localhost:9000'',
        st_minio_access_key = env_get env ''MINIO_ACCESS_KEY'' ''minioadmin'',
        st_minio_secret_key = env_get env ''MINIO_SECRET_KEY'' ''minioadmin'',
        st_minio_bucket = env_get env ''MINIO_BUCKET'' ''gaia-checkpoints'',
        st_minio_secure = env_flag env ''MINIO_SECURE'' ''false'',
        st_etcd_host = env_get env ''ETCD_HOST'' ''localhost'',
        st_etcd_port = port,
        st_etcd_namespace = env_get env ''ETCD_NAMESPACE'' ''gaia'',
        st_etcd_timeout = timeout\<rparr>))))"

section \<open>Inference\<close>

record inference_settings =
  if_llama_model_path :: "string option"
  if_llama_n_ctx :: int
  if_llama_n_gpu_layers :: int
  if_llama_n_threads :: int
  if_llama_verbose :: bool
  if_inference_timeout_ms :: int
  if_inference_max_tokens :: int
  if_inference_default_backend :: string

definition inference_from_env :: "environ \<Rightarrow> py_exn + inference_settings" where
  "inference_from_env env =
     ebind (env_int env ''LLAMA_N_CTX'' ''4096'') (\<lambda>n_ctx.
     ebind (env_int env ''LLAMA_N_GPU_LAYERS'' ''0'') (\<lambda>n_gpu_layers.
     ebind (env_int env ''LLAMA_N_THREADS'' ''4'') (\<lambda>n_threads.
     ebind (env_int env ''INFERENCE_TIMEOUT_MS'' ''30000'') (\<lambda>timeout_ms.
     ebind (env_int env ''INFERENCE_MAX_TOKENS'' ''512'') (\<lambda>max_tokens. Inr
       \<lparr>if_llama_model_path = (if truthy_str (env ''LLAMA_MODEL_PATH'') then env ''LLAMA_MODEL_PATH'' else None),
        if_llama_n_ctx = n_ctx, if_llama_n_gpu_layers = n_gpu_layers, if_llama_n_threads = n_threads,
        if_llama_verbose = env_flag env ''LLAMA_VERBOSE'' ''false'',
        if_inference_timeout_ms = timeout_ms, if_inference_max_tokens = max_tokens,
        if_inference_default_backend = env_get env ''INFERENCE_DEFAULT_BACKEND'' ''mock''\<rparr>)))))"

section \<open>Defaults and round trip\<close>

definition storage_to_env :: "storage_settings \<Rightarrow> environ" where
  "storage_to_env c = map_of
     [(''NATS_URL'', st_nats_url c), (''NATS_CONNECT_TIMEOUT'', str_int (st_nats_connect_timeout c)),
      (''NATS_MAX_RECONNECT'', str_int (st_nats_max_reconnect c)), (''MINIO_ENDPOINT'', st_minio_endpoint c),
      (''MINIO_ACCESS_KEY'', st_minio_access_key c), (''MINIO_SECRET_KEY'', st_minio_secret_key c),
      (''MINIO_BUCKET'', st_minio_bucket c), (''MINIO_SECURE'', if st_minio_secure c then ''true'' else ''false''),
      (''ETCD_HOST'', st_etcd_host c), (''ETCD_PORT'', str_int (st_etcd_port c)),
      (''ETCD_NAMESPACE'', st_etcd_namespace c), (''ETCD_TIMEOUT'', str_int (st_etcd_timeout c))]"

definition env_sized :: "int \<Rightarrow> bool" where
  "env_sized n \<longleftrightarrow> \<bar>n\<bar> < 10 ^ INT_DIGIT_LIMIT"

lemma env_sized_int [simp]: "env_sized n \<Longrightarrow> int_of_text (str_int n) = Inr n"
  unfolding env_sized_def by (rule int_of_str_int)

lemma lower_flags [simp]: "lower ''true'' = ''true''" "lower ''false'' = ''false''"
  by (simp_all add: lower_def lower_char_def Let_def)

lemma storage_to_env_simps:
  "storage_to_env c ''NATS_URL'' = Some (st_nats_url c)"
  "storage_to_env c ''NATS_CONNECT_TIMEOUT'' = Some (str_int (st_nats_connect_timeout c))"
  "storage_to_env c ''NATS_MAX_RECONNECT'' = Some (str_int (st_nats_max_reconnect c))"
  "storage_to_env c ''MINIO_ENDPOINT'' = Some (st_minio_endpoint c)"
  "storage_to_env c ''MINIO_ACCESS_KEY'' = Some (st_minio_access_key c)"
  "storage_to_env c ''MINIO_SECRET_KEY'' = Some (st_minio_secret_key c)"
  "storage_to_env c ''MINIO_BUCKET'' = Some (st_minio_bucket c)"
  "storage_to_env c ''MINIO_SECURE'' = Some (if st_minio_secure c then ''true'' else ''false'')"
  "storage_to_env c ''ETCD_HOST'' = Some (st_etcd_host c)"
  "storage_to_env c ''ETCD_PORT'' = Some (str_int (st_etcd_port c))"
  "storage_to_env c ''ETCD_NAMESPACE'' = Some (st_etcd_namespace c)"
  "storage_to_env c ''ETCD_TIMEOUT'' = Some (str_int (st_etcd_timeout c))"
  by (simp_all add: storage_to_env_def)

text \<open>
  Settings survive the environment. Storage settings whose numbers have at most 4300 digits,
  written to the environment variables, are what \<open>from_env\<close> reads.
\<close>

theorem storage_settings_roundtrip:
  assumes "env_sized (st_nats_connect_timeout c)" and "env_sized (st_nats_max_reconnect c)"
    and "env_sized (st_etcd_port c)" and "env_sized (st_etcd_timeout c)"
  shows "storage_from_env (storage_to_env c) = Inr c"
proof -
  have i: "env_int (storage_to_env c) ''NATS_CONNECT_TIMEOUT'' d = Inr (st_nats_connect_timeout c)"
    "env_int (storage_to_env c) ''NATS_MAX_RECONNECT'' d = Inr (st_nats_max_reconnect c)"
    "env_int (storage_to_env c) ''ETCD_PORT'' d = Inr (st_etcd_port c)"
    "env_int (storage_to_env c) ''ETCD_TIMEOUT'' d = Inr (st_etcd_timeout c)" for d
    using assms unfolding env_int_def env_get_def storage_to_env_simps by simp_all
  have f: "env_flag (storage_to_env c) ''MINIO_SECURE'' d = st_minio_secure c" for d
    unfolding env_flag_def env_get_def storage_to_env_simps by simp
  show ?thesis
    unfolding storage_from_env_def i f env_get_def storage_to_env_simps by simp
qed

lemma env_sized_small: "\<bar>n\<bar> < 10 ^ 9 \<Longrightarrow> env_sized n"
proof -
  assume "\<bar>n\<bar> < 10 ^ 9"
  moreover have "(10::int) ^ 9 \<le> 10 ^ INT_DIGIT_LIMIT"
    by (rule power_increasing) (simp_all add: INT_DIGIT_LIMIT_def)
  ultimately show ?thesis unfolding env_sized_def by linarith
qed

definition default_storage :: storage_settings where
  "default_storage =
     \<lparr>st_nats_url = ''nats://localhost:4222'', st_nats_connect_timeout = 5, st_nats_max_reconnect = 10,
      st_minio_endpoint = ''localhost:9000'', st_minio_access_key = ''minioadmin'',
      st_minio_secret_key = ''minioadmin'', st_minio_bucket = ''gaia-checkpoints'',
      st_minio_secure = False, st_etcd_host = ''localhost'', st_etcd_port = 2379,
      st_etcd_namespace = ''gaia'', st_etcd_timeout = 5\<rparr>"

theorem storage_settings_roundtrip_witness:
  "storage_from_env (storage_to_env (default_storage\<lparr>st_minio_secure := True\<rparr>)) =
     Inr (default_storage\<lparr>st_minio_secure := True\<rparr>)"
  by (rule storage_settings_roundtrip) (simp_all add: default_storage_def env_sized_small)

lemma default_numbers:
  "int_of_text ''5'' = Inr 5" "int_of_text ''10'' = Inr 10" "int_of_text ''2379'' = Inr 2379"
  "int_of_text ''4096'' = Inr 4096" "int_of_text ''0'' = Inr 0" "int_of_text ''4'' = Inr 4"
  "int_of_text ''30000'' = Inr 30000" "int_of_text ''512'' = Inr 512"
  by (simp_all add: int_of_text_def py_int_def strip_def is_space_char_def Let_def INT_DIGIT_LIMIT_def)

lemma storage_defaults: "storage_from_env (\<lambda>_. None) = Inr default_storage"
  by (simp add: storage_from_env_def env_int_def env_get_def env_flag_def default_numbers default_storage_def)

definition default_inference :: inference_settings where
  "default_inference =
     \<lparr>if_llama_model_path = None, if_llama_n_ctx = 4096, if_llama_n_gpu_layers = 0,
      if_llama_n_threads = 4, if_llama_verbose = False, if_inference_timeout_ms = 30000,
      if_inference_max_tokens = 512, if_inference_default_backend = ''mock''\<rparr>"

lemma inference_defaults: "inference_from_env (\<lambda>_. None) = Inr default_inference"
  by (simp add: inference_from_env_def env_int_def env_get_def env_flag_def default_numbers default_inference_def)

end
