(* ===== verification/Storage_Factory.thy ===== *)
theory Storage_Factory
  imports Storage_Registry Settings
begin

text \<open>
  \<^verbatim>\<open>gaia_server/storage/factory.py\<close>: connecting to the three services. The imports and the
  constructors of the client packages are the parameter \<open>infra\<close>; the codecs are those of
  \<^verbatim>\<open>gaia_core\<close>. Shown: what the registry is wired to, and that it is only made over existing
  streams and an existing bucket.
\<close>

record minio_args =
  ma_endpoint :: string
  ma_access_key :: string
  ma_secret_key :: string
  ma_secure :: bool

record 'w infra =
  in_imports :: "('w, unit) op"
  in_nats_connect :: "string \<Rightarrow> int \<Rightarrow> int \<Rightarrow> ('w, 'w js_client) op"
  in_minio :: "minio_args \<Rightarrow> ('w, 'w minio_client) op"
  in_etcd :: "string \<Rightarrow> int \<Rightarrow> int \<Rightarrow> ('w, 'w etcd_client) op"

definition ensure_bucket :: "'w minio_client \<Rightarrow> string \<Rightarrow> ('w, unit) op" where
  "ensure_bucket client bucket =
     opbind (mc_bucket_exists client bucket)
       (\<lambda>present. if \<not> present then mc_make_bucket client bucket else opret ())"

definition create_registry :: "'w infra \<Rightarrow> event_codec \<Rightarrow> ref_codec \<Rightarrow> environ \<Rightarrow> storage_settings option
    \<Rightarrow> ('w, 'w storage_registry) op" where
  "create_registry infra ecodec rcodec env settings =
     opbind (in_imports infra) (\<lambda>_.
     opbind (oplift (case settings of Some cfg \<Rightarrow> Inr cfg | None \<Rightarrow> storage_from_env env)) (\<lambda>cfg.
     opbind (in_nats_connect infra (st_nats_url cfg) (st_nats_connect_timeout cfg) (st_nats_max_reconnect cfg)) (\<lambda>nc.
     opbind (ensure_streams nc) (\<lambda>_.
     opbind (in_minio infra
         \<lparr>ma_endpoint = st_minio_endpoint cfg, ma_access_key = st_minio_access_key cfg,
          ma_secret_key = st_minio_secret_key cfg, ma_secure = st_minio_secure cfg\<rparr>) (\<lambda>minio_client.
     opbind (ensure_bucket minio_client (st_minio_bucket cfg)) (\<lambda>_.
     opbind (in_etcd infra (st_etcd_host cfg) (st_etcd_port cfg) (st_etcd_timeout cfg)) (\<lambda>etcd_client.
       opret
         \<lparr>reg_events = \<lparr>jes_client = nc, jes_codec = ecodec\<rparr>,
          reg_checkpoints = \<lparr>ms_client = minio_client, ms_bucket = st_minio_bucket cfg, ms_codec = rcodec\<rparr>,
          reg_metadata = \<lparr>es_client = etcd_client, es_ns = st_etcd_namespace cfg\<rparr>\<rparr>)))))))"

text \<open>The documented behaviour of the two bucket calls, over the existing buckets.\<close>

definition bucket_calls_ok :: "'w minio_client \<Rightarrow> ('w \<Rightarrow> string \<Rightarrow> bool) \<Rightarrow> bool" where
  "bucket_calls_ok c buckets \<longleftrightarrow>
     (\<forall>b w x w'. mc_bucket_exists c b w = (Inr x, w') \<longrightarrow> x = buckets w b \<and> buckets w' = buckets w) \<and>
     (\<forall>b w u w'. mc_make_bucket c b w = (Inr u, w') \<longrightarrow> buckets w' b)"

lemma ensure_bucket_present:
  assumes "bucket_calls_ok c buckets" and "ensure_bucket c b w = (Inr u, w')"
  shows "buckets w' b"
proof -
  from assms(2) obtain x w1 where x: "mc_bucket_exists c b w = (Inr x, w1)"
    and r: "(if \<not> x then mc_make_bucket c b else opret ()) w1 = (Inr u, w')"
    unfolding ensure_bucket_def by (rule opbind_InrE)
  have v: "x = buckets w b" "buckets w1 = buckets w" using assms(1) x unfolding bucket_calls_ok_def by blast+
  show ?thesis
  proof (cases x)
    case True
    with r v show ?thesis by simp
  next
    case False
    with r have "mc_make_bucket c b w1 = (Inr u, w')" by simp
    with assms(1) show ?thesis unfolding bucket_calls_ok_def by blast
  qed
qed

text \<open>
  A registry is made over what it needs. When \<open>create_registry\<close> returns with given settings, its
  stores use the configured bucket and namespace and the clients that were connected, and at some
  point on the way the canonical streams and the bucket were there.
\<close>

theorem create_registry_wires:
  assumes "create_registry infra ecodec rcodec env (Some cfg) w = (Inr reg, w')"
    and "\<forall>url a b w nc w'. in_nats_connect infra url a b w = (Inr nc, w') \<longrightarrow> stream_admin_ok nc streams"
    and "\<forall>args w c w'. in_minio infra args w = (Inr c, w') \<longrightarrow> bucket_calls_ok c buckets"
  shows "ms_bucket (reg_checkpoints reg) = st_minio_bucket cfg \<and>
     es_ns (reg_metadata reg) = st_etcd_namespace cfg \<and>
     (\<exists>w1 w2. in_nats_connect infra (st_nats_url cfg) (st_nats_connect_timeout cfg) (st_nats_max_reconnect cfg) w1 =
        (Inr (jes_client (reg_events reg)), w2)) \<and>
     (\<exists>w1 w2. in_etcd infra (st_etcd_host cfg) (st_etcd_port cfg) (st_etcd_timeout cfg) w1 =
        (Inr (es_client (reg_metadata reg)), w2)) \<and>
     (\<exists>w3. \<forall>n \<in> set (dkeys STREAMS). streams w3 n \<noteq> None) \<and>
     (\<exists>w4. buckets w4 (st_minio_bucket cfg))"
proof -
  from assms(1) obtain w1 nc w2 w3 c w4 w5 ec w6 u v where
    nats: "in_nats_connect infra (st_nats_url cfg) (st_nats_connect_timeout cfg) (st_nats_max_reconnect cfg) w1 = (Inr nc, w2)"
    and streams: "ensure_streams nc w2 = (Inr u, w3)"
    and minio: "in_minio infra \<lparr>ma_endpoint = st_minio_endpoint cfg, ma_access_key = st_minio_access_key cfg,
          ma_secret_key = st_minio_secret_key cfg, ma_secure = st_minio_secure cfg\<rparr> w3 = (Inr c, w4)"
    and bucket: "ensure_bucket c (st_minio_bucket cfg) w4 = (Inr v, w5)"
    and etcd: "in_etcd infra (st_etcd_host cfg) (st_etcd_port cfg) (st_etcd_timeout cfg) w5 = (Inr ec, w6)"
    and reg: "reg = \<lparr>reg_events = \<lparr>jes_client = nc, jes_codec = ecodec\<rparr>,
          reg_checkpoints = \<lparr>ms_client = c, ms_bucket = st_minio_bucket cfg, ms_codec = rcodec\<rparr>,
          reg_metadata = \<lparr>es_client = ec, es_ns = st_etcd_namespace cfg\<rparr>\<rparr>"
    unfolding create_registry_def by (auto elim!: opbind_InrE)
  have "stream_admin_ok nc streams" using assms(2) nats by blast
  from ensure_all_effect [OF this streams [unfolded ensure_streams_def]]
  have "\<forall>n \<in> set (dkeys STREAMS). streams w3 n \<noteq> None" by simp
  moreover have "bucket_calls_ok c buckets" using assms(3) minio by blast
  then have "buckets w5 (st_minio_bucket cfg)" by (rule ensure_bucket_present [OF _ bucket])
  moreover have "ms_bucket (reg_checkpoints reg) = st_minio_bucket cfg \<and>
      es_ns (reg_metadata reg) = st_etcd_namespace cfg \<and> jes_client (reg_events reg) = nc \<and>
      es_client (reg_metadata reg) = ec" by (simp add: reg)
  ultimately show ?thesis using nats etcd by blast
qed

definition mem_infra :: "mem_world infra" where
  "mem_infra = \<lparr>in_imports = opret (), in_nats_connect = (\<lambda>url a b. opret mem_js),
     in_minio = (\<lambda>args. opret mem_minio), in_etcd = (\<lambda>h p t. opret mem_etcd)\<rparr>"

theorem create_registry_wires_witness:
  "\<exists>reg w'. create_registry mem_infra example_event_codec example_codec (\<lambda>_. None) (Some default_storage) mem_empty =
       (Inr reg, w') \<and> ms_bucket (reg_checkpoints reg) = ''gaia-checkpoints'' \<and> es_ns (reg_metadata reg) = ''gaia''"
proof -
  let ?c = "create_registry mem_infra example_event_codec example_codec (\<lambda>_. None) (Some default_storage) mem_empty"
  obtain u w1 where e: "ensure_streams mem_js mem_empty = (Inr u, w1)"
    by (simp add: ensure_streams_def STREAMS_def ensure_stream_def mem_js_def opcatch_def opbind_def
        is_NotFoundError_def mem_empty_def canonical_config_def dset_def)
  have "\<exists>reg w'. ?c = (Inr reg, w')"
    by (simp add: create_registry_def opbind_def mem_infra_def e ensure_bucket_def mem_minio_def)
  then obtain reg w' where r: "?c = (Inr reg, w')" by blast
  have n: "\<forall>url a b w nc w'. in_nats_connect mem_infra url a b w = (Inr nc, w') \<longrightarrow>
      stream_admin_ok nc (\<lambda>w. map_of (mw_streams w))"
    using mem_js_admin_ok by (auto simp: mem_infra_def)
  have m: "\<forall>args w c w'. in_minio mem_infra args w = (Inr c, w') \<longrightarrow>
      bucket_calls_ok c (\<lambda>w b. b \<in> set (mw_buckets w))"
    by (auto simp: mem_infra_def bucket_calls_ok_def mem_minio_def)
  from create_registry_wires [OF r n m] r show ?thesis by (auto simp: default_storage_def)
qed

end
