(* ===== verification/Keyed_Registry.thy ===== *)
theory Keyed_Registry
  imports Gaia_Prelude
begin

text \<open>
  What the server's in-memory registries share: storing under a key replaces the entry of that
  key and keeps its place, a new key goes last, and the keys are those with an entry. The value
  that is stored may be built from the key, hence \<open>entry\<close>.
\<close>

locale keyed_registry =
  fixes store :: "'k \<Rightarrow> 'v \<Rightarrow> 's \<Rightarrow> 's"
    and find :: "'s \<Rightarrow> 'k \<Rightarrow> 'e option"
    and keys :: "'s \<Rightarrow> 'k list"
    and entry :: "'k \<Rightarrow> 'v \<Rightarrow> 'e"
  assumes find_store: "find (store k v s) j = (if j = k then Some (entry k v) else find s j)"
    and keys_store: "keys (store k v s) = (if k \<in> set (keys s) then keys s else keys s @ [k])"
    and keys_iff: "k \<in> set (keys s) \<longleftrightarrow> find s k \<noteq> None"
begin

abbreviation store_all :: "('k \<times> 'v) list \<Rightarrow> 's \<Rightarrow> 's" where
  "store_all \<equiv> fold (\<lambda>(k, v). store k v)"

text \<open>The last value stored under a key is the one that is found.\<close>

lemma find_store_all:
  "find (store_all kvs s) j =
     (case map_of (rev kvs) j of Some v \<Rightarrow> Some (entry j v) | None \<Rightarrow> find s j)"
proof (induction kvs rule: rev_induct)
  case Nil
  then show ?case by simp
next
  case (snoc kv kvs)
  then show ?case by (cases kv) (simp add: find_store)
qed

lemma keys_store_all: "set (keys (store_all kvs s)) = set (keys s) \<union> fst ` set kvs"
  by (induction kvs arbitrary: s) (auto simp: keys_store split: if_splits)

lemma keys_distinct: "distinct (keys s) \<Longrightarrow> distinct (keys (store_all kvs s))"
  by (induction kvs arbitrary: s) (auto simp: keys_store split: if_splits)

lemma keys_prefix: "\<exists>new. keys (store_all kvs s) = keys s @ new"
proof (induction kvs arbitrary: s)
  case Nil
  then show ?case by simp
next
  case (Cons kv kvs)
  obtain k v where kv: "kv = (k, v)" by fastforce
  from Cons.IH [of "store k v s"] obtain new where
    "keys (store_all kvs (store k v s)) = keys (store k v s) @ new" by blast
  then show ?case by (auto simp: kv keys_store)
qed

text \<open>From the empty registry, the keys are in the order in which they were first stored.\<close>

lemma keys_in_order: "keys s = [] \<Longrightarrow> keys (store_all kvs s) = rev (remdups (rev (map fst kvs)))"
proof (induction kvs rule: rev_induct)
  case (snoc kv kvs)
  have "set (keys (store_all kvs s)) = fst ` set kvs" using snoc.prems keys_store_all by simp
  with snoc show ?case by (cases kv) (auto simp: keys_store)
qed simp

lemma count_keys: "keys s = [] \<Longrightarrow> length (keys (store_all kvs s)) = card (fst ` set kvs)"
  using keys_distinct [of s kvs] keys_store_all [of kvs s] distinct_card by fastforce

end

text \<open>The registry that is a dictionary and nothing else.\<close>

interpretation dict_registry: keyed_registry "\<lambda>k v d. dset d k v" map_of "\<lambda>d. dkeys d" "\<lambda>k v. v"
  by unfold_locales (auto simp: dkeys_dset map_of_eq_None_iff)

end
