(* ===== verification/Inference.thy ===== *)
theory Inference
  imports Settings Keyed_Registry
begin

text \<open>
  \<^verbatim>\<open>gaia_server/inference\<close>: the mock and the \<^verbatim>\<open>llama.cpp\<close> backend, the router and its factory.
  The request and response classes and the two enumerations belong to \<^verbatim>\<open>gaia_core\<close>: the fields
  the code uses are modelled, and the text of a backend name is the parameter \<open>names\<close>. The
  deadline of \<^verbatim>\<open>asyncio.wait_for\<close> is the parameter \<open>rt\<close>: which calls outlive a timeout, and
  the world that a cancelled call leaves; \<^verbatim>\<open>Deadline\<close> says what decides it. Shown: the router answers every request, and how; an
  unknown backend falls back to the mock; the factory gives a working router whatever the model does.
\<close>

section \<open>Requests and responses\<close>

datatype runtime_backend = RB_MOCK | RB_LLAMA_CPP | RB_OTHER string

datatype task_type = TT_EMBED | TT_GENERATE | TT_OTHER string

record infer_request =
  rq_request_id :: string
  rq_core_id :: string
  rq_task_type :: task_type
  rq_backend :: "runtime_backend option"
  rq_model_id :: "string option"
  rq_payload :: pydict
  rq_max_tokens :: "int option"
  rq_temperature :: "pyfloat option"

record infer_response =
  rs_request_id :: string
  rs_accepted :: bool
  rs_core_id :: string
  rs_task_type :: task_type
  rs_backend :: runtime_backend
  rs_model_id :: "string option"
  rs_result :: pydict
  rs_usage :: pydict
  rs_latency_ms :: int
  rs_error_code :: "string option"
  rs_error_message :: "string option"

record 'w backend =
  be_generate :: "infer_request \<Rightarrow> ('w, infer_response) op"
  be_embed :: "infer_request \<Rightarrow> ('w, infer_response) op"
  be_health :: "('w, pydict) op"

text \<open>The text of a backend name under \<^verbatim>\<open>str\<close>, and the text it is equal to as a dictionary key.\<close>

record backend_names =
  bn_text :: "runtime_backend \<Rightarrow> string"
  bn_value :: "runtime_backend \<Rightarrow> string"

definition model_or :: "string option \<Rightarrow> string \<Rightarrow> string option" where
  "model_or model_id dflt = (if truthy_str model_id then model_id else Some dflt)"

section \<open>The mock backend\<close>

definition mock_generate :: "float_ops \<Rightarrow> infer_request \<Rightarrow> infer_response" where
  "mock_generate fo request =
     (let prompt = str_of_val (fo_text fo) (dget (rq_payload request) ''prompt'' (PStr []))
      in \<lparr>rs_request_id = rq_request_id request, rs_accepted = True, rs_core_id = rq_core_id request,
          rs_task_type = TT_GENERATE, rs_backend = RB_MOCK, rs_model_id = model_or (rq_model_id request) ''mock'',
          rs_result = [(''text'', PStr (''[mock] echo: '' @ take_chars 120 prompt))],
          rs_usage = [(''prompt_tokens'', PInt (int (count_words False prompt))), (''completion_tokens'', PInt 8)],
          rs_latency_ms = 1, rs_error_code = None, rs_error_message = None\<rparr>)"

definition mock_embed :: "float_ops \<Rightarrow> infer_request \<Rightarrow> infer_response" where
  "mock_embed fo request =
     (let txt = str_of_val (fo_text fo) (dget (rq_payload request) ''text'' (PStr []))
      in \<lparr>rs_request_id = rq_request_id request, rs_accepted = True, rs_core_id = rq_core_id request,
          rs_task_type = TT_EMBED, rs_backend = RB_MOCK, rs_model_id = model_or (rq_model_id request) ''mock'',
          rs_result = [(''embedding'', PList (replicate 4 (PFloat (Fin (1 / 4))))), (''dims'', PInt 4)],
          rs_usage = [(''tokens'', PInt (int (count_words False txt)))],
          rs_latency_ms = 1, rs_error_code = None, rs_error_message = None\<rparr>)"

definition mock_health :: pydict where
  "mock_health = [(''backend'', PStr ''mock''), (''status'', PStr ''ok''), (''model'', PStr ''mock'')]"

definition mock_backend :: "float_ops \<Rightarrow> 'w backend" where
  "mock_backend fo =
     \<lparr>be_generate = (\<lambda>request. opret (mock_generate fo request)),
      be_embed = (\<lambda>request. opret (mock_embed fo request)), be_health = opret mock_health\<rparr>"

section \<open>The llama.cpp backend\<close>

record llama_call =
  lc_prompt :: string
  lc_max_tokens :: int
  lc_temperature :: pyfloat
  lc_stop :: pyval
  lc_echo :: bool

record llama_args =
  la_model_path :: "string option"
  la_n_ctx :: int
  la_n_gpu_layers :: int
  la_n_threads :: int
  la_verbose :: bool
  la_embedding :: bool

record 'w llama_model =
  lm_call :: "llama_call \<Rightarrow> ('w, pyval) op"
  lm_embed :: "string \<Rightarrow> ('w, pyval) op"
  lm_model_path :: "('w, pyval option) op"

text \<open>The package: its import, and the constructor of a model.\<close>

record 'w llama_package =
  lp_import :: "('w, unit) op"
  lp_model :: "llama_args \<Rightarrow> ('w, 'w llama_model) op"

definition llama_load :: "'w llama_package \<Rightarrow> inference_settings \<Rightarrow> ('w, 'w llama_model) op" where
  "llama_load lp cfg =
     opbind (opcatch is_ImportError (lp_import lp)
         (\<lambda>exc. opraise (RuntimeError (''llama-cpp-python is not installed. Install gaia-server with the '' @
            quoted ''llama'' @ '' extra or set INFERENCE_DEFAULT_BACKEND=mock.''))))
       (\<lambda>_. lp_model lp
         \<lparr>la_model_path = if_llama_model_path cfg, la_n_ctx = if_llama_n_ctx cfg,
          la_n_gpu_layers = if_llama_n_gpu_layers cfg, la_n_threads = if_llama_n_threads cfg,
          la_verbose = if_llama_verbose cfg, la_embedding = True\<rparr>)"

text \<open>
  The first element of \<^verbatim>\<open>output["choices"]\<close> when there are choices. The two external errors are
  an \<^verbatim>\<open>IndexError\<close> and a \<^verbatim>\<open>KeyError\<close> whose key is a number, with their messages.
\<close>

fun first_item :: "pyval \<Rightarrow> py_exn + pyval" where
  "first_item (PList []) = Inl (ExternalError ''list index out of range'')"
| "first_item (PList (x # xs)) = Inr x"
| "first_item (PStr s) = Inr (PStr (take_chars 1 s))"
| "first_item (PDict d) = Inl (ExternalError ''0'')"
| "first_item v = Inl (TypeError (quoted (type_name v) @ '' object is not subscriptable''))"

definition first_choice :: "pyval \<Rightarrow> py_exn + pyval" where
  "first_choice output =
     ebind (py_get output ''choices'' PNone) (\<lambda>choices.
       if truthy choices then ebind (py_getitem output ''choices'') first_item else Inr (PDict []))"

definition llama_response :: "infer_request \<Rightarrow> int \<Rightarrow> pyval \<Rightarrow> py_exn + infer_response" where
  "llama_response request latency_ms output =
     ebind (first_choice output) (\<lambda>choice.
     ebind (py_get output ''usage'' (PDict [])) (\<lambda>usage.
     ebind (py_get choice ''text'' (PStr [])) (\<lambda>txt.
     ebind (py_get choice ''finish_reason'' PNone) (\<lambda>finish_reason.
     ebind (py_get usage ''prompt_tokens'' (PInt 0)) (\<lambda>prompt_tokens.
     ebind (py_get usage ''completion_tokens'' (PInt 0)) (\<lambda>completion_tokens. Inr
       \<lparr>rs_request_id = rq_request_id request, rs_accepted = True, rs_core_id = rq_core_id request,
        rs_task_type = TT_GENERATE, rs_backend = RB_LLAMA_CPP,
        rs_model_id = model_or (rq_model_id request) ''llama.cpp'',
        rs_result = [(''text'', txt), (''finish_reason'', finish_reason)],
        rs_usage = [(''prompt_tokens'', prompt_tokens), (''completion_tokens'', completion_tokens)],
        rs_latency_ms = latency_ms, rs_error_code = None, rs_error_message = None\<rparr>))))))"

text \<open>The runtime: the milliseconds between two worlds, and the deadline of \<^verbatim>\<open>asyncio.wait_for\<close>.\<close>

record 'w runtime =
  rt_elapsed_ms :: "'w \<Rightarrow> 'w \<Rightarrow> int"
  rt_timed_out :: "pyfloat \<Rightarrow> 'w \<Rightarrow> bool"
  rt_cancelled :: "'w \<Rightarrow> 'w"

definition llama_generate :: "float_ops \<Rightarrow> 'w runtime \<Rightarrow> 'w llama_model \<Rightarrow> infer_request \<Rightarrow> ('w, infer_response) op" where
  "llama_generate fo rt model request = (\<lambda>w0.
     opbind (lm_call model
         \<lparr>lc_prompt = str_of_val (fo_text fo) (dget (rq_payload request) ''prompt'' (PStr [])),
          lc_max_tokens = (case rq_max_tokens request of None \<Rightarrow> 512 | Some n \<Rightarrow> if n = 0 then 512 else n),
          lc_temperature = (case rq_temperature request of None \<Rightarrow> Fin (7 / 10) | Some t \<Rightarrow> t),
          lc_stop = dget (rq_payload request) ''stop'' (PList []), lc_echo = False\<rparr>)
       (\<lambda>output w1. (llama_response request (rt_elapsed_ms rt w0 w1) output, w1)) w0)"

definition llama_embed :: "float_ops \<Rightarrow> 'w runtime \<Rightarrow> 'w llama_model \<Rightarrow> infer_request \<Rightarrow> ('w, infer_response) op" where
  "llama_embed fo rt model request = (\<lambda>w0.
     (let txt = str_of_val (fo_text fo) (dget (rq_payload request) ''text'' (PStr []))
      in opbind (lm_embed model txt) (\<lambda>embedding w1.
        (ebind (py_len embedding) (\<lambda>dims. Inr
          \<lparr>rs_request_id = rq_request_id request, rs_accepted = True, rs_core_id = rq_core_id request,
           rs_task_type = TT_EMBED, rs_backend = RB_LLAMA_CPP,
           rs_model_id = model_or (rq_model_id request) ''llama.cpp'',
           rs_result = [(''embedding'', embedding), (''dims'', PInt (int dims))],
           rs_usage = [(''tokens'', PInt (int (count_words False txt)))],
           rs_latency_ms = rt_elapsed_ms rt w0 w1, rs_error_code = None, rs_error_message = None\<rparr>), w1)) w0))"

definition llama_health :: "float_ops \<Rightarrow> 'w llama_model \<Rightarrow> ('w, pydict) op" where
  "llama_health fo model =
     optry (opbind (lm_model_path model) (\<lambda>path. opret
         [(''backend'', PStr ''llama.cpp''), (''status'', PStr ''ok''),
          (''model'', PStr (case path of None \<Rightarrow> ''unknown'' | Some p \<Rightarrow> str_of_val (fo_text fo) p))]))
       (\<lambda>exc. opret [(''backend'', PStr ''llama.cpp''), (''status'', PStr ''error''),
          (''detail'', PStr (exn_str exc))])"

definition llama_backend :: "float_ops \<Rightarrow> 'w runtime \<Rightarrow> 'w llama_model \<Rightarrow> 'w backend" where
  "llama_backend fo rt model =
     \<lparr>be_generate = llama_generate fo rt model, be_embed = llama_embed fo rt model,
      be_health = llama_health fo model\<rparr>"

section \<open>The router\<close>

record 'b router_of =
  ir_backends :: "(string, 'b) dict"
  ir_default :: string
  ir_timeout_s :: pyfloat

type_synonym 'w router = "'w backend router_of"

definition router_register :: "backend_names \<Rightarrow> runtime_backend \<Rightarrow> 'b \<Rightarrow> 'b router_of \<Rightarrow> 'b router_of" where
  "router_register names backend_id backend r =
     r\<lparr>ir_backends := dset (ir_backends r) (bn_text names backend_id) backend\<rparr>"

definition router_init :: "backend_names \<Rightarrow> float_ops \<Rightarrow> string \<Rightarrow> int \<Rightarrow> 'w router" where
  "router_init names fo default_backend_name timeout_ms =
     router_register names RB_MOCK (mock_backend fo)
       \<lparr>ir_backends = [], ir_default = default_backend_name,
        ir_timeout_s = fo_div fo (Fin (of_int timeout_ms)) 1000\<rparr>"

definition dispatch :: "'w backend \<Rightarrow> infer_request \<Rightarrow> ('w, infer_response) op" where
  "dispatch backend request =
     (if rq_task_type request = TT_EMBED then be_embed backend request else be_generate backend request)"

definition error_response :: "backend_names \<Rightarrow> infer_request \<Rightarrow> string \<Rightarrow> string \<Rightarrow> infer_response" where
  "error_response names request code msg =
     \<lparr>rs_request_id = rq_request_id request, rs_accepted = False, rs_core_id = rq_core_id request,
      rs_task_type = rq_task_type request,
      rs_backend = (case rq_backend request of
         Some b \<Rightarrow> (if bn_value names b \<noteq> [] then b else RB_MOCK) | None \<Rightarrow> RB_MOCK),
      rs_model_id = rq_model_id request, rs_result = [], rs_usage = [], rs_latency_ms = 0,
      rs_error_code = Some code, rs_error_message = Some msg\<rparr>"

definition wait_for :: "'w runtime \<Rightarrow> pyfloat \<Rightarrow> ('w, 'a) op \<Rightarrow> ('w, 'a) op" where
  "wait_for rt timeout m =
     (\<lambda>w. if rt_timed_out rt timeout w then (Inl (TimeoutError []), rt_cancelled rt w) else m w)"

definition is_timeout :: "py_exn \<Rightarrow> bool" where
  "is_timeout e = (case e of TimeoutError _ \<Rightarrow> True | _ \<Rightarrow> False)"

definition backend_key :: "backend_names \<Rightarrow> 'b router_of \<Rightarrow> infer_request \<Rightarrow> string" where
  "backend_key names r request =
     (case rq_backend request of
        Some b \<Rightarrow> (if bn_value names b \<noteq> [] then bn_text names b else ir_default r)
      | None \<Rightarrow> ir_default r)"

definition select_backend :: "backend_names \<Rightarrow> 'b router_of \<Rightarrow> infer_request \<Rightarrow> 'b option" where
  "select_backend names r request =
     (case map_of (ir_backends r) (backend_key names r request) of
        Some b \<Rightarrow> Some b
      | None \<Rightarrow> map_of (ir_backends r) (bn_value names RB_MOCK))"

definition infer :: "backend_names \<Rightarrow> float_ops \<Rightarrow> 'w runtime \<Rightarrow> 'w router \<Rightarrow> infer_request
    \<Rightarrow> ('w, infer_response) op" where
  "infer names fo rt r request =
     (case select_backend names r request of
        None \<Rightarrow> opret (error_response names request ''NO_BACKEND''
          (''No backend registered for '' @ quoted (backend_key names r request)))
      | Some backend \<Rightarrow>
          opcatch is_Exception
            (opcatch is_timeout (wait_for rt (ir_timeout_s r) (dispatch backend request))
              (\<lambda>_. opret (error_response names request ''TIMEOUT''
                (''Inference timed out after '' @ fo_text fo (ir_timeout_s r) @ ''s''))))
            (\<lambda>exc. opret (error_response names request ''BACKEND_ERROR'' (exn_str exc))))"

fun health_all :: "(string, 'w backend) dict \<Rightarrow> ('w, (string, pydict) dict) op" where
  "health_all [] = opret []"
| "health_all ((key, backend) # rest) =
     opbind (optry (be_health backend)
         (\<lambda>exc. opret [(''status'', PStr ''error''), (''detail'', PStr (exn_str exc))]))
       (\<lambda>v. opbind (health_all rest) (\<lambda>vs. opret ((key, v) # vs)))"

definition router_report :: "(string, pydict) dict \<Rightarrow> pydict" where
  "router_report results =
     [(''status'', PStr (if list_all (\<lambda>v. map_of v ''status'' = Some (PStr ''ok'')) (dvalues results)
          then ''ok'' else ''degraded'')),
      (''backends'', PDict (map (map_prod id PDict) results))]"

definition router_health :: "'w router \<Rightarrow> ('w, pydict) op" where
  "router_health r =
     opbind (health_all (ir_backends r)) (\<lambda>results. opret (router_report results))"

section \<open>The factory\<close>

definition create_router :: "backend_names \<Rightarrow> float_ops \<Rightarrow> 'w runtime \<Rightarrow> 'w llama_package \<Rightarrow> environ
    \<Rightarrow> inference_settings option \<Rightarrow> ('w, 'w router) op" where
  "create_router names fo rt lp env settings =
     opbind (oplift (case settings of Some cfg \<Rightarrow> Inr cfg | None \<Rightarrow> inference_from_env env)) (\<lambda>cfg.
       (let r = router_init names fo (if_inference_default_backend cfg) (if_inference_timeout_ms cfg)
        in if truthy_str (if_llama_model_path cfg)
           then optry (opbind (llama_load lp cfg)
                  (\<lambda>model. opret (router_register names RB_LLAMA_CPP (llama_backend fo rt model) r)))
                (\<lambda>_. opret r)
           else opret r))"

section \<open>The router's backends as a keyed registry\<close>

interpretation router_registry: keyed_registry
    "\<lambda>key backend r. r\<lparr>ir_backends := dset (ir_backends r) key backend\<rparr>"
    "\<lambda>r. map_of (ir_backends r)" "\<lambda>r. dkeys (ir_backends r)" "\<lambda>key backend. backend"
  by unfold_locales (auto simp: dkeys_dset map_of_eq_None_iff)

definition router_build :: "backend_names \<Rightarrow> float_ops \<Rightarrow> string \<Rightarrow> int \<Rightarrow> (runtime_backend \<times> 'w backend) list
    \<Rightarrow> 'w router" where
  "router_build names fo default_backend_name timeout_ms regs =
     fold (\<lambda>(b, backend). router_register names b backend) regs (router_init names fo default_backend_name timeout_ms)"

lemma router_build_store:
  "router_build names fo d t regs =
     router_registry.store_all (map (map_prod (bn_text names) id) regs) (router_init names fo d t)"
  unfolding router_build_def
  by (induction regs arbitrary: d t rule: rev_induct) (auto simp: router_register_def)

lemma router_init_backends: "ir_backends (router_init names fo d t) = [(bn_text names RB_MOCK, mock_backend fo)]"
  by (simp add: router_init_def router_register_def dset_def)

lemma router_build_find:
  "map_of (ir_backends (router_build names fo d t regs)) k =
     (case map_of (rev (map (map_prod (bn_text names) id) regs)) k of
        Some b \<Rightarrow> Some b
      | None \<Rightarrow> if k = bn_text names RB_MOCK then Some (mock_backend fo) else None)"
  unfolding router_build_store router_registry.find_store_all
  by (simp add: router_init_backends split: option.split)

lemma router_build_timeout [simp]:
  "ir_timeout_s (router_build names fo d t regs) = fo_div fo (Fin (of_int t)) 1000"
  "ir_default (router_build names fo d t regs) = d"
  unfolding router_build_def
  by (induction regs rule: rev_induct) (auto simp: router_register_def router_init_def)

section \<open>Answers\<close>

text \<open>A refusal: nothing but the request's identifiers, a code and a message.\<close>

definition error_answer :: "infer_request \<Rightarrow> string \<Rightarrow> string \<Rightarrow> infer_response \<Rightarrow> bool" where
  "error_answer request code msg resp \<longleftrightarrow>
     \<not> rs_accepted resp \<and> rs_request_id resp = rq_request_id request \<and>
     rs_core_id resp = rq_core_id request \<and> rs_task_type resp = rq_task_type request \<and>
     rs_model_id resp = rq_model_id request \<and> rs_result resp = [] \<and> rs_usage resp = [] \<and> rs_latency_ms resp = 0 \<and>
     rs_error_code resp = Some code \<and> rs_error_message resp = Some msg"

lemma error_response_answer: "error_answer request code msg (error_response names request code msg)"
  by (simp add: error_answer_def error_response_def)

lemma infer_some:
  assumes "select_backend names r request = Some backend"
  shows "infer names fo rt r request w =
     (case wait_for rt (ir_timeout_s r) (dispatch backend request) w of
        (Inr resp, w') \<Rightarrow> (Inr resp, w')
      | (Inl e, w') \<Rightarrow>
          (if is_timeout e then Inr (error_response names request ''TIMEOUT''
             (''Inference timed out after '' @ fo_text fo (ir_timeout_s r) @ ''s''))
           else if is_Exception e then Inr (error_response names request ''BACKEND_ERROR'' (exn_str e))
           else Inl e, w'))"
  using assms by (auto simp: infer_def opcatch_def split: prod.split sum.split)

lemma timeout_is_Exception: "is_timeout e \<Longrightarrow> is_Exception e"
  by (cases e) (simp_all add: is_timeout_def)

text \<open>
  C26: how the router answers. When no backend is selected it refuses with \<^verbatim>\<open>NO_BACKEND\<close>; when the deadline
  passes it refuses with \<^verbatim>\<open>TIMEOUT\<close>; otherwise the answer is what the selected backend returned, or a refusal,
  with \<^verbatim>\<open>TIMEOUT\<close> when the backend raised a timeout itself and with \<^verbatim>\<open>BACKEND_ERROR\<close> and its text when it raised another
  \<^verbatim>\<open>Exception\<close>. A refusal carries the request's identifiers. No \<^verbatim>\<open>Exception\<close> gets out; what is
  not one, such as a cancellation, gets out exactly when the selected backend raised it in time.
\<close>

theorem router_answers:
  assumes "infer names fo rt r request w = (result, w')"
  shows "case select_backend names r request of
     None \<Rightarrow> w' = w \<and> (\<exists>resp. result = Inr resp \<and> error_answer request ''NO_BACKEND''
       (''No backend registered for '' @ quoted (backend_key names r request)) resp)
   | Some backend \<Rightarrow>
       let late = ''Inference timed out after '' @ fo_text fo (ir_timeout_s r) @ ''s''
       in if rt_timed_out rt (ir_timeout_s r) w
          then w' = rt_cancelled rt w \<and> (\<exists>resp. result = Inr resp \<and> error_answer request ''TIMEOUT'' late resp)
          else snd (dispatch backend request w) = w' \<and>
            (case fst (dispatch backend request w) of
               Inr resp \<Rightarrow> result = Inr resp
             | Inl e \<Rightarrow>
                 if is_Exception e
                 then \<exists>resp. result = Inr resp \<and>
                   (if is_timeout e then error_answer request ''TIMEOUT'' late resp
                    else error_answer request ''BACKEND_ERROR'' (exn_str e) resp)
                 else result = Inl e)"
proof (cases "select_backend names r request")
  case None
  with assms show ?thesis by (auto simp: infer_def intro: error_response_answer)
next
  case (Some backend)
  obtain q w1 where q: "dispatch backend request w = (q, w1)" by fastforce
  show ?thesis
  proof (cases "rt_timed_out rt (ir_timeout_s r) w")
    case True
    with assms Some show ?thesis
      by (auto simp: infer_some [OF Some] wait_for_def is_timeout_def intro: error_response_answer)
  next
    case False
    with assms Some q timeout_is_Exception show ?thesis
      by (cases q) (auto simp: infer_some [OF Some] wait_for_def Let_def split: if_splits intro: error_response_answer)
  qed
qed

text \<open>
  An unknown backend falls back to the mock. On a router made by its constructor and any
  registrations of other backends, a request whose backend key is not registered gets, within
  the deadline, the mock's echo of its prompt, at most 120 characters of it, or its embedding.
\<close>

theorem unknown_backend_falls_back:
  assumes "\<forall>b. bn_value names b = bn_text names b"
    and "\<forall>(b, backend) \<in> set regs. bn_text names b \<noteq> bn_text names RB_MOCK"
    and "map_of (ir_backends (router_build names fo d t regs))
      (backend_key names (router_build names fo d t regs) request) = None"
    and "\<not> rt_timed_out rt (fo_div fo (Fin (of_int t)) 1000) w"
  shows "\<exists>resp. infer names fo rt (router_build names fo d t regs) request w = (Inr resp, w) \<and>
     rs_accepted resp \<and> rs_request_id resp = rq_request_id request \<and>
     (if rq_task_type request = TT_EMBED then resp = mock_embed fo request
      else resp = mock_generate fo request \<and>
        (\<exists>echo. rs_result resp = [(''text'', PStr (''[mock] echo: '' @ echo))] \<and> str_len echo \<le> 120))"
proof -
  let ?r = "router_build names fo d t regs"
  have "map_of (rev (map (map_prod (bn_text names) id) regs)) (bn_text names RB_MOCK) = None"
    using assms(2) by (auto simp: map_of_eq_None_iff)
  then have "map_of (ir_backends ?r) (bn_value names RB_MOCK) = Some (mock_backend fo)"
    using assms(1) by (simp add: router_build_find)
  with assms(3) have s: "select_backend names ?r request = Some (mock_backend fo)"
    by (simp add: select_backend_def)
  show ?thesis
    using assms(4) str_len_take_chars
    by (auto simp: infer_some [OF s] wait_for_def dispatch_def mock_backend_def mock_generate_def
        mock_embed_def Let_def)
qed

definition example_name :: "runtime_backend \<Rightarrow> string" where
  "example_name b = (case b of RB_MOCK \<Rightarrow> ''mock'' | RB_LLAMA_CPP \<Rightarrow> ''llama.cpp'' | RB_OTHER s \<Rightarrow> s)"

definition example_names :: backend_names where
  "example_names = \<lparr>bn_text = example_name, bn_value = example_name\<rparr>"

lemma example_names_simps [simp]:
  "bn_text example_names = example_name" "bn_value example_names = example_name"
  "example_name RB_MOCK = ''mock''" "example_name RB_LLAMA_CPP = ''llama.cpp''" "example_name (RB_OTHER s) = s"
  by (simp_all add: example_names_def example_name_def)

definition example_request :: "runtime_backend option \<Rightarrow> infer_request" where
  "example_request b =
     \<lparr>rq_request_id = ''req-003'', rq_core_id = ''core-nexus'', rq_task_type = TT_GENERATE, rq_backend = b,
      rq_model_id = None, rq_payload = [(''prompt'', PStr ''test'')], rq_max_tokens = None,
      rq_temperature = None\<rparr>"

definition example_runtime :: "nat runtime" where
  "example_runtime = \<lparr>rt_elapsed_ms = (\<lambda>a b. int b - int a), rt_timed_out = (\<lambda>t w. 5 \<le> w), rt_cancelled = Suc\<rparr>"

definition plain_floats :: float_ops where
  "plain_floats =
     \<lparr>fo_float = (\<lambda>v. case v of PFloat x \<Rightarrow> Inr x | _ \<Rightarrow> Inl (TypeError ''float()'')),
      fo_sum = (\<lambda>xs. Fin 0), fo_div = (\<lambda>x n. case x of Fin r \<Rightarrow> Fin (r / of_int n) | _ \<Rightarrow> x),
      fo_round = (\<lambda>x n. x), fo_greater = (\<lambda>a b. Inr False), fo_text = (\<lambda>x. ''30.0'')\<rparr>"

definition broken_backend :: "nat backend" where
  "broken_backend =
     \<lparr>be_generate = (\<lambda>request. opraise (RuntimeError ''model exploded'')),
      be_embed = (\<lambda>request. opraise CancelledError), be_health = opraise (RuntimeError ''model exploded'')\<rparr>"

theorem router_answers_witness:
  "let r = router_build example_names plain_floats ''llama.cpp'' 30000 [(RB_LLAMA_CPP, broken_backend)]
   in \<exists>resp e. infer example_names plain_floats example_runtime r (example_request None) 0 = (Inr resp, 0) \<and>
        error_answer (example_request None) ''BACKEND_ERROR'' (exn_str e) resp"
proof -
  let ?r = "router_build example_names plain_floats ''llama.cpp'' 30000 [(RB_LLAMA_CPP, broken_backend)]"
  let ?i = "infer example_names plain_floats example_runtime ?r (example_request None) 0"
  have s: "select_backend example_names ?r (example_request None) = Some broken_backend"
    by (simp add: select_backend_def backend_key_def example_request_def router_build_find)
  obtain e where d: "dispatch broken_backend (example_request None) 0 = (Inl e, 0)" "is_Exception e" "\<not> is_timeout e"
    by (simp add: dispatch_def example_request_def broken_backend_def is_timeout_def)
  have t: "\<not> rt_timed_out example_runtime (ir_timeout_s ?r) 0" by (simp add: example_runtime_def)
  obtain q w' where q: "?i = (q, w')" by fastforce
  from router_answers [OF q] s d t have "\<exists>resp. q = Inr resp \<and> w' = 0 \<and>
      error_answer (example_request None) ''BACKEND_ERROR'' (exn_str e) resp" by simp
  with q show ?thesis unfolding Let_def by blast
qed

theorem unknown_backend_falls_back_witness:
  "\<exists>resp. infer example_names plain_floats example_runtime
       (router_build example_names plain_floats ''mock'' 30000 [(RB_LLAMA_CPP, broken_backend)])
       (example_request (Some (RB_OTHER ''vllm''))) 0 = (Inr resp, 0) \<and> rs_accepted resp"
proof -
  let ?r = "router_build example_names plain_floats ''mock'' 30000 [(RB_LLAMA_CPP, broken_backend)]"
  have "\<forall>b. bn_value example_names b = bn_text example_names b"
    "\<forall>(b, backend) \<in> set [(RB_LLAMA_CPP, broken_backend)]. bn_text example_names b \<noteq> bn_text example_names RB_MOCK"
    by simp_all
  moreover have "map_of (ir_backends ?r) (backend_key example_names ?r (example_request (Some (RB_OTHER ''vllm'')))) = None"
    by (simp add: router_build_find backend_key_def example_request_def)
  moreover have "\<not> rt_timed_out example_runtime (fo_div plain_floats (Fin (of_int 30000)) 1000) 0"
    by (simp add: example_runtime_def)
  ultimately show ?thesis
    using unknown_backend_falls_back [of example_names "[(RB_LLAMA_CPP, broken_backend)]" plain_floats
        "''mock''" 30000 "example_request (Some (RB_OTHER ''vllm''))" example_runtime 0] by blast
qed

section \<open>Health and construction\<close>

text \<open>The router's health, and the factory, handle every \<^verbatim>\<open>Exception\<close>.\<close>

lemma health_all_answers:
  assumes "\<forall>(key, backend) \<in> set d. \<forall>w e w'. be_health backend w = (Inl e, w') \<longrightarrow> is_Exception e"
  shows "\<exists>vs w'. health_all d w = (Inr vs, w') \<and> dkeys vs = dkeys d"
  using assms
proof (induction d arbitrary: w)
  case Nil
  then show ?case by simp
next
  case (Cons p d)
  obtain key backend where p: "p = (key, backend)" by fastforce
  obtain r w1 where r: "be_health backend w = (r, w1)" by fastforce
  have "\<exists>v. optry (be_health backend)
      (\<lambda>exc. opret [(''status'', PStr ''error''), (''detail'', PStr (exn_str exc))]) w = (Inr v, w1)"
    using r Cons.prems p by (cases r) (auto simp: opcatch_def)
  then obtain v where v: "optry (be_health backend)
      (\<lambda>exc. opret [(''status'', PStr ''error''), (''detail'', PStr (exn_str exc))]) w = (Inr v, w1)" ..
  from Cons.IH [of w1] Cons.prems obtain vs w' where "health_all d w1 = (Inr vs, w')" "dkeys vs = dkeys d" by auto
  with v show ?case by (simp add: p opbind_def)
qed

lemma router_health_answers:
  assumes "\<forall>(key, backend) \<in> set (ir_backends r). \<forall>w e w'. be_health backend w = (Inl e, w') \<longrightarrow> is_Exception e"
  shows "\<exists>d w'. router_health r w = (Inr d, w') \<and>
     map_of d ''status'' \<in> {Some (PStr ''ok''), Some (PStr ''degraded'')}"
proof -
  from health_all_answers [OF assms] obtain vs w' where "health_all (ir_backends r) w = (Inr vs, w')" by blast
  then show ?thesis by (simp add: router_health_def router_report_def opbind_def)
qed

lemma router_init_fields [simp]:
  "ir_backends (router_init names fo d t) = [(bn_text names RB_MOCK, mock_backend fo)]"
  "ir_default (router_init names fo d t) = d"
  "ir_timeout_s (router_init names fo d t) = fo_div fo (Fin (of_int t)) 1000"
  by (simp add: router_init_backends) (simp_all add: router_init_def router_register_def)

text \<open>
  The factory always gives a working router. With given settings, whatever the import, the
  model file and the constructor of the model do, \<open>create_router\<close> returns a router or passes on what
  is no \<^verbatim>\<open>Exception\<close>. The router has the mock, the configured default and timeout, and the
  \<^verbatim>\<open>llama.cpp\<close> backend exactly when a model path is configured and the model was loaded.
\<close>

theorem create_router_falls_back:
  assumes "bn_text names RB_LLAMA_CPP \<noteq> bn_text names RB_MOCK"
    and "create_router names fo rt lp env (Some cfg) w = (result, w')"
  shows "case result of
     Inl e \<Rightarrow> \<not> is_Exception e
   | Inr r \<Rightarrow> ir_default r = if_inference_default_backend cfg \<and>
       ir_timeout_s r = fo_div fo (Fin (of_int (if_inference_timeout_ms cfg))) 1000 \<and>
       map_of (ir_backends r) (bn_text names RB_MOCK) = Some (mock_backend fo) \<and>
       (if truthy_str (if_llama_model_path cfg)
        then map_of (ir_backends r) (bn_text names RB_LLAMA_CPP) =
          (case fst (llama_load lp cfg w) of Inl _ \<Rightarrow> None | Inr model \<Rightarrow> Some (llama_backend fo rt model))
        else dkeys (ir_backends r) = [bn_text names RB_MOCK])"
proof (cases "truthy_str (if_llama_model_path cfg)")
  case False
  with assms(2) show ?thesis by (auto simp: create_router_def opbind_def Let_def)
next
  case True
  obtain q w1 where q: "llama_load lp cfg w = (q, w1)" by fastforce
  show ?thesis
  proof (cases q)
    case (Inl e)
    with True q assms show ?thesis
      by (auto simp: create_router_def opbind_def opcatch_def Let_def split: if_splits)
  next
    case (Inr model)
    with True q assms show ?thesis
      by (auto simp: create_router_def opbind_def opcatch_def Let_def router_register_def)
  qed
qed

definition no_llama :: "nat llama_package" where
  "no_llama = \<lparr>lp_import = opraise (ImportError ''No module named llama_cpp''),
     lp_model = (\<lambda>args. opraise (ValueError ''no model''))\<rparr>"

theorem create_router_falls_back_witness:
  "\<exists>r w'. create_router example_names plain_floats example_runtime no_llama (\<lambda>_. None)
       (Some (default_inference\<lparr>if_llama_model_path := Some ''/models/m.gguf''\<rparr>)) 0 = (Inr r, w') \<and>
     map_of (ir_backends r) ''mock'' = Some (mock_backend plain_floats) \<and>
     map_of (ir_backends r) ''llama.cpp'' = None"
proof -
  let ?cfg = "default_inference\<lparr>if_llama_model_path := Some ''/models/m.gguf''\<rparr>"
  let ?c = "create_router example_names plain_floats example_runtime no_llama (\<lambda>_. None) (Some ?cfg) 0"
  have l: "llama_load no_llama ?cfg w = (Inl (RuntimeError (''llama-cpp-python is not installed. Install gaia-server with the '' @
      quoted ''llama'' @ '' extra or set INFERENCE_DEFAULT_BACKEND=mock.'')), w)" for w
    by (simp add: llama_load_def no_llama_def opbind_def opcatch_def is_ImportError_def)
  have "\<exists>r w'. ?c = (Inr r, w')"
    by (simp add: create_router_def opbind_def opcatch_def l Let_def)
  then obtain r w' where r: "?c = (Inr r, w')" by blast
  have n: "bn_text example_names RB_LLAMA_CPP \<noteq> bn_text example_names RB_MOCK" by simp
  from create_router_falls_back [OF n r] r l [of 0] show ?thesis by auto
qed

end
