(* ===== verification/Startup.thy ===== *)
theory Startup
  imports Storage_Factory Inference
begin

text \<open>
  \<^verbatim>\<open>gaia_server/health.py\<close>, \<^verbatim>\<open>gaia_server/logging_config.py\<close> and \<^verbatim>\<open>gaia_server/entrypoint.py\<close>: the
  joint health check, the logging configuration, and the server's life from start to
  shutdown. What the process does to its host (logging, signal handlers, waiting for a signal)
  is the parameter \<open>host\<close>. Shown: what the aggregate status says, that a server whose
  storage is in error still starts, and in which order the phases run.
\<close>

section \<open>Health\<close>

record health_report =
  hr_status :: string
  hr_subsystems :: "(string, pydict) dict"
  hr_checked_at :: pyfloat

definition report_is_ok :: "health_report \<Rightarrow> bool" where
  "report_is_ok r \<longleftrightarrow> hr_status r = ''ok''"

type_synonym 'w aggregator = "(string, ('w, pydict) op) dict"

definition agg_register :: "string \<Rightarrow> ('w, pydict) op \<Rightarrow> 'w aggregator \<Rightarrow> 'w aggregator" where
  "agg_register name check_fn agg = dset agg name check_fn"

interpretation agg_registry: keyed_registry agg_register map_of "\<lambda>agg. dkeys agg" "\<lambda>name check_fn. check_fn"
  unfolding agg_register_def by unfold_locales (auto simp: dkeys_dset map_of_eq_None_iff)

text \<open>
  \<^verbatim>\<open>asyncio.gather(..., return_exceptions=True)\<close>: the checks are run one after the other here; what
  a check raises is its result, but for the exit of the process, which is not held back.
\<close>

fun exits_process :: "py_exn \<Rightarrow> bool" where
  "exits_process (SystemExit _) = True"
| "exits_process _ = False"

fun gather_checks :: "'w aggregator \<Rightarrow> ('w, (string \<times> (py_exn + pydict)) list) op" where
  "gather_checks [] = opret []"
| "gather_checks ((name, check_fn) # rest) =
     opbind (opcatch (\<lambda>e. \<not> exits_process e) (opbind check_fn (\<lambda>d. opret (Inr d))) (\<lambda>e. opret (Inl e)))
       (\<lambda>r. opbind (gather_checks rest) (\<lambda>rs. opret ((name, r) # rs)))"

definition subsystem_entry :: "py_exn + pydict \<Rightarrow> py_exn + pydict" where
  "subsystem_entry r =
     (case r of
        Inr d \<Rightarrow> Inr d
      | Inl e \<Rightarrow>
          if is_Exception e then Inr [(''status'', PStr ''down''), (''detail'', PStr (exn_str e))]
          else Inl (AttributeError (quoted ''CancelledError'' @ '' object has no attribute '' @ quoted ''get'')))"

definition hashable :: "pyval \<Rightarrow> py_exn + pyval" where
  "hashable v = (case v of
       PList _ \<Rightarrow> Inl (TypeError (''unhashable type: '' @ quoted ''list''))
     | PDict _ \<Rightarrow> Inl (TypeError (''unhashable type: '' @ quoted ''dict''))
     | _ \<Rightarrow> Inr v)"

definition overall_health :: "pyval list \<Rightarrow> string" where
  "overall_health statuses =
     (if set statuses = {PStr ''ok''} then ''ok''
      else if PStr ''down'' \<in> set statuses then ''down''
      else ''degraded'')"

definition agg_report :: "pyfloat \<Rightarrow> (string \<times> (py_exn + pydict)) list \<Rightarrow> py_exn + health_report" where
  "agg_report now results =
     ebind (emap (\<lambda>(name, r). ebind (subsystem_entry r) (\<lambda>d. Inr (name, d))) results) (\<lambda>subsystems.
     ebind (emap (\<lambda>d. hashable (dget d ''status'' (PStr ''unknown''))) (dvalues subsystems)) (\<lambda>statuses.
       Inr \<lparr>hr_status = overall_health statuses, hr_subsystems = subsystems, hr_checked_at = now\<rparr>))"

definition agg_check :: "pyfloat \<Rightarrow> 'w aggregator \<Rightarrow> ('w, health_report) op" where
  "agg_check now agg =
     (if agg = [] then opret \<lparr>hr_status = ''ok'', hr_subsystems = [], hr_checked_at = now\<rparr>
      else opbind (gather_checks agg) (\<lambda>results. oplift (agg_report now results)))"

section \<open>Logging\<close>

record log_config =
  lg_level :: int
  lg_json :: bool

text \<open>The levels of the \<^verbatim>\<open>logging\<close> module by name; its other attributes are not levels and not modelled.\<close>

definition LOG_LEVELS :: "(string, int) dict" where
  "LOG_LEVELS = [(''DEBUG'', 10), (''INFO'', 20), (''WARNING'', 30), (''WARN'', 30), (''ERROR'', 40),
     (''CRITICAL'', 50), (''FATAL'', 50), (''NOTSET'', 0)]"

definition log_config_of :: "environ \<Rightarrow> log_config" where
  "log_config_of env =
     \<lparr>lg_level = dget LOG_LEVELS (upper (env_get env ''LOG_LEVEL'' ''INFO'')) 20,
      lg_json = (lower (env_get env ''LOG_FORMAT'' ''json'') \<noteq> ''text'')\<rparr>"

definition json_log_line :: "string \<Rightarrow> string \<Rightarrow> string \<Rightarrow> string \<Rightarrow> string option \<Rightarrow> string" where
  "json_log_line ts level logger msg exc =
     ''{'' @ join '', '' (map (\<lambda>(k, v). json_string k @ '': '' @ json_string v)
       ([(''ts'', ts), (''level'', level), (''logger'', logger), (''msg'', msg)] @
        (case exc of None \<Rightarrow> [] | Some e \<Rightarrow> [(''exc'', e)]))) @ ''}''"

section \<open>The entrypoint\<close>

record 'w host =
  ho_configure_logging :: "log_config \<Rightarrow> ('w, unit) op"
  ho_add_signal_handler :: "string \<Rightarrow> ('w, unit) op"
  ho_wait_stop :: "('w, unit) op"
  ho_now :: "'w \<Rightarrow> pyfloat"

definition startup_gate :: "health_report \<Rightarrow> ('w, unit) op" where
  "startup_gate report =
     (if report_is_ok report then opret ()
      else if hr_status report = ''down'' then opraise (SystemExit 1)
      else opret ())"

definition server_aggregator :: "'w storage_registry \<Rightarrow> 'w router \<Rightarrow> 'w aggregator" where
  "server_aggregator registry router =
     agg_register ''inference'' (router_health router) (agg_register ''storage'' (registry_health registry) [])"

definition shutdown_registry :: "'w storage_registry \<Rightarrow> ('w, unit) op" where
  "shutdown_registry registry = optry (nc_drain (jes_client (reg_events registry))) (\<lambda>_. opret ())"

definition serve :: "'w host \<Rightarrow> 'w storage_registry \<Rightarrow> 'w router \<Rightarrow> ('w, unit) op" where
  "serve host registry router =
     opbind (\<lambda>w. agg_check (ho_now host w) (server_aggregator registry router) w) (\<lambda>report.
     opbind (startup_gate report) (\<lambda>_.
     opbind (ho_add_signal_handler host ''SIGINT'') (\<lambda>_.
     opbind (ho_add_signal_handler host ''SIGTERM'') (\<lambda>_.
     opbind (ho_wait_stop host) (\<lambda>_. shutdown_registry registry)))))"

definition gaia_main :: "'w host \<Rightarrow> environ \<Rightarrow> 'w infra \<Rightarrow> event_codec \<Rightarrow> ref_codec \<Rightarrow> backend_names
    \<Rightarrow> float_ops \<Rightarrow> 'w runtime \<Rightarrow> 'w llama_package \<Rightarrow> ('w, unit) op" where
  "gaia_main host env infra ecodec rcodec names fo rt lp =
     opbind (ho_configure_logging host (log_config_of env)) (\<lambda>_.
     opbind (create_registry infra ecodec rcodec env None) (\<lambda>registry.
     opbind (create_router names fo rt lp env None) (\<lambda>router. serve host registry router)))"

section \<open>What the checks return\<close>

definition check_ok :: "('w, pydict) op \<Rightarrow> bool" where
  "check_ok f \<longleftrightarrow>
     (\<forall>w. case f w of
        (Inl e, w') \<Rightarrow> is_Exception e
      | (Inr d, w') \<Rightarrow> \<exists>s. dget d ''status'' (PStr ''unknown'') = PStr s)"

lemma check_okI:
  assumes "\<And>w. \<exists>d w'. f w = (Inr d, w') \<and> map_of d ''status'' \<in> {Some (PStr s), Some (PStr t)}"
  shows "check_ok f"
  unfolding check_ok_def
proof
  fix w
  from assms [of w] obtain d w' where "f w = (Inr d, w')"
    "map_of d ''status'' \<in> {Some (PStr s), Some (PStr t)}" by blast
  then show "case f w of (Inl e, w') \<Rightarrow> is_Exception e
      | (Inr d, w') \<Rightarrow> \<exists>s. dget d ''status'' (PStr ''unknown'') = PStr s"
    by (auto simp: dget_def)
qed

lemma gather_checks_ok:
  assumes "\<forall>(name, f) \<in> set agg. check_ok f"
  shows "\<exists>rs w'. gather_checks agg w = (Inr rs, w') \<and> map fst rs = dkeys agg \<and>
     (\<forall>(name, r) \<in> set rs. case r of
        Inl e \<Rightarrow> is_Exception e
      | Inr d \<Rightarrow> \<exists>s. dget d ''status'' (PStr ''unknown'') = PStr s)"
  using assms
proof (induction agg arbitrary: w)
  case Nil
  then show ?case by simp
next
  case (Cons p agg)
  obtain name f where p: "p = (name, f)" by fastforce
  obtain r w1 where r: "f w = (r, w1)" by fastforce
  have f: "case r of Inl e \<Rightarrow> is_Exception e
      | Inr d \<Rightarrow> \<exists>s. dget d ''status'' (PStr ''unknown'') = PStr s"
    using Cons.prems p r by (auto simp: check_ok_def dest!: spec [of _ w] split: sum.split)
  have "\<not> exits_process e" if "is_Exception e" for e using that by (cases e) simp_all
  then have "opcatch (\<lambda>e. \<not> exits_process e) (opbind f (\<lambda>d. opret (Inr d))) (\<lambda>e. opret (Inl e)) w = (Inr r, w1)"
    using f r by (cases r) (simp_all add: opcatch_def opbind_def)
  moreover from Cons.IH [of w1] Cons.prems obtain rs w' where rs: "gather_checks agg w1 = (Inr rs, w')"
    "map fst rs = dkeys agg" "\<forall>(name, r) \<in> set rs. case r of Inl e \<Rightarrow> is_Exception e
      | Inr d \<Rightarrow> \<exists>s. dget d ''status'' (PStr ''unknown'') = PStr s" by auto
  ultimately have "gather_checks (p # agg) w = (Inr ((name, r) # rs), w')" by (simp add: p opbind_def)
  with rs(2,3) f p show ?case by auto
qed

definition entry_of :: "py_exn + pydict \<Rightarrow> pydict" where
  "entry_of r = (case r of Inr d \<Rightarrow> d
     | Inl e \<Rightarrow> [(''status'', PStr ''down''), (''detail'', PStr (exn_str e))])"

definition status_of :: "py_exn + pydict \<Rightarrow> pyval" where
  "status_of r = dget (entry_of r) ''status'' (PStr ''unknown'')"

lemma agg_check_total:
  assumes "\<forall>(name, f) \<in> set agg. check_ok f" and "agg \<noteq> []"
  shows "\<exists>rs w'. gather_checks agg w = (Inr rs, w') \<and> map fst rs = dkeys agg \<and>
     agg_check now agg w =
       (Inr \<lparr>hr_status = overall_health (map (status_of \<circ> snd) rs),
         hr_subsystems = map (map_prod id entry_of) rs, hr_checked_at = now\<rparr>, w')"
proof -
  from gather_checks_ok [OF assms(1), of w] obtain rs w' where
    rs: "gather_checks agg w = (Inr rs, w')" "map fst rs = dkeys agg"
    and ok: "\<forall>(name, r) \<in> set rs. case r of Inl e \<Rightarrow> is_Exception e
      | Inr d \<Rightarrow> \<exists>s. dget d ''status'' (PStr ''unknown'') = PStr s" by blast
  have e: "emap (\<lambda>(name, r). ebind (subsystem_entry r) (\<lambda>d. Inr (name, d))) rs =
      Inr (map (map_prod id entry_of) rs)"
    by (rule emap_all) (use ok in \<open>auto simp: subsystem_entry_def entry_of_def split: sum.splits\<close>)
  have h: "emap (\<lambda>d. hashable (dget d ''status'' (PStr ''unknown''))) (dvalues (map (map_prod id entry_of) rs)) =
      Inr (map (\<lambda>d. dget d ''status'' (PStr ''unknown'')) (dvalues (map (map_prod id entry_of) rs)))"
  proof (rule emap_all, rule ballI)
    fix d
    assume "d \<in> set (dvalues (map (map_prod id entry_of) rs))"
    then obtain name r where r: "(name, r) \<in> set rs" "d = entry_of r" by auto
    with ok have "\<exists>s. dget d ''status'' (PStr ''unknown'') = PStr s"
      by (auto simp: entry_of_def dget_def split: sum.splits)
    then show "hashable (dget d ''status'' (PStr ''unknown'')) = Inr (dget d ''status'' (PStr ''unknown''))"
      by (auto simp: hashable_def)
  qed
  have st: "map (\<lambda>d. dget d ''status'' (PStr ''unknown'')) (dvalues (map (map_prod id entry_of) rs)) =
      map (status_of \<circ> snd) rs" by (simp add: status_of_def)
  have "agg_check now agg w =
      (Inr \<lparr>hr_status = overall_health (map (status_of \<circ> snd) rs),
         hr_subsystems = map (map_prod id entry_of) rs, hr_checked_at = now\<rparr>, w')"
    using assms(2) unfolding agg_check_def agg_report_def
    by (simp add: opbind_Inr [where m = "gather_checks agg", OF rs(1)] e h [unfolded st] del: map_map)
  with rs show ?thesis by blast
qed

section \<open>The worst result\<close>

text \<open>The specification of the joint status: results are ranked, and the status is the worst of them.\<close>

datatype health_level = Healthy | Impaired | Unavailable

fun level_rank :: "health_level \<Rightarrow> nat" where
  "level_rank Healthy = 0" | "level_rank Impaired = 1" | "level_rank Unavailable = 2"

lemma level_rank_inject: "level_rank a = level_rank b \<longleftrightarrow> a = b"
  by (cases a; cases b) simp_all

instantiation health_level :: linorder
begin

definition less_eq_health_level :: "health_level \<Rightarrow> health_level \<Rightarrow> bool" where
  "less_eq_health_level a b \<longleftrightarrow> level_rank a \<le> level_rank b"

definition less_health_level :: "health_level \<Rightarrow> health_level \<Rightarrow> bool" where
  "less_health_level a b \<longleftrightarrow> level_rank a < level_rank b"

instance
  by standard (auto simp: less_eq_health_level_def less_health_level_def simp flip: level_rank_inject)

end

lemma level_bounds [simp]: "Healthy \<le> a" "a \<le> Unavailable"
  by (cases a; simp add: less_eq_health_level_def)+

fun level_text :: "health_level \<Rightarrow> string" where
  "level_text Healthy = ''ok''" | "level_text Impaired = ''degraded''" | "level_text Unavailable = ''down''"

definition result_level :: "py_exn + pydict \<Rightarrow> health_level" where
  "result_level r = (case r of
       Inl e \<Rightarrow> Unavailable
     | Inr d \<Rightarrow> (if map_of d ''status'' = Some (PStr ''ok'') then Healthy
         else if map_of d ''status'' = Some (PStr ''down'') then Unavailable else Impaired))"

lemma status_level:
  "status_of r = PStr ''ok'' \<longleftrightarrow> result_level r = Healthy" "status_of r = PStr ''down'' \<longleftrightarrow> result_level r = Unavailable"
  by (auto simp: status_of_def entry_of_def dget_def result_level_def split: sum.splits option.splits)

lemma Max_level:
  assumes "finite A" and "A \<noteq> {}"
  shows "level_text (Max A) = (if A = {Healthy} then ''ok'' else if Unavailable \<in> A then ''down'' else ''degraded'')"
proof -
  consider "A = {Healthy}" | "Unavailable \<in> A" | "A \<noteq> {Healthy}" "Unavailable \<notin> A" by blast
  then show ?thesis
  proof cases
    case 2
    then have "Max A = Unavailable" by (intro Max_eqI) (use assms(1) in simp_all)
    with 2 show ?thesis by auto
  next
    case 3
    then have no: "a \<noteq> Unavailable" if "a \<in> A" for a using that by blast
    obtain b where b: "b \<in> A" "b \<noteq> Healthy" using 3(1) assms(2) by blast
    then have i: "Impaired \<in> A" using no [of b] by (cases b) simp_all
    have "Max A = Impaired"
    proof (rule Max_eqI)
      show "a \<le> Impaired" if "a \<in> A" for a using no [OF that] by (cases a) (simp_all add: less_eq_health_level_def)
    qed (use assms(1) i in simp_all)
    with 3 show ?thesis by simp
  qed simp
qed

lemma overall_is_worst:
  assumes "rs \<noteq> []"
  shows "overall_health (map status_of rs) = level_text (Max (result_level ` set rs))"
proof -
  have ne: "set (map status_of rs) \<noteq> {}" "result_level ` set rs \<noteq> {}" using assms by simp_all
  have "set (map status_of rs) \<subseteq> {PStr ''ok''} \<longleftrightarrow> result_level ` set rs \<subseteq> {Healthy}"
    by (auto simp: status_level)
  then have 1: "set (map status_of rs) = {PStr ''ok''} \<longleftrightarrow> result_level ` set rs = {Healthy}"
    using ne by (simp only: subset_singleton_iff) blast
  have "PStr ''down'' \<in> set (map status_of rs) \<longleftrightarrow> (\<exists>r \<in> set rs. status_of r = PStr ''down'')" by force
  also have "\<dots> \<longleftrightarrow> Unavailable \<in> result_level ` set rs" by (force simp: status_level)
  finally have 2: "PStr ''down'' \<in> set (map status_of rs) \<longleftrightarrow> Unavailable \<in> result_level ` set rs" .
  have "finite (result_level ` set rs)" "result_level ` set rs \<noteq> {}" using assms by simp_all
  from Max_level [OF this] show ?thesis unfolding overall_health_def 1 2 by simp
qed

section \<open>Properties\<close>

text \<open>
  The joint status is the worst of the results. When every check raises only exceptions
  and reports a text as its status, the joint check returns, with one entry per registered
  subsystem in order; a check that raises counts as down, and a status that is neither ok nor
  down as degraded.
\<close>

theorem aggregate_status:
  assumes "\<forall>(name, f) \<in> set agg. check_ok f" and "agg \<noteq> []"
  shows "\<exists>rs report w'. gather_checks agg w = (Inr rs, w') \<and> agg_check now agg w = (Inr report, w') \<and>
     dkeys rs = dkeys agg \<and> hr_subsystems report = map (map_prod id entry_of) rs \<and>
     hr_status report = level_text (Max (result_level ` set (dvalues rs)))"
proof -
  from agg_check_total [OF assms, of w now] obtain rs w' where
    rs: "gather_checks agg w = (Inr rs, w')" "map fst rs = dkeys agg"
    and c: "agg_check now agg w = (Inr \<lparr>hr_status = overall_health (map (status_of \<circ> snd) rs),
         hr_subsystems = map (map_prod id entry_of) rs, hr_checked_at = now\<rparr>, w')" by blast
  have "dvalues rs \<noteq> []" using rs(2) assms(2) by auto
  from overall_is_worst [OF this]
  have "overall_health (map (status_of \<circ> snd) rs) = level_text (Max (result_level ` set (dvalues rs)))" by simp
  with rs c show ?thesis by auto
qed

lemma startup_check_passes:
  assumes "health_calls_ok registry"
    and "\<forall>(key, backend) \<in> set (ir_backends router). \<forall>w e w'. be_health backend w = (Inl e, w') \<longrightarrow> is_Exception e"
  shows "\<exists>report w'. agg_check now (server_aggregator registry router) w = (Inr report, w') \<and>
     hr_status report \<in> {''ok'', ''degraded''} \<and> startup_gate report w' = (Inr (), w')"
proof -
  let ?agg = "server_aggregator registry router"
  have agg: "?agg = [(''storage'', registry_health registry), (''inference'', router_health router)]"
    by (simp add: server_aggregator_def agg_register_def dset_def)
  have reg: "\<exists>d w'. registry_health registry w = (Inr d, w') \<and>
      map_of d ''status'' \<in> {Some (PStr ''ok''), Some (PStr ''degraded'')}" for w
    using registry_health_total [OF assms(1), of w] by (auto simp: overall_status_def)
  note rout = router_health_answers [OF assms(2)]
  have "check_ok (registry_health registry)" by (rule check_okI) (rule reg)
  moreover have "check_ok (router_health router)" by (rule check_okI) (rule rout)
  ultimately have c: "\<forall>(name, f) \<in> set ?agg. check_ok f" by (simp add: agg)
  from agg_check_total [OF c, of w now] obtain rs w' where
    rs: "gather_checks ?agg w = (Inr rs, w')" "map fst rs = dkeys ?agg"
    and check: "agg_check now ?agg w = (Inr \<lparr>hr_status = overall_health (map (status_of \<circ> snd) rs),
         hr_subsystems = map (map_prod id entry_of) rs, hr_checked_at = now\<rparr>, w')" by (auto simp: agg)
  obtain d1 w1 where d1: "registry_health registry w = (Inr d1, w1)"
    "map_of d1 ''status'' \<in> {Some (PStr ''ok''), Some (PStr ''degraded'')}" using reg by blast
  obtain d2 w2 where d2: "router_health router w1 = (Inr d2, w2)"
    "map_of d2 ''status'' \<in> {Some (PStr ''ok''), Some (PStr ''degraded'')}" using rout by blast
  have "rs = [(''storage'', Inr d1), (''inference'', Inr d2)]"
    using rs(1) d1(1) d2(1) by (simp add: agg opbind_def opcatch_def)
  then have "overall_health (map (status_of \<circ> snd) rs) \<in> {''ok'', ''degraded''}"
    using d1(2) d2(2) by (auto simp: overall_health_def status_of_def entry_of_def dget_def)
  with check show ?thesis by (auto simp: startup_gate_def report_is_ok_def)
qed

text \<open>
  A server with its storage in error starts. When the clients and the backends raise only
  exceptions, the startup check never reports down, because the storage registry and the router
  turn every failure into a degraded report: the abort branch is not taken, whatever the state
  of the three storage backends and of the models.
\<close>

theorem startup_never_aborts:
  assumes "health_calls_ok registry"
    and "\<forall>(key, backend) \<in> set (ir_backends router). \<forall>w e w'. be_health backend w = (Inl e, w') \<longrightarrow> is_Exception e"
  shows "\<exists>report w'. agg_check now (server_aggregator registry router) w = (Inr report, w') \<and>
     hr_status report \<in> {''ok'', ''degraded''} \<and> startup_gate report w' = (Inr (), w')"
  by (rule startup_check_passes) (use assms in blast)+

definition dead_registry :: "mem_world storage_registry" where
  "dead_registry = mem_registry
     \<lparr>reg_events := mem_events\<lparr>jes_client := mem_js\<lparr>nc_flush := (\<lambda>t. opraise (ExternalError ''closed''))\<rparr>\<rparr>,
      reg_checkpoints := mem_minio_store\<lparr>ms_client := mem_minio\<lparr>mc_bucket_exists := (\<lambda>b. opraise (S3Error ''refused''))\<rparr>\<rparr>,
      reg_metadata := mem_store\<lparr>es_client := mem_etcd\<lparr>ec_status := opraise (ExternalError ''unreachable'')\<rparr>\<rparr>\<rparr>"

theorem startup_never_aborts_witness:
  "\<exists>report w'. agg_check (Fin 0) (server_aggregator dead_registry (router_init example_names plain_floats ''mock'' 30000)) mem_empty =
       (Inr report, w') \<and> hr_status report \<noteq> ''down'' \<and> startup_gate report w' = (Inr (), w')"
proof -
  have h: "health_calls_ok dead_registry"
    by (simp add: dead_registry_def health_calls_ok_def raises_Exceptions_def)
  have b: "\<forall>(key, backend) \<in> set (ir_backends (router_init example_names plain_floats ''mock'' 30000)).
      \<forall>w e w'. be_health backend w = (Inl e, w') \<longrightarrow> is_Exception e"
    by (simp add: mock_backend_def)
  from startup_never_aborts [OF h b, of "Fin 0" mem_empty] show ?thesis by auto
qed

definition no_checks_fail :: "unit aggregator" where
  "no_checks_fail = [(''storage'', opret [(''status'', PStr ''ok'')]),
     (''inference'', opraise (RuntimeError ''backend down''))]"

theorem aggregate_status_witness:
  "\<exists>report w'. agg_check (Fin 0) no_checks_fail () = (Inr report, w') \<and> hr_status report = ''down''"
proof -
  have c: "\<forall>(name, f) \<in> set no_checks_fail. check_ok f"
    by (simp add: no_checks_fail_def check_ok_def dget_def)
  have n: "no_checks_fail \<noteq> []" by (simp add: no_checks_fail_def)
  have g: "gather_checks no_checks_fail () =
      (Inr [(''storage'', Inr [(''status'', PStr ''ok'')]), (''inference'', Inl (RuntimeError ''backend down''))], ())"
    by (simp add: no_checks_fail_def opcatch_def opbind_def)
  have "max (result_level (Inr [(''status'', PStr ''ok'')])) (result_level (Inl (RuntimeError ''backend down''))) = Unavailable"
    by (simp add: result_level_def max_def less_eq_health_level_def)
  with aggregate_status [OF c n, of "()" "Fin 0"] g show ?thesis by auto
qed

section \<open>The whole life of the server\<close>

text \<open>
  C24: once the stores and the router are made, the server runs to its end. Whatever the
  health of its backends, as long as these and the host raise nothing but exceptions where they may raise,
  \<open>main\<close> checks the health once, then installs the handler of SIGINT and the one of SIGTERM, then waits for a signal, and then
  drains the broker connection once, each in the state that the step before left; it returns, also when
  draining fails, and it touches nothing after the drain.
\<close>

theorem main_drains_and_returns:
  assumes "ho_configure_logging host (log_config_of env) w = (Inr (), w1)"
    and "create_registry infra ecodec rcodec env None w1 = (Inr registry, w2)"
    and "create_router names fo rt lp env None w2 = (Inr router, w3)"
    and "health_calls_ok registry"
    and "\<forall>(key, backend) \<in> set (ir_backends router). \<forall>w e w'. be_health backend w = (Inl e, w') \<longrightarrow> is_Exception e"
    and "\<And>sig w. \<exists>w'. ho_add_signal_handler host sig w = (Inr (), w')"
    and "\<And>w. \<exists>w'. ho_wait_stop host w = (Inr (), w')"
    and "raises_Exceptions (nc_drain (jes_client (reg_events registry)))"
  shows "\<exists>report checked int_set term_set stopped r drained.
     agg_check (ho_now host w3) (server_aggregator registry router) w3 = (Inr report, checked) \<and>
     hr_status report \<in> {''ok'', ''degraded''} \<and>
     ho_add_signal_handler host ''SIGINT'' checked = (Inr (), int_set) \<and>
     ho_add_signal_handler host ''SIGTERM'' int_set = (Inr (), term_set) \<and>
     ho_wait_stop host term_set = (Inr (), stopped) \<and>
     nc_drain (jes_client (reg_events registry)) stopped = (r, drained) \<and>
     gaia_main host env infra ecodec rcodec names fo rt lp w = (Inr (), drained)"
proof -
  from startup_check_passes [OF assms(4,5), of "ho_now host w3" w3] obtain report w4 where
    check: "agg_check (ho_now host w3) (server_aggregator registry router) w3 = (Inr report, w4)"
    and ok: "hr_status report \<in> {''ok'', ''degraded''}" and gate: "startup_gate report w4 = (Inr (), w4)" by blast
  obtain w5 where int: "ho_add_signal_handler host ''SIGINT'' w4 = (Inr (), w5)" using assms(6) by blast
  obtain w6 where trm: "ho_add_signal_handler host ''SIGTERM'' w5 = (Inr (), w6)" using assms(6) by blast
  obtain w7 where stop: "ho_wait_stop host w6 = (Inr (), w7)" using assms(7) by blast
  obtain r w8 where drain: "nc_drain (jes_client (reg_events registry)) w7 = (r, w8)" by fastforce
  have "shutdown_registry registry w7 = (Inr (), w8)"
    using assms(8) drain by (cases r) (auto simp: shutdown_registry_def opcatch_def raises_Exceptions_def)
  then have "serve host registry router w3 = (Inr (), w8)"
    by (simp add: serve_def opbind_def check gate int trm stop)
  then have "gaia_main host env infra ecodec rcodec names fo rt lp w = (Inr (), w8)"
    by (simp add: gaia_main_def opbind_def assms(1-3))
  with check ok int trm stop drain show ?thesis by blast
qed

definition quiet_host :: "mem_world host" where
  "quiet_host = \<lparr>ho_configure_logging = (\<lambda>c. opret ()), ho_add_signal_handler = (\<lambda>s. opret ()),
     ho_wait_stop = opret (), ho_now = (\<lambda>w. Fin 0)\<rparr>"

text \<open>Draining the connection of this client fails.\<close>

definition undrained_infra :: "mem_world infra" where
  "undrained_infra = mem_infra\<lparr>in_nats_connect :=
     (\<lambda>url a b. opret (mem_js\<lparr>nc_drain := opraise (ExternalError ''connection closed'')\<rparr>))\<rparr>"

theorem main_drains_and_returns_witness:
  "\<forall>rt lp. \<exists>w'. gaia_main quiet_host (\<lambda>_. None) undrained_infra example_event_codec example_codec example_names
      plain_floats rt lp mem_empty = (Inr (), w')"
proof (intro allI)
  fix rt :: "mem_world runtime" and lp :: "mem_world llama_package"
  let ?js = "mem_js\<lparr>nc_drain := opraise (ExternalError ''connection closed'')\<rparr>"
  obtain u w1 where e: "ensure_streams ?js mem_empty = (Inr u, w1)"
    by (simp add: ensure_streams_def STREAMS_def ensure_stream_def mem_js_def opcatch_def opbind_def
        is_NotFoundError_def mem_empty_def canonical_config_def dset_def)
  have "\<exists>w'. create_registry undrained_infra example_event_codec example_codec (\<lambda>_. None) None mem_empty = (Inr
      \<lparr>reg_events = \<lparr>jes_client = ?js, jes_codec = example_event_codec\<rparr>,
       reg_checkpoints = \<lparr>ms_client = mem_minio, ms_bucket = st_minio_bucket default_storage, ms_codec = example_codec\<rparr>,
       reg_metadata = \<lparr>es_client = mem_etcd, es_ns = st_etcd_namespace default_storage\<rparr>\<rparr>, w')"
    by (simp add: create_registry_def opbind_def undrained_infra_def mem_infra_def e ensure_bucket_def mem_minio_def storage_defaults)
  then obtain reg w2 where reg: "create_registry undrained_infra example_event_codec example_codec (\<lambda>_. None) None mem_empty = (Inr reg, w2)"
    and r: "reg = \<lparr>reg_events = \<lparr>jes_client = ?js, jes_codec = example_event_codec\<rparr>,
       reg_checkpoints = \<lparr>ms_client = mem_minio, ms_bucket = st_minio_bucket default_storage, ms_codec = example_codec\<rparr>,
       reg_metadata = \<lparr>es_client = mem_etcd, es_ns = st_etcd_namespace default_storage\<rparr>\<rparr>" by blast
  have log: "ho_configure_logging quiet_host (log_config_of (\<lambda>_. None)) mem_empty = (Inr (), mem_empty)"
    by (simp add: quiet_host_def)
  have rout: "create_router example_names plain_floats rt lp (\<lambda>_. None) None w2 =
      (Inr (router_init example_names plain_floats ''mock'' 30000), w2)"
    by (simp add: create_router_def opbind_def inference_defaults default_inference_def Let_def)
  have h: "health_calls_ok reg"
    by (simp add: r health_calls_ok_def raises_Exceptions_def mem_js_def mem_minio_def mem_etcd_def)
  have b: "\<forall>(key, backend) \<in> set (ir_backends (router_init example_names plain_floats ''mock'' 30000)).
      \<forall>w e w'. be_health backend w = (Inl e, w') \<longrightarrow> is_Exception e"
    by (simp add: mock_backend_def)
  have s: "\<exists>w'. ho_add_signal_handler quiet_host sig w = (Inr (), w')" "\<exists>w'. ho_wait_stop quiet_host w = (Inr (), w')" for sig w
    by (simp_all add: quiet_host_def)
  have d: "raises_Exceptions (nc_drain (jes_client (reg_events reg)))" by (simp add: r raises_Exceptions_def)
  from main_drains_and_returns [OF log reg rout h b s d]
  show "\<exists>w'. gaia_main quiet_host (\<lambda>_. None) undrained_infra example_event_codec example_codec example_names
      plain_floats rt lp mem_empty = (Inr (), w')" by blast
qed

end
