(* ===== verification/Concurrent_Startup.thy ===== *)
theory Concurrent_Startup
  imports Concurrent_Health Startup
begin

text \<open>
  The startup check of \<^verbatim>\<open>gaia_server/entrypoint.py\<close> and \<^verbatim>\<open>gaia_server/health.py\<close> with everything that
  runs at the same time: \<^verbatim>\<open>gather\<close> of the aggregator starts the storage check, whose own \<^verbatim>\<open>gather\<close>
  starts the checks of the three stores, and the router's check of its backends. Shown: whatever
  the schedule of these four coroutines, the report they lead to lets the server start.
\<close>

fun co_health_all :: "(string, 'w backend) dict \<Rightarrow> ('w, (string, pydict) dict) task" where
  "co_health_all [] = coret []"
| "co_health_all ((key, backend) # rest) =
     cobind (cotry (cocall (be_health backend))
         (\<lambda>exc. coret [(''status'', PStr ''error''), (''detail'', PStr (exn_str exc))]))
       (\<lambda>v. cobind (co_health_all rest) (\<lambda>vs. coret ((key, v) # vs)))"

definition co_router_health :: "'w router \<Rightarrow> ('w, pydict) task" where
  "co_router_health r = cobind (co_health_all (ir_backends r)) (\<lambda>results. coret (router_report results))"

definition startup_tasks :: "'w storage_registry \<Rightarrow> 'w router \<Rightarrow> ('w, pydict) task list" where
  "startup_tasks registry router = health_tasks registry @ [co_router_health router]"

text \<open>The reports that the two checks hand to the aggregator, from the results of the four coroutines.\<close>

definition startup_results :: "pydict list \<Rightarrow> (string \<times> (py_exn + pydict)) list" where
  "startup_results ds = [(''storage'', Inr (joint_report (take 3 ds))), (''inference'', Inr (ds ! 3))]"

lemma run_co_health_all [coro_runs]: "run_coro (co_health_all d) = health_all d"
  by (induction d rule: co_health_all.induct) (simp_all add: coro_runs)

lemma run_co_router_health [coro_runs]: "run_coro (co_router_health r) = router_health r"
  by (simp add: co_router_health_def router_health_def coro_runs)

abbreviation backends_raise_exceptions :: "'w router \<Rightarrow> bool" where
  "backends_raise_exceptions router \<equiv> \<forall>(key, backend) \<in> set (ir_backends router). raises_Exceptions (be_health backend)"

lemma assured_co_health_all:
  "\<forall>(key, backend) \<in> set d. raises_Exceptions (be_health backend) \<Longrightarrow>
     assured (\<lambda>_. True) (\<lambda>_ _. True) (case_sum (\<lambda>_. False) (\<lambda>_. True)) (co_health_all d)"
proof (induction d rule: co_health_all.induct)
  case 1
  then show ?case by simp
next
  case (2 key backend rest)
  have "assured (\<lambda>_. True) (\<lambda>_ _. True) (case_sum is_Exception (\<lambda>_. True)) (cocall (be_health backend))"
    using 2(2) by (intro assured_cocall) (auto simp: raises_Exceptions_def split: sum.split)
  then have "assured (\<lambda>_. True) (\<lambda>_ _. True) (case_sum (\<lambda>_. False) (\<lambda>_. True))
      (cotry (cocall (be_health backend)) (\<lambda>exc. coret [(''status'', PStr ''error''), (''detail'', PStr (exn_str exc))]))"
    by (intro assured_cocatch [where raised = is_Exception]) simp_all
  then show ?case
    using 2 by (auto intro!: assured_cobind [where raised = "\<lambda>_. False" and mid = "\<lambda>_. True"])
qed

lemma assured_co_router_health:
  assumes "backends_raise_exceptions router"
  shows "assured (\<lambda>_. True) (\<lambda>_ _. True)
     (case_sum (\<lambda>_. False) (\<lambda>d. map_of d ''status'' \<in> {Some (PStr ''ok''), Some (PStr ''degraded'')}))
     (co_router_health router)"
  unfolding co_router_health_def
  by (rule assured_cobind [OF assured_co_health_all [OF assms]]) (simp_all add: router_report_def)

lemma startup_report:
  assumes "map_of d ''status'' \<in> {Some (PStr ''ok''), Some (PStr ''degraded'')}"
  shows "\<exists>report. agg_report now [(''storage'', Inr (joint_report rs)), (''inference'', Inr d)] = Inr report \<and>
     hr_status report \<in> {''ok'', ''degraded''} \<and> startup_gate report = opret ()"
proof -
  have s: "dget (joint_report rs) ''status'' (PStr ''unknown'') = PStr (overall_status rs)"
    by (simp add: joint_report_def dget_def)
  have d: "dget d ''status'' (PStr ''unknown'') = PStr ''ok'' \<or> dget d ''status'' (PStr ''unknown'') = PStr ''degraded''"
    using assms by (auto simp: dget_def)
  have o: "overall_status rs = ''ok'' \<or> overall_status rs = ''degraded''" by (simp add: overall_status_def)
  let ?statuses = "[PStr (overall_status rs), dget d ''status'' (PStr ''unknown'')]"
  let ?report = "\<lparr>hr_status = overall_health ?statuses,
    hr_subsystems = [(''storage'', joint_report rs), (''inference'', d)], hr_checked_at = now\<rparr>"
  have ok: "overall_health ?statuses = ''ok'' \<or> overall_health ?statuses = ''degraded''"
    using d o by (auto simp: overall_health_def)
  have "hashable (PStr x) = Inr (PStr x)" for x by (simp add: hashable_def)
  then have "agg_report now [(''storage'', Inr (joint_report rs)), (''inference'', Inr d)] = Inr ?report"
    using d by (auto simp: agg_report_def subsystem_entry_def s)
  moreover have "startup_gate ?report = opret ()"
    using ok by (auto simp: startup_gate_def report_is_ok_def)
  ultimately show ?thesis using ok by (intro exI [of _ ?report]) simp
qed

text \<open>What a schedule that has come to its end leads to.\<close>

lemma settled_startup:
  fixes registry :: "'w storage_registry"
  assumes "health_calls_ok registry" and "backends_raise_exceptions router"
    and "pool_run (startup_tasks registry router, w) (cs, w')" and "settled cs"
  shows "\<exists>ds report. cs = map (Done \<circ> Inr) ds \<and> agg_report now (startup_results ds) = Inr report \<and>
     hr_status report \<in> {''ok'', ''degraded''} \<and> startup_gate report = (opret () :: ('w, unit) op)"
proof -
  define ds where "ds = map (\<lambda>c. case c of Done (Inr d) \<Rightarrow> d | _ \<Rightarrow> []) cs"
  let ?post = "\<lambda>i. if i < 3 then check_report ([''jetstream'', ''minio'', ''etcd''] ! i)
    else case_sum (\<lambda>_. False) (\<lambda>d. map_of d ''status'' \<in> {Some (PStr ''ok''), Some (PStr ''degraded'')})"
  have len: "length (startup_tasks registry router) = 4" by (simp add: startup_tasks_def health_tasks_def)
  have tasks: "assured (\<lambda>_. True) (\<lambda>_ _. True) (?post i) (startup_tasks registry router ! i)"
    if "i < length (startup_tasks registry router)" for i
  proof (cases "i < 3")
    case True
    have "length (health_tasks registry) = 3" by (simp add: health_tasks_def)
    with True have "startup_tasks registry router ! i = health_tasks registry ! i"
      unfolding startup_tasks_def by (simp only: nth_append if_True)
    with True health_tasks_report [OF assms(1) True] show ?thesis by simp
  next
    case False
    with that len have "startup_tasks registry router ! i = co_router_health router"
      by (simp add: startup_tasks_def nth_append health_tasks_def)
    with False assured_co_router_health [OF assms(2)] show ?thesis by simp
  qed
  have lcs: "length cs = 4" using pool_run_length [OF assms(3)] len by simp
  have ended: "\<exists>d. cs ! i = Done (Inr d) \<and> ds ! i = d \<and> ?post i (Inr d)" if i: "i < 4" for i
  proof -
    obtain r where r: "cs ! i = Done r" using assms(4) i lcs by (auto simp: settled_def list_all_length)
    have p: "?post i r"
      using checks.pool_results [OF assms(3) _ tasks, of i r] i len r by simp
    then obtain d where "r = Inr d" by (cases r) (auto simp: check_report_def split: if_splits)
    with r p i lcs show ?thesis by (simp add: ds_def)
  qed
  have "length ds = 4" using lcs by (simp add: ds_def)
  moreover have "cs = map (Done \<circ> Inr) ds"
    by (rule nth_equalityI) (use ended lcs \<open>length ds = 4\<close> in auto)
  moreover have "map_of (ds ! 3) ''status'' \<in> {Some (PStr ''ok''), Some (PStr ''degraded'')}"
    using ended [of 3] by simp
  ultimately show ?thesis using startup_report [of "ds ! 3" now "take 3 ds"]
    by (auto simp: startup_results_def)
qed

lemma no_endless_run: "\<not> (\<exists>f. f 0 = s \<and> (\<forall>n. pool_step (f n) (f (Suc n))))"
  using no_endless_schedule by blast

text \<open>
  C25: the server starts under any schedule of its checks. When the clients and the backends raise only
  exceptions, then however the checks of the three stores and of the router interleave, no schedule goes
  on for ever; at every point of one, as long as not all four checks have ended one of them can go on; and
  when they have, none has raised, the report made of their results is ok or degraded, and
  the gate lets the start go on.
\<close>

theorem startup_under_any_schedule:
  fixes registry :: "'w storage_registry"
  assumes "health_calls_ok registry" and "backends_raise_exceptions router"
  shows "\<not> (\<exists>f. f 0 = (startup_tasks registry router, w) \<and> (\<forall>n. pool_step (f n) (f (Suc n)))) \<and>
     (\<forall>cs w'. pool_run (startup_tasks registry router, w) (cs, w') \<longrightarrow>
        (\<exists>s. pool_step (cs, w') s) \<or>
        (\<exists>ds report. cs = map (Done \<circ> Inr) ds \<and> agg_report now (startup_results ds) = Inr report \<and>
           hr_status report \<in> {''ok'', ''degraded''} \<and> startup_gate report = (opret () :: ('w, unit) op)))"
proof (intro conjI allI impI no_endless_run)
  fix cs w'
  assume run: "pool_run (startup_tasks registry router, w) (cs, w')"
  show "(\<exists>s. pool_step (cs, w') s) \<or>
      (\<exists>ds report. cs = map (Done \<circ> Inr) ds \<and> agg_report now (startup_results ds) = Inr report \<and>
         hr_status report \<in> {''ok'', ''degraded''} \<and> startup_gate report = (opret () :: ('w, unit) op))"
  proof (cases "settled cs")
    case True
    from settled_startup [OF assms run True, of now] show ?thesis ..
  next
    case False
    from pool_progress [OF this, of w'] show ?thesis ..
  qed
qed

theorem startup_under_any_schedule_witness:
  "\<exists>ds w' report. pool_run (startup_tasks dead_registry (router_init example_names plain_floats ''mock'' 30000), mem_empty)
       (map (Done \<circ> Inr) ds, w') \<and>
     agg_report (Fin 0) (startup_results ds) = Inr report \<and> startup_gate report mem_empty = (Inr (), mem_empty)"
proof -
  let ?r = "router_init example_names plain_floats ''mock'' 30000"
  have h: "health_calls_ok dead_registry"
    by (simp add: dead_registry_def health_calls_ok_def raises_Exceptions_def)
  have b: "backends_raise_exceptions ?r" by (simp add: mock_backend_def raises_Exceptions_def)
  obtain cs w' where run: "pool_run (startup_tasks dead_registry ?r, mem_empty) (cs, w')" and ended: "settled cs"
    using pool_settles [of "startup_tasks dead_registry ?r" mem_empty] by (elim exE conjE)
  have "\<not> (\<exists>s. pool_step (cs, w') s)"
    using ended by (auto simp: settled_def list_all_length elim!: pool_stepE)
  with startup_under_any_schedule [OF h b, of mem_empty "Fin 0"] run obtain ds report where
    "cs = map (Done \<circ> Inr) ds" "agg_report (Fin 0) (startup_results ds) = Inr report" "startup_gate report = (opret () :: (mem_world, unit) op)"
    by blast
  moreover from this(3) have "startup_gate report mem_empty = (Inr (), mem_empty)" by simp
  ultimately show ?thesis using run by blast
qed

end
