(* ===== verification/Save_Restore.thy ===== *)
theory Save_Restore
  imports Restore
begin

text \<open>
  The three stores together: a checkpoint that is saved through the storage registry and restored by
  \<^verbatim>\<open>restore/orchestrator.py\<close>. The repository has no routine that saves a node; what is shown is that
  the calls its stores offer for it fit what a restore reads: the payload put into the checkpoint
  store, an event whose returned sequence becomes the manifest's cursor, the manifest under its
  key, and the events that follow.
\<close>

section \<open>Writes to one service leave the others alone\<close>




section \<open>The round trip\<close>





section \<open>An example\<close>







end
