(* ===== verification/Ownership.thy ===== *)
theory Ownership
  imports Coroutine
begin

text \<open>
  Coroutines with something of their own in the shared world, such as a subscription. A world has
  numbered cells; a coroutine owns some of them and knows what they hold, and it knows facts
  that the steps of the others keep. \<open>owning\<close> extends \<open>assured\<close> of \<^verbatim>\<open>Coroutine\<close> by both. The lemma
  of the locale \<open>interference\<close>: in every interleaving each coroutine keeps what it owns, and
  what it has found out when it ends is true.
\<close>

section \<open>Cells and facts\<close>

text \<open>A step that leaves the cells outside \<open>A\<close> alone, except that it may make new ones.\<close>

definition apart :: "('w \<Rightarrow> nat \<Rightarrow> 'r option) \<Rightarrow> nat set \<Rightarrow> 'w \<Rightarrow> 'w \<Rightarrow> bool" where
  "apart cell A w w' \<longleftrightarrow> (\<forall>a. a \<notin> A \<and> cell w a \<noteq> None \<longrightarrow> cell w' a = cell w a)"

definition stable_known :: "('w \<Rightarrow> bool) \<Rightarrow> ('w \<Rightarrow> 'w \<Rightarrow> bool) \<Rightarrow> ('w \<Rightarrow> bool) \<Rightarrow> bool" where
  "stable_known good guar known \<longleftrightarrow> (\<forall>w w'. good w \<and> guar w w' \<and> known w \<longrightarrow> known w')"

lemma stable_True [simp]: "stable_known good guar (\<lambda>_. True)"
  by (simp add: stable_known_def)

text \<open>
  \<open>owning good guar cell post own known c\<close>: from a world with the cells \<open>own\<close> and the fact \<open>known\<close>, every
  step of \<open>c\<close> is a \<open>guar\<close> step that touches only its own and new cells; it ends with a result, cells
  and a fact that satisfy \<open>post\<close>.
\<close>

inductive owning :: "('w \<Rightarrow> bool) \<Rightarrow> ('w \<Rightarrow> 'w \<Rightarrow> bool) \<Rightarrow> ('w \<Rightarrow> nat \<Rightarrow> 'r option)
    \<Rightarrow> ('a \<Rightarrow> (nat \<Rightarrow> 'r option) \<Rightarrow> ('w \<Rightarrow> bool) \<Rightarrow> bool) \<Rightarrow> (nat \<Rightarrow> 'r option) \<Rightarrow> ('w \<Rightarrow> bool) \<Rightarrow> ('w, 'a) coro \<Rightarrow> bool"
  for good guar cell post where
  owning_Done: "stable_known good guar known \<Longrightarrow> post r own known \<Longrightarrow> owning good guar cell post own known (Done r)"
| owning_Step: "stable_known good guar known \<Longrightarrow>
     (\<And>w c w'. good w \<Longrightarrow> known w \<Longrightarrow> own \<subseteq>\<^sub>m cell w \<Longrightarrow> f w = (c, w') \<Longrightarrow>
        guar w w' \<and> apart cell (dom own) w w' \<and>
        (\<exists>own' known'. own' \<subseteq>\<^sub>m cell w' \<and> (\<forall>a \<in> dom own'. a \<in> dom own \<or> cell w a = None) \<and> known' w' \<and>
           owning good guar cell post own' known' c)) \<Longrightarrow>
     owning good guar cell post own known (Step f)"

inductive_cases owning_DoneE: "owning good guar cell post own known (Done r)"
inductive_cases owning_StepE: "owning good guar cell post own known (Step f)"

lemma owning_stable: "owning good guar cell post own known c \<Longrightarrow> stable_known good guar known"
  by (cases rule: owning.cases) auto

lemma owning_cothen:
  "owning good guar cell mid own known c \<Longrightarrow>
     (\<And>r own' known'. mid r own' known' \<Longrightarrow> stable_known good guar known' \<Longrightarrow>
        owning good guar cell post own' known' (k r)) \<Longrightarrow>
     owning good guar cell post own known (cothen c k)"
proof (induction rule: owning.induct)
  case (owning_Done known r own)
  then show ?case by simp
next
  case (owning_Step known own f)
  show ?case
    unfolding cothen_Step
  proof (rule owning.owning_Step [OF owning_Step.hyps(1)])
    fix w c w'
    assume w: "good w" "known w" "own \<subseteq>\<^sub>m cell w" "map_prod (\<lambda>c. cothen c k) id (f w) = (c, w')"
    obtain d where d: "f w = (d, w')" "c = cothen d k" using w(4) by (cases "f w") auto
    from owning_Step.IH [OF w(1-3) d(1)] owning_Step.prems d(2)
    show "guar w w' \<and> apart cell (dom own) w w' \<and>
        (\<exists>own' known'. own' \<subseteq>\<^sub>m cell w' \<and> (\<forall>a \<in> dom own'. a \<in> dom own \<or> cell w a = None) \<and> known' w' \<and>
           owning good guar cell post own' known' c)" by blast
  qed
qed

text \<open>One call, with what it does to the cells and facts.\<close>

lemma owning_cocall:
  fixes m :: "('w, 'a) op"
  assumes "stable_known good guar known"
    and "\<And>w r w'. good w \<Longrightarrow> known w \<Longrightarrow> own \<subseteq>\<^sub>m cell w \<Longrightarrow> m w = (r, w') \<Longrightarrow>
      guar w w' \<and> apart cell (dom own) w w' \<and>
      (\<exists>own' known'. own' \<subseteq>\<^sub>m cell w' \<and> (\<forall>a \<in> dom own'. a \<in> dom own \<or> cell w a = None) \<and> known' w' \<and>
         stable_known good guar known' \<and> post r own' known')"
  shows "owning good guar cell post own known (cocall m)"
  unfolding cocall_def
proof (rule owning_Step [OF assms(1)])
  fix w w' and c :: "('w, 'a) task"
  assume w: "good w" "known w" "own \<subseteq>\<^sub>m cell w" "map_prod Done id (m w) = (c, w')"
  obtain r where r: "m w = (r, w')" "c = Done r" using w(4) by (cases "m w") auto
  from assms(2) [OF w(1-3) r(1)] r(2)
  show "guar w w' \<and> apart cell (dom own) w w' \<and>
      (\<exists>own' known'. own' \<subseteq>\<^sub>m cell w' \<and> (\<forall>a \<in> dom own'. a \<in> dom own \<or> cell w a = None) \<and> known' w' \<and>
         owning good guar cell post own' known' c)" by (blast intro: owning_Done)
qed

lemma owning_pure:
  "stable_known good guar known \<Longrightarrow> post (Inr x) own known \<Longrightarrow> owning good guar cell post own known (coret x)"
  "stable_known good guar known \<Longrightarrow> post (Inl e) own known \<Longrightarrow> owning good guar cell post own known (coraise e)"
  "stable_known good guar known \<Longrightarrow> post r own known \<Longrightarrow> owning good guar cell post own known (colift r)"
  by (simp_all add: coret_def coraise_def colift_def owning_Done)

lemma owning_cobind_mid:
  assumes "owning good guar cell mid own known c"
    and "\<And>x own' known'. mid (Inr x) own' known' \<Longrightarrow> stable_known good guar known' \<Longrightarrow> owning good guar cell post own' known' (k x)"
    and "\<And>e own' known'. mid (Inl e) own' known' \<Longrightarrow> post (Inl e) own' known'"
  shows "owning good guar cell post own known (cobind c k)"
  unfolding cobind_def
  by (rule owning_cothen [OF assms(1)]) (use assms(2,3) in \<open>auto intro: owning_Done split: sum.splits\<close>)

lemma owning_cobind:
  assumes "owning good guar cell (case_sum raised mid) own known c"
    and "\<And>x own' known'. mid x own' known' \<Longrightarrow> stable_known good guar known' \<Longrightarrow> owning good guar cell post own' known' (k x)"
    and "\<And>e own' known'. raised e own' known' \<Longrightarrow> post (Inl e) own' known'"
  shows "owning good guar cell post own known (cobind c k)"
  by (rule owning_cobind_mid [OF assms(1)]) (use assms(2,3) in simp_all)

lemma owning_cocatch:
  assumes "owning good guar cell (case_sum raised (\<lambda>x. post (Inr x))) own known c"
    and "\<And>e own' known'. raised e own' known' \<Longrightarrow> cls e \<Longrightarrow> stable_known good guar known' \<Longrightarrow>
      owning good guar cell post own' known' (h e)"
    and "\<And>e own' known'. raised e own' known' \<Longrightarrow> \<not> cls e \<Longrightarrow> post (Inl e) own' known'"
  shows "owning good guar cell post own known (cocatch cls c h)"
  unfolding cocatch_def
  by (rule owning_cothen [OF assms(1)]) (use assms(2,3) in \<open>auto intro: owning_Done split: sum.splits\<close>)

lemma owning_cofinally:
  assumes "owning good guar cell mid own known c"
    and "\<And>r own' known'. mid r own' known' \<Longrightarrow> stable_known good guar known' \<Longrightarrow>
      owning good guar cell (\<lambda>q own'' known''. post (case q of Inl e \<Rightarrow> Inl e | Inr _ \<Rightarrow> r) own'' known'') own' known' f"
  shows "owning good guar cell post own known (cofinally c f)"
  unfolding cofinally_def
proof (rule owning_cothen [OF assms(1)])
  fix r own' known'
  assume m: "mid r own' known'" "stable_known good guar known'"
  show "owning good guar cell post own' known' (cothen f (\<lambda>q. case q of Inl e \<Rightarrow> Done (Inl e) | Inr _ \<Rightarrow> Done r))"
    by (rule owning_cothen [OF assms(2) [OF m]]) (auto intro: owning_Done split: sum.splits)
qed


text \<open>What a coroutine guarantees without cells, it guarantees with them, when its steps leave all cells alone.\<close>

lemma assured_owning:
  assumes "assured good guar post c" and "stable_known good guar known"
    and "\<And>w w'. good w \<Longrightarrow> guar w w' \<Longrightarrow> cell w \<subseteq>\<^sub>m cell w'"
  shows "owning good guar cell (\<lambda>r own' known'. post r \<and> own' = own \<and> known' = known) own known c"
  using assms(1)
proof (induction rule: assured.induct)
  case (assured_Done r)
  then show ?case by (simp add: owning_Done assms(2))
next
  case (assured_Step f)
  show ?case
  proof (rule owning_Step [OF assms(2)])
    fix w c w'
    assume w: "good w" "known w" "own \<subseteq>\<^sub>m cell w" "f w = (c, w')"
    from assured_Step [OF w(1,4)] have g: "guar w w'" and
      c: "owning good guar cell (\<lambda>r own' known'. post r \<and> own' = own \<and> known' = known) own known c" by blast+
    have le: "cell w \<subseteq>\<^sub>m cell w'" by (rule assms(3) [OF w(1) g])
    have "known w'" using assms(2) w(1,2) g unfolding stable_known_def by blast
    moreover have "own \<subseteq>\<^sub>m cell w'" using w(3) le by (rule map_le_trans)
    moreover have "apart cell (dom own) w w'"
      using le unfolding apart_def map_le_def by (metis domIff)
    ultimately show "guar w w' \<and> apart cell (dom own) w w' \<and>
        (\<exists>own' known'. own' \<subseteq>\<^sub>m cell w' \<and> (\<forall>a \<in> dom own'. a \<in> dom own \<or> cell w a = None) \<and> known' w' \<and>
           owning good guar cell (\<lambda>r own' known'. post r \<and> own' = own \<and> known' = known) own' known' c)"
      using g c by blast
  qed
qed

section \<open>Pools of owners\<close>

context interference
begin

text \<open>Every coroutine owns cells that hold what it knows, no two own the same, and its facts hold.\<close>

definition pool_owned :: "('w \<Rightarrow> nat \<Rightarrow> 'r option) \<Rightarrow> (nat \<Rightarrow> 'a \<Rightarrow> (nat \<Rightarrow> 'r option) \<Rightarrow> ('w \<Rightarrow> bool) \<Rightarrow> bool)
    \<Rightarrow> ('w, 'a) pool \<Rightarrow> (nat \<Rightarrow> nat \<Rightarrow> 'r option) \<Rightarrow> (nat \<Rightarrow> 'w \<Rightarrow> bool) \<Rightarrow> bool" where
  "pool_owned cell post s owns knows \<longleftrightarrow> good (snd s) \<and>
     (\<forall>i < length (fst s). owning good guar cell (post i) (owns i) (knows i) (fst s ! i) \<and>
        owns i \<subseteq>\<^sub>m cell (snd s) \<and> knows i (snd s)) \<and>
     (\<forall>i < length (fst s). \<forall>j < length (fst s). i \<noteq> j \<longrightarrow> dom (owns i) \<inter> dom (owns j) = {})"

lemma pool_owned_step:
  assumes "pool_step (cs, w) (cs', w')" and "pool_owned cell post (cs, w) owns knows"
  shows "guar w w' \<and> (\<exists>owns' knows'. pool_owned cell post (cs', w') owns' knows')"
  using assms(1)
proof (rule pool_stepE)
  fix i f c w''
  assume s: "(cs', w') = (cs[i := c], w'')" "i < length cs" "cs ! i = Step f" "f w = (c, w'')"
  have good: "good w" using assms(2) by (simp add: pool_owned_def)
  have i: "owning good guar cell (post i) (owns i) (knows i) (Step f)" "owns i \<subseteq>\<^sub>m cell w" "knows i w"
    using assms(2) s(2,3) by (auto simp: pool_owned_def)
  from i(1) obtain own' known' where g: "guar w w''" and apart: "apart cell (dom (owns i)) w w''"
    and own': "own' \<subseteq>\<^sub>m cell w''" "\<forall>a \<in> dom own'. a \<in> dom (owns i) \<or> cell w a = None" "known' w''"
    and c: "owning good guar cell (post i) own' known' c"
    by (rule owning_StepE) (use good i(2,3) s(4) in blast)
  have others: "owns j \<subseteq>\<^sub>m cell w'' \<and> knows j w'' \<and> dom (owns j) \<inter> dom own' = {}"
    if j: "j < length cs" "j \<noteq> i" for j
  proof -
    have o: "owning good guar cell (post j) (owns j) (knows j) (cs ! j)" "owns j \<subseteq>\<^sub>m cell w" "knows j w"
      and d: "dom (owns j) \<inter> dom (owns i) = {}" using assms(2) j s(2) by (auto simp: pool_owned_def)
    have "owns j a = cell w'' a" if "a \<in> dom (owns j)" for a
    proof -
      have "owns j a = cell w a" using o(2) that unfolding map_le_def by blast
      moreover from this that have "cell w a \<noteq> None" by (simp add: domIff)
      moreover have "a \<notin> dom (owns i)" using d that by blast
      ultimately show ?thesis using apart unfolding apart_def by simp
    qed
    then have "owns j \<subseteq>\<^sub>m cell w''" unfolding map_le_def by blast
    moreover have "knows j w''" using owning_stable [OF o(1)] good g o(3) unfolding stable_known_def by blast
    moreover have "a \<notin> dom own'" if "a \<in> dom (owns j)" for a
    proof
      assume "a \<in> dom own'"
      with own'(2) d that have "cell w a = None" by blast
      with o(2) that show False unfolding map_le_def by (metis domIff)
    qed
    ultimately show ?thesis by blast
  qed
  have "pool_owned cell post (cs', w') (owns(i := own')) (knows(i := known'))"
    using assms(2) s others c own' stable [OF good g]
    by (auto simp: pool_owned_def nth_list_update)
  with g s(1) show ?thesis by auto
qed

lemma pool_owned_run:
  assumes "pool_run (cs, w) (cs', w')" and "good w"
    and "\<And>i. i < length cs \<Longrightarrow> owning good guar cell (post i) Map.empty (\<lambda>_. True) (cs ! i)"
  shows "guar\<^sup>*\<^sup>* w w' \<and> (\<exists>owns knows. pool_owned cell post (cs', w') owns knows)"
  using assms(1)
proof (induction rule: rtranclp_induct2)
  case refl
  have "pool_owned cell post (cs, w) (\<lambda>_. Map.empty) (\<lambda>_ _. True)"
    using assms(2,3) by (simp add: pool_owned_def)
  then show ?case by blast
next
  case (step ds v es u)
  then obtain owns knows where "pool_owned cell post (ds, v) owns knows" by blast
  from pool_owned_step [OF step.hyps(2) this] step.IH show ?case by (meson rtranclp.rtrancl_into_rtrancl)
qed

lemma pool_owned_results:
  assumes "pool_run (cs, w) (cs', w')" and "good w"
    and "\<And>i. i < length cs \<Longrightarrow> owning good guar cell (post i) Map.empty (\<lambda>_. True) (cs ! i)"
    and "i < length cs" and "cs' ! i = Done r"
  shows "\<exists>own known. post i r own known \<and> own \<subseteq>\<^sub>m cell w' \<and> known w'"
proof -
  from pool_owned_run [OF assms(1-3)] obtain owns knows where o: "pool_owned cell post (cs', w') owns knows" by blast
  with assms(4,5) pool_run_length [OF assms(1)] have "owning good guar cell (post i) (owns i) (knows i) (Done r)"
    "owns i \<subseteq>\<^sub>m cell w'" "knows i w'" by (auto simp: pool_owned_def)
  then show ?thesis by (auto elim: owning_DoneE)
qed

end

end
