(* ===== verification/Interleaved_Events.thy ===== *)
theory Interleaved_Events
  imports Ownership Restore_Coroutine "HOL-Library.Sublist"
begin

text \<open>
  \<^verbatim>\<open>gaia_server/storage/jetstream.py\<close> with any number of readers and writers at the same time, on one
  server or on many. The broker's log grows, and a subscription, which belongs to the reader that made it, has
  a position in the log as it stands. Shown, for every interleaving: a read that returns gives a
  gap-free, ordered part of the events after its start, and a writer's events are in the log in the
  order it wrote them, under the numbers that were returned for them.
\<close>

section \<open>Readers and writers\<close>

definition co_write_event :: "'w event_store \<Rightarrow> event_envelope \<Rightarrow> ('w, string) task" where
  "co_write_event s envelope =
     cobind (cocall (js_publish (jes_client s) (ev_stream envelope @ ''.'' @ ev_topic envelope)
         (enc_event (jes_codec s) envelope)))
       (\<lambda>seq. coret (str_int seq))"

fun co_write_all :: "'w event_store \<Rightarrow> event_envelope list \<Rightarrow> string list \<Rightarrow> ('w, string list) task" where
  "co_write_all s [] cursors = coret cursors"
| "co_write_all s (e # es) cursors = cobind (co_write_event s e) (\<lambda>cursor. co_write_all s es (cursors @ [cursor]))"

lemma run_co_write_event [coro_runs]: "run_coro (co_write_event s e) = write_event s e"
  by (simp add: co_write_event_def write_event_def coro_runs)

datatype event_job = Reads string "int option" int | Writes "event_envelope list"

datatype event_result = Read "event_envelope list" | Wrote "string list"

fun co_job :: "'w event_store \<Rightarrow> event_job \<Rightarrow> ('w, event_result) task" where
  "co_job s (Reads stream after_sequence limit) =
     cobind (co_read_events s stream after_sequence limit) (\<lambda>events. coret (Read events))"
| "co_job s (Writes events) = cobind (co_write_all s events []) (\<lambda>cursors. coret (Wrote cursors))"

section \<open>The broker\<close>

text \<open>
  The documented behaviour of a broker that is shared. \<open>msgs w f\<close> is what it has stored under a subject
  filter, and \<open>taken w a\<close> how many messages the subscription \<open>a\<close> has been given. A subscription is
  new; a call on it gives the next message of the log as it stands, or raises; it touches no
  other subscription. A publication adds to the log, also when it raises.
\<close>

definition feeds :: "('w \<Rightarrow> string \<Rightarrow> (int \<times> bytes) list) \<Rightarrow> ('w \<Rightarrow> nat \<Rightarrow> nat option) \<Rightarrow> string
    \<Rightarrow> consumer_config \<Rightarrow> nat \<Rightarrow> 'w subscription \<Rightarrow> bool" where
  "feeds msgs taken f cfg a sub \<longleftrightarrow>
     (\<forall>t w r w'. sub_next_msg sub t w = (r, w') \<longrightarrow>
        msgs w' = msgs w \<and> (\<forall>b. b \<noteq> a \<longrightarrow> taken w' b = taken w b) \<and>
        (taken w a \<noteq> None \<longrightarrow> taken w' a \<noteq> None) \<and>
        (\<forall>d n. r = Inr d \<and> taken w a = Some n \<longrightarrow> taken w' a = Some (Suc n) \<and>
           n < length (messages_from cfg (msgs w f)) \<and> d = messages_from cfg (msgs w f) ! n)) \<and>
     (\<forall>w r w'. sub_unsubscribe sub w = (r, w') \<longrightarrow> msgs w' = msgs w \<and> (\<forall>b. b \<noteq> a \<longrightarrow> taken w' b = taken w b))"

definition broker_shared :: "'w js_client \<Rightarrow> ('w \<Rightarrow> string \<Rightarrow> (int \<times> bytes) list) \<Rightarrow> ('w \<Rightarrow> nat \<Rightarrow> nat option) \<Rightarrow> bool" where
  "broker_shared c msgs taken \<longleftrightarrow>
     (\<forall>f cfg b w sub w'. js_subscribe c f cfg b w = (Inr sub, w') \<longrightarrow> msgs w' = msgs w \<and>
        (\<exists>a. taken w a = None \<and> taken w' = (taken w)(a \<mapsto> 0) \<and> feeds msgs taken f cfg a sub)) \<and>
     (\<forall>f cfg b w e w'. js_subscribe c f cfg b w = (Inl e, w') \<longrightarrow> msgs w' = msgs w \<and> taken w' = taken w) \<and>
     (\<forall>subject d w r w'. js_publish c subject d w = (r, w') \<longrightarrow>
        taken w' = taken w \<and> (\<forall>f. prefix (msgs w f) (msgs w' f)))"

definition log_grows :: "('w \<Rightarrow> string \<Rightarrow> (int \<times> bytes) list) \<Rightarrow> 'w \<Rightarrow> 'w \<Rightarrow> bool" where
  "log_grows msgs w w' \<longleftrightarrow> (\<forall>f. prefix (msgs w f) (msgs w' f))"

interpretation broker: interference "\<lambda>_. True" "log_grows msgs" for msgs
  by unfold_locales simp

abbreviation broker_owning where
  "broker_owning msgs taken \<equiv> owning (\<lambda>_. True) (log_grows msgs) taken"

lemma messages_from_mono: "prefix xs ys \<Longrightarrow> prefix (messages_from cfg xs) (messages_from cfg ys)"
  by (auto simp: prefix_def messages_from_def split: option.split)

section \<open>A reader\<close>

text \<open>What a reader knows: the events it has are the decoded first messages of its subscription.\<close>

definition has_read :: "'w event_store \<Rightarrow> ('w \<Rightarrow> string \<Rightarrow> (int \<times> bytes) list) \<Rightarrow> string \<Rightarrow> consumer_config
    \<Rightarrow> event_envelope list \<Rightarrow> 'w \<Rightarrow> bool" where
  "has_read s msgs f cfg events w \<longleftrightarrow>
     (\<exists>ds. prefix ds (messages_from cfg (msgs w f)) \<and> list_all2 (\<lambda>d e. dec_event (jes_codec s) d = Inr e) ds events)"

lemma has_read_stable: "stable_known (\<lambda>_. True) (log_grows msgs) (has_read s msgs f cfg events)"
  unfolding stable_known_def
proof (intro allI impI, elim conjE)
  fix w w'
  assume "log_grows msgs w w'" and "has_read s msgs f cfg events w"
  then obtain ds where ds: "prefix ds (messages_from cfg (msgs w f))"
      "list_all2 (\<lambda>d e. dec_event (jes_codec s) d = Inr e) ds events"
    and "prefix (msgs w f) (msgs w' f)" by (auto simp: has_read_def log_grows_def)
  from this(3) have "prefix (messages_from cfg (msgs w f)) (messages_from cfg (msgs w' f))" by (rule messages_from_mono)
  with ds(1) have "prefix ds (messages_from cfg (msgs w' f))" by (rule prefix_order.trans)
  with ds(2) show "has_read s msgs f cfg events w'" unfolding has_read_def by blast
qed

lemma has_read_Nil [simp]: "has_read s msgs f cfg [] w"
  by (simp add: has_read_def)

lemma has_read_more:
  assumes "has_read s msgs f cfg events w" and "length events < length (messages_from cfg (msgs w f))"
    and "dec_event (jes_codec s) (messages_from cfg (msgs w f) ! length events) = Inr e"
  shows "has_read s msgs f cfg (events @ [e]) w"
proof -
  let ?ms = "messages_from cfg (msgs w f)"
  from assms(1) obtain ds where ds: "prefix ds ?ms" "list_all2 (\<lambda>d e. dec_event (jes_codec s) d = Inr e) ds events"
    by (auto simp: has_read_def)
  have l: "length ds = length events" using ds(2) by (rule list_all2_lengthD)
  have "ds = take (length events) ?ms" using ds(1) l by (metis append_eq_conv_conj prefix_def)
  then have "ds @ [?ms ! length events] = take (Suc (length events)) ?ms"
    using assms(2) by (simp add: take_Suc_conv_app_nth)
  then have "prefix (ds @ [?ms ! length events]) ?ms" by (simp add: take_is_prefix)
  with ds(2) assms(3) show ?thesis unfolding has_read_def
    by (intro exI [of _ "ds @ [?ms ! length events]"]) (simp add: list_all2_appendI)
qed


lemma next_known_stable:
  "stable_known (\<lambda>_. True) (log_grows msgs) (\<lambda>w. has_read s msgs f cfg events w \<and>
     n < length (messages_from cfg (msgs w f)) \<and> messages_from cfg (msgs w f) ! n = d)"
  unfolding stable_known_def
proof (intro allI impI, elim conjE)
  fix w w'
  assume g: "log_grows msgs w w'" and h: "has_read s msgs f cfg events w"
    and n: "n < length (messages_from cfg (msgs w f))" "messages_from cfg (msgs w f) ! n = d"
  have "has_read s msgs f cfg events w'"
    using has_read_stable [of msgs s f cfg events] g h unfolding stable_known_def by blast
  moreover have "prefix (messages_from cfg (msgs w f)) (messages_from cfg (msgs w' f))"
    using g by (intro messages_from_mono) (simp add: log_grows_def)
  ultimately show "has_read s msgs f cfg events w' \<and> n < length (messages_from cfg (msgs w' f)) \<and>
      messages_from cfg (msgs w' f) ! n = d"
    using n by (auto simp: prefix_def nth_append)
qed

definition holds :: "nat \<Rightarrow> (nat \<Rightarrow> nat option) \<Rightarrow> bool" where
  "holds a own \<longleftrightarrow> (\<exists>x. own = [a \<mapsto> x])"

lemma holds_one [simp]: "holds a [a \<mapsto> x]"
  by (auto simp: holds_def)

lemma owning_next:
  assumes feeds: "feeds msgs taken f cfg a sub" and known: "\<And>w. known w \<Longrightarrow> has_read s msgs f cfg events w"
    and stable: "stable_known (\<lambda>_. True) (log_grows msgs) known"
  shows "broker_owning msgs taken (case_sum
      (\<lambda>e own known'. holds a own \<and> (\<forall>w. known' w \<longrightarrow> has_read s msgs f cfg events w))
      (\<lambda>d own known'. own = [a \<mapsto> Suc (length events)] \<and> (\<forall>w. known' w \<longrightarrow> has_read s msgs f cfg events w \<and>
         length events < length (messages_from cfg (msgs w f)) \<and> messages_from cfg (msgs w f) ! length events = d)))
    [a \<mapsto> length events] known (cocall (sub_next_msg sub t))"
proof (rule owning_cocall [OF stable])
  fix w r w'
  assume "known w" and own: "[a \<mapsto> length events] \<subseteq>\<^sub>m taken w" and call: "sub_next_msg sub t w = (r, w')"
  have a: "taken w a = Some (length events)" using own by (simp add: map_le_def)
  from feeds call have f: "msgs w' = msgs w" "\<forall>b. b \<noteq> a \<longrightarrow> taken w' b = taken w b" "taken w' a \<noteq> None"
    and d: "\<And>d. r = Inr d \<Longrightarrow> taken w' a = Some (Suc (length events)) \<and>
       length events < length (messages_from cfg (msgs w f)) \<and> d = messages_from cfg (msgs w f) ! length events"
    using a unfolding feeds_def by blast+
  have h: "has_read s msgs f cfg events w'" using known [OF \<open>known w\<close>] f(1) by (simp add: has_read_def)
  have g: "log_grows msgs w w'" "apart taken (dom [a \<mapsto> length events]) w w'"
    using f by (auto simp: log_grows_def apart_def)
  show "log_grows msgs w w' \<and> apart taken (dom [a \<mapsto> length events]) w w' \<and>
      (\<exists>own' known'. own' \<subseteq>\<^sub>m taken w' \<and> (\<forall>b \<in> dom own'. b \<in> dom [a \<mapsto> length events] \<or> taken w b = None) \<and>
         known' w' \<and> stable_known (\<lambda>_. True) (log_grows msgs) known' \<and> case_sum
      (\<lambda>e own known'. holds a own \<and> (\<forall>w. known' w \<longrightarrow> has_read s msgs f cfg events w))
      (\<lambda>d own known'. own = [a \<mapsto> Suc (length events)] \<and> (\<forall>w. known' w \<longrightarrow> has_read s msgs f cfg events w \<and>
         length events < length (messages_from cfg (msgs w f)) \<and> messages_from cfg (msgs w f) ! length events = d))
        r own' known')"
  proof (cases r)
    case (Inl e)
    obtain x where x: "taken w' a = Some x" using f(3) by blast
    show ?thesis
      by (intro conjI g exI [of _ "[a \<mapsto> x]"] exI [of _ "has_read s msgs f cfg events"])
        (use x h has_read_stable in \<open>auto simp: Inl map_le_def\<close>)
  next
    case (Inr d')
    show ?thesis
      by (intro conjI g exI [of _ "[a \<mapsto> Suc (length events)]"] exI [of _ "\<lambda>w. has_read s msgs f cfg events w \<and>
          length events < length (messages_from cfg (msgs w f)) \<and> messages_from cfg (msgs w f) ! length events = d'"])
        (use d [OF Inr] h f(1) next_known_stable in \<open>auto simp: Inr map_le_def\<close>)
  qed
qed


text \<open>What a reader has after one fetch, and after its loop: its subscription in any case.\<close>

abbreviation knows_read where
  "knows_read s msgs f cfg events known \<equiv> \<forall>w. known w \<longrightarrow> has_read s msgs f cfg events w"

definition one_read :: "'w event_store \<Rightarrow> ('w \<Rightarrow> string \<Rightarrow> (int \<times> bytes) list) \<Rightarrow> string \<Rightarrow> consumer_config \<Rightarrow> nat
    \<Rightarrow> event_envelope list \<Rightarrow> py_exn + event_envelope option \<Rightarrow> (nat \<Rightarrow> nat option) \<Rightarrow> ('w \<Rightarrow> bool) \<Rightarrow> bool" where
  "one_read s msgs f cfg a events r own known \<longleftrightarrow>
     (case r of
        Inl e \<Rightarrow> holds a own
      | Inr None \<Rightarrow> holds a own \<and> knows_read s msgs f cfg events known
      | Inr (Some e) \<Rightarrow> own = [a \<mapsto> Suc (length events)] \<and> knows_read s msgs f cfg (events @ [e]) known)"

definition loop_read :: "'w event_store \<Rightarrow> ('w \<Rightarrow> string \<Rightarrow> (int \<times> bytes) list) \<Rightarrow> string \<Rightarrow> consumer_config \<Rightarrow> nat
    \<Rightarrow> nat \<Rightarrow> py_exn + event_envelope list \<Rightarrow> (nat \<Rightarrow> nat option) \<Rightarrow> ('w \<Rightarrow> bool) \<Rightarrow> bool" where
  "loop_read s msgs f cfg a n r own known \<longleftrightarrow> holds a own \<and>
     (\<forall>events. r = Inr events \<longrightarrow> length events \<le> n \<and> knows_read s msgs f cfg events known)"

lemma owning_read_one:
  assumes feeds: "feeds msgs taken f cfg a sub" and known: "\<And>w. known w \<Longrightarrow> has_read s msgs f cfg events w"
    and stable: "stable_known (\<lambda>_. True) (log_grows msgs) known"
  shows "broker_owning msgs taken (one_read s msgs f cfg a events) [a \<mapsto> length events] known (co_read_one s sub)"
  unfolding co_read_one_def
proof (rule owning_cocatch [where raised = "\<lambda>e own known'. holds a own \<and> knows_read s msgs f cfg events known'"])
  let ?P = "case_sum (\<lambda>e own known'. holds a own \<and> knows_read s msgs f cfg events known')
    (\<lambda>x. one_read s msgs f cfg a events (Inr x))"
  show "broker_owning msgs taken ?P [a \<mapsto> length events] known
      (cobind (cocall (sub_next_msg sub (1 / 2))) (\<lambda>msg.
          cobind (colift (dec_event (jes_codec s) msg)) (\<lambda>event. coret (Some event))))"
  proof (rule owning_cobind [OF owning_next [OF feeds known stable]], assumption)
    fix d own' known'
    assume d: "own' = [a \<mapsto> Suc (length events)] \<and> (\<forall>w. known' w \<longrightarrow> has_read s msgs f cfg events w \<and>
         length events < length (messages_from cfg (msgs w f)) \<and> messages_from cfg (msgs w f) ! length events = d)"
      and st: "stable_known (\<lambda>_. True) (log_grows msgs) known'"
    show "broker_owning msgs taken ?P own' known' (cobind (colift (dec_event (jes_codec s) d)) (\<lambda>event. coret (Some event)))"
      using d st
      by (cases "dec_event (jes_codec s) d")
        (auto simp: cobind_def colift_def coret_def one_read_def intro!: owning_Done has_read_more)
  qed simp
qed (auto simp: one_read_def intro!: owning_pure)

lemma owning_read_loop:
  assumes feeds: "feeds msgs taken f cfg a sub"
  shows "(\<And>w. known w \<Longrightarrow> has_read s msgs f cfg events w) \<Longrightarrow>
    stable_known (\<lambda>_. True) (log_grows msgs) known \<Longrightarrow> own = [a \<mapsto> length events] \<Longrightarrow>
    broker_owning msgs taken (loop_read s msgs f cfg a (length events + n)) own known (co_read_loop s sub n events)"
proof (induction n arbitrary: events known own)
  case 0
  have "loop_read s msgs f cfg a (length events + 0) (Inr events) own known"
    unfolding loop_read_def 0(3) by (rule conjI [OF holds_one]) (use 0(1) in auto)
  then show ?case unfolding co_read_loop.simps by (rule owning_pure(1) [OF 0(2)])
next
  case (Suc n)
  have one: "broker_owning msgs taken (one_read s msgs f cfg a events) own known (co_read_one s sub)"
    unfolding Suc.prems(3) by (rule owning_read_one [OF feeds Suc.prems(1,2)])
  show ?case
    unfolding co_read_loop.simps
  proof (rule owning_cobind_mid [OF one])
    fix r own' known'
    assume r: "one_read s msgs f cfg a events (Inr r) own' known'"
      and st: "stable_known (\<lambda>_. True) (log_grows msgs) known'"
    show "broker_owning msgs taken (loop_read s msgs f cfg a (length events + Suc n)) own' known'
        (case r of None \<Rightarrow> coret events | Some event \<Rightarrow> co_read_loop s sub n (events @ [event]))"
    proof (cases r)
      case None
      with r st show ?thesis by (auto simp: one_read_def loop_read_def intro!: owning_pure)
    next
      case (Some e)
      with r have o: "own' = [a \<mapsto> length (events @ [e])]" "knows_read s msgs f cfg (events @ [e]) known'"
        by (simp_all add: one_read_def)
      have "broker_owning msgs taken (loop_read s msgs f cfg a (length (events @ [e]) + n)) own' known'
          (co_read_loop s sub n (events @ [e]))"
        by (rule Suc.IH [OF _ st o(1)]) (use o(2) in blast)
      with Some show ?thesis by simp
    qed
  qed (auto simp: one_read_def loop_read_def)
qed

text \<open>A whole read, with its subscription.\<close>

definition read_known :: "'w event_store \<Rightarrow> ('w \<Rightarrow> string \<Rightarrow> (int \<times> bytes) list) \<Rightarrow> string \<Rightarrow> int option \<Rightarrow> int
    \<Rightarrow> py_exn + event_envelope list \<Rightarrow> (nat \<Rightarrow> nat option) \<Rightarrow> ('w \<Rightarrow> bool) \<Rightarrow> bool" where
  "read_known s msgs stream after limit r own known \<longleftrightarrow>
     (\<forall>events. r = Inr events \<longrightarrow> length events \<le> nat limit \<and>
        (\<forall>w. known w \<longrightarrow> has_read s msgs (stream @ ''.>'') (read_config stream after) events w))"

lemma owning_read_events:
  assumes ok: "broker_shared (jes_client s) msgs taken"
  shows "broker_owning msgs taken (read_known s msgs stream after limit)
    Map.empty (\<lambda>_. True) (co_read_events s stream after limit)"
proof -
  let ?f = "stream @ ''.>''" and ?cfg = "read_config stream after"
  let ?mid = "case_sum (\<lambda>e own known. True)
    (\<lambda>sub own known. \<exists>a. own = [a \<mapsto> 0] \<and> feeds msgs taken ?f ?cfg a sub)"
  have "broker_owning msgs taken ?mid Map.empty (\<lambda>_. True) (cocall (js_subscribe (jes_client s) ?f ?cfg True))"
  proof (rule owning_cocall)
    fix w r w'
    assume call: "js_subscribe (jes_client s) ?f ?cfg True w = (r, w')"
    show "log_grows msgs w w' \<and> apart taken (dom Map.empty) w w' \<and>
        (\<exists>own' known'. own' \<subseteq>\<^sub>m taken w' \<and> (\<forall>b \<in> dom own'. b \<in> dom Map.empty \<or> taken w b = None) \<and>
           known' w' \<and> stable_known (\<lambda>_. True) (log_grows msgs) known' \<and> ?mid r own' known')"
    proof (cases r)
      case (Inl e)
      with ok call have "msgs w' = msgs w" "taken w' = taken w" unfolding broker_shared_def by blast+
      with Inl show ?thesis
        by (intro conjI exI [of _ Map.empty] exI [of _ "\<lambda>_. True"]) (auto simp: log_grows_def apart_def)
    next
      case (Inr sub)
      with ok call obtain a where a: "msgs w' = msgs w" "taken w a = None" "taken w' = (taken w)(a \<mapsto> 0)"
        "feeds msgs taken ?f ?cfg a sub" unfolding broker_shared_def by blast
      with Inr show ?thesis
        by (intro conjI exI [of _ "[a \<mapsto> 0]"] exI [of _ "\<lambda>_. True"])
          (auto simp: log_grows_def apart_def map_le_def)
    qed
  qed simp
  then show ?thesis
    unfolding co_read_events_def
  proof (rule owning_cobind)
    fix sub known' and own' :: "nat \<Rightarrow> nat option"
    assume m: "\<exists>a. own' = [a \<mapsto> 0] \<and> feeds msgs taken ?f ?cfg a sub"
      and st: "stable_known (\<lambda>_. True) (log_grows msgs) known'"
    then obtain a where own': "own' = [a \<mapsto> 0]" and feeds: "feeds msgs taken ?f ?cfg a sub" by blast
    have "broker_owning msgs taken (loop_read s msgs ?f ?cfg a (nat limit)) own' known' (co_read_loop s sub (nat limit) [])"
      using owning_read_loop [OF feeds _ st, of s "[]" own' "nat limit"] own' by simp
    then show "broker_owning msgs taken (read_known s msgs stream after limit) own' known'
        (cofinally (co_read_loop s sub (nat limit) []) (cocall (sub_unsubscribe sub)))"
    proof (rule owning_cofinally)
      fix r own known
      assume r: "loop_read s msgs ?f ?cfg a (nat limit) r own known"
        and st: "stable_known (\<lambda>_. True) (log_grows msgs) known"
      obtain x where x: "own = [a \<mapsto> x]" using r by (auto simp: loop_read_def holds_def)
      show "broker_owning msgs taken (\<lambda>q own known. read_known s msgs stream after limit
            (case q of Inl e \<Rightarrow> Inl e | Inr _ \<Rightarrow> r) own known) own known (cocall (sub_unsubscribe sub))"
      proof (rule owning_cocall [OF st])
        fix w q w'
        assume k: "known w" and call: "sub_unsubscribe sub w = (q, w')"
        from feeds call have f: "msgs w' = msgs w" "\<forall>b. b \<noteq> a \<longrightarrow> taken w' b = taken w b"
          unfolding feeds_def by blast+
        have g: "log_grows msgs w w'" "apart taken (dom own) w w'"
          using f by (auto simp: log_grows_def apart_def x)
        moreover have "known w'" using st g(1) k unfolding stable_known_def by blast
        moreover have "read_known s msgs stream after limit (case q of Inl e \<Rightarrow> Inl e | Inr _ \<Rightarrow> r) Map.empty known"
          using r by (auto simp: read_known_def loop_read_def split: sum.splits)
        ultimately show "log_grows msgs w w' \<and> apart taken (dom own) w w' \<and>
            (\<exists>own' known'. own' \<subseteq>\<^sub>m taken w' \<and> (\<forall>b \<in> dom own'. b \<in> dom own \<or> taken w b = None) \<and>
               known' w' \<and> stable_known (\<lambda>_. True) (log_grows msgs) known' \<and>
               read_known s msgs stream after limit (case q of Inl e \<Rightarrow> Inl e | Inr _ \<Rightarrow> r) own' known')"
          using st by (intro conjI exI [of _ Map.empty] exI [of _ known]) simp_all
      qed
    qed
  qed (simp add: read_known_def)
qed

section \<open>A writer\<close>

text \<open>The part of the log of a stream that the events \<open>es\<close> are when they have the numbers \<open>ns\<close>.\<close>

definition written_on :: "'w event_store \<Rightarrow> string \<Rightarrow> int list \<Rightarrow> event_envelope list \<Rightarrow> (int \<times> bytes) list" where
  "written_on s stream ns es =
     map (\<lambda>(n, e). (n, enc_event (jes_codec s) e)) (filter (\<lambda>(n, e). ev_stream e = stream) (zip ns es))"

definition has_written :: "'w event_store \<Rightarrow> ('w \<Rightarrow> string \<Rightarrow> (int \<times> bytes) list) \<Rightarrow> event_envelope list
    \<Rightarrow> string list \<Rightarrow> 'w \<Rightarrow> bool" where
  "has_written s msgs es cursors w \<longleftrightarrow>
     (\<exists>ns. cursors = map str_int ns \<and> length ns = length es \<and>
        (\<forall>stream. subseq (written_on s stream ns es) (msgs w (stream @ ''.>''))))"

lemma written_on_snoc:
  "length ns = length es \<Longrightarrow> written_on s stream (ns @ [n]) (es @ [e]) =
     written_on s stream ns es @ (if ev_stream e = stream then [(n, enc_event (jes_codec s) e)] else [])"
  by (simp add: written_on_def)

lemma subseq_prefix: "subseq xs ys \<Longrightarrow> prefix ys zs \<Longrightarrow> subseq xs zs"
  by (auto simp: prefix_def intro: list_emb_append2)

lemma has_written_stable: "stable_known (\<lambda>_. True) (log_grows msgs) (has_written s msgs es cursors)"
  unfolding stable_known_def
proof (intro allI impI, elim conjE)
  fix w w'
  assume "log_grows msgs w w'" and "has_written s msgs es cursors w"
  then obtain ns where ns: "cursors = map str_int ns" "length ns = length es"
    "\<And>stream. subseq (written_on s stream ns es) (msgs w (stream @ ''.>''))"
    and g: "\<And>f. prefix (msgs w f) (msgs w' f)" by (auto simp: has_written_def log_grows_def)
  have "subseq (written_on s stream ns es) (msgs w' (stream @ ''.>''))" for stream
    using ns(3) g by (rule subseq_prefix)
  with ns(1,2) show "has_written s msgs es cursors w'" unfolding has_written_def by blast
qed

lemma has_written_Nil [simp]: "has_written s msgs [] [] w"
  by (auto simp: has_written_def written_on_def)

lemma has_written_more:
  assumes "has_written s msgs es cursors w" and "log_grows msgs w w'"
    and "msgs w' (ev_stream e @ ''.>'') = msgs w (ev_stream e @ ''.>'') @ [(n, enc_event (jes_codec s) e)]"
  shows "has_written s msgs (es @ [e]) (cursors @ [str_int n]) w'"
proof -
  from assms(1) obtain ns where ns: "cursors = map str_int ns" "length ns = length es"
    "\<And>stream. subseq (written_on s stream ns es) (msgs w (stream @ ''.>''))" by (auto simp: has_written_def)
  have "subseq (written_on s stream (ns @ [n]) (es @ [e])) (msgs w' (stream @ ''.>''))" for stream
  proof (cases "ev_stream e = stream")
    case True
    with ns(2,3) assms(3) show ?thesis by (auto simp: written_on_snoc intro: list_emb_append_mono)
  next
    case False
    moreover have "prefix (msgs w (stream @ ''.>'')) (msgs w' (stream @ ''.>''))"
      using assms(2) by (simp add: log_grows_def)
    ultimately show ?thesis using ns(2,3) by (auto simp: written_on_snoc intro: subseq_prefix)
  qed
  with ns(1,2) show ?thesis unfolding has_written_def by (intro exI [of _ "ns @ [n]"]) simp
qed

abbreviation write_known where
  "write_known s msgs es r own known \<equiv> \<forall>cursors. r = Inr cursors \<longrightarrow> (\<forall>w. known w \<longrightarrow> has_written s msgs es cursors w)"

lemma owning_write_event:
  assumes ok: "broker_shared (jes_client s) msgs taken" and pub: "js_publish_ok (jes_client s) msgs"
    and known: "\<And>w. known w \<Longrightarrow> has_written s msgs es cursors w"
    and stable: "stable_known (\<lambda>_. True) (log_grows msgs) known"
  shows "broker_owning msgs taken (\<lambda>r own known. own = Map.empty \<and>
      (\<forall>cursor. r = Inr cursor \<longrightarrow> (\<forall>w. known w \<longrightarrow> has_written s msgs (es @ [e]) (cursors @ [cursor]) w)))
    Map.empty known (co_write_event s e)"
  unfolding co_write_event_def
proof (rule owning_cobind)
  let ?mid = "case_sum (\<lambda>e own known. own = Map.empty) (\<lambda>n own known. own = Map.empty \<and>
    (\<forall>w. known w \<longrightarrow> has_written s msgs (es @ [e]) (cursors @ [str_int n]) w))"
  show "broker_owning msgs taken ?mid Map.empty known
      (cocall (js_publish (jes_client s) (ev_stream e @ ''.'' @ ev_topic e) (enc_event (jes_codec s) e)))"
  proof (rule owning_cocall [OF stable])
    fix w r w'
    assume k: "known w" and call: "js_publish (jes_client s) (ev_stream e @ ''.'' @ ev_topic e) (enc_event (jes_codec s) e) w = (r, w')"
    from ok call have t: "taken w' = taken w" and g: "log_grows msgs w w'"
      unfolding broker_shared_def log_grows_def by blast+
    have more: "has_written s msgs (es @ [e]) (cursors @ [str_int n]) w'" if "r = Inr n" for n
      by (rule has_written_more [OF known [OF k] g]) (use pub call that in \<open>auto simp: js_publish_ok_def\<close>)
    show "log_grows msgs w w' \<and> apart taken (dom Map.empty) w w' \<and>
        (\<exists>own' known'. own' \<subseteq>\<^sub>m taken w' \<and> (\<forall>b \<in> dom own'. b \<in> dom Map.empty \<or> taken w b = None) \<and>
           known' w' \<and> stable_known (\<lambda>_. True) (log_grows msgs) known' \<and> ?mid r own' known')"
    proof (cases r)
      case (Inl x)
      with t g show ?thesis
        by (intro conjI exI [of _ Map.empty] exI [of _ "\<lambda>_. True"]) (auto simp: apart_def)
    next
      case (Inr n)
      with t g more show ?thesis
        by (intro conjI exI [of _ Map.empty] exI [of _ "has_written s msgs (es @ [e]) (cursors @ [str_int n])"])
          (auto simp: apart_def has_written_stable)
    qed
  qed
qed (auto intro: owning_pure)

lemma owning_write_all:
  assumes ok: "broker_shared (jes_client s) msgs taken" and pub: "js_publish_ok (jes_client s) msgs"
  shows "(\<And>w. known w \<Longrightarrow> has_written s msgs before cursors w) \<Longrightarrow>
    stable_known (\<lambda>_. True) (log_grows msgs) known \<Longrightarrow>
    broker_owning msgs taken (write_known s msgs (before @ es)) Map.empty known (co_write_all s es cursors)"
proof (induction es arbitrary: before cursors known)
  case Nil
  then show ?case by (auto intro!: owning_pure)
next
  case (Cons e es)
  show ?case
    unfolding co_write_all.simps
  proof (rule owning_cobind_mid [OF owning_write_event [OF ok pub Cons.prems]], assumption)
    fix cursor known' and own' :: "nat \<Rightarrow> nat option"
    assume "own' = Map.empty \<and> (\<forall>c. Inr cursor = Inr c \<longrightarrow>
        (\<forall>w. known' w \<longrightarrow> has_written s msgs (before @ [e]) (cursors @ [c]) w))" and st: "stable_known (\<lambda>_. True) (log_grows msgs) known'"
    then have "own' = Map.empty" and k: "\<And>w. known' w \<Longrightarrow> has_written s msgs (before @ [e]) (cursors @ [cursor]) w" by auto
    then show "broker_owning msgs taken (write_known s msgs (before @ e # es)) own' known'
        (co_write_all s es (cursors @ [cursor]))"
      using Cons.IH [OF k st] by simp
  qed simp
qed

section \<open>Any number of readers and writers\<close>

text \<open>What a job that returned can say of the log.\<close>

fun job_holds :: "'w event_store \<Rightarrow> ('w \<Rightarrow> string \<Rightarrow> (int \<times> bytes) list) \<Rightarrow> 'w \<Rightarrow> event_job \<Rightarrow> event_result \<Rightarrow> bool" where
  "job_holds s msgs w (Reads stream after limit) (Read events) \<longleftrightarrow>
     length events \<le> nat limit \<and>
     (\<exists>ds rest. stored_after msgs w stream after = ds @ rest \<and>
        list_all2 (\<lambda>d e. dec_event (jes_codec s) d = Inr e) ds events)"
| "job_holds s msgs w (Writes es) (Wrote cursors) \<longleftrightarrow>
     (\<exists>ns. cursors = map str_int ns \<and> length ns = length es \<and>
        (\<forall>stream. subseq (written_on s stream ns es) (msgs w (stream @ ''.>''))))"
| "job_holds s msgs w _ _ \<longleftrightarrow> False"

lemma owning_job:
  assumes ok: "broker_shared (jes_client s) msgs taken" and pub: "js_publish_ok (jes_client s) msgs"
  shows "broker_owning msgs taken (\<lambda>r own known. \<forall>res. r = Inr res \<longrightarrow> (\<forall>w. known w \<longrightarrow> job_holds s msgs w job res))
    Map.empty (\<lambda>_. True) (co_job s job)"
proof (cases job)
  case (Reads stream after limit)
  show ?thesis
    unfolding Reads co_job.simps
    by (rule owning_cobind_mid [OF owning_read_events [OF ok]])
      (auto simp: read_known_def has_read_def messages_from_read_config prefix_def intro!: owning_pure)
next
  case (Writes es)
  have "broker_owning msgs taken (write_known s msgs ([] @ es)) Map.empty (\<lambda>_. True) (co_write_all s es [])"
    by (rule owning_write_all [OF ok pub]) simp_all
  then show ?thesis
    unfolding Writes co_job.simps
    by (rule owning_cobind_mid) (auto simp: has_written_def intro!: owning_pure)
qed

section \<open>A shared broker in memory\<close>

record live_world =
  lw_log :: "(string \<times> bytes) list"
  lw_taken :: "nat list"

definition live_msgs :: "live_world \<Rightarrow> string \<Rightarrow> (int \<times> bytes) list" where
  "live_msgs w = mem_msgs (mem_empty\<lparr>mw_log := lw_log w\<rparr>)"

definition live_taken :: "live_world \<Rightarrow> nat \<Rightarrow> nat option" where
  "live_taken w a = (if a < length (lw_taken w) then Some (lw_taken w ! a) else None)"

definition live_subscription :: "string \<Rightarrow> consumer_config \<Rightarrow> nat \<Rightarrow> live_world subscription" where
  "live_subscription f cfg a =
     \<lparr>sub_next_msg = (\<lambda>t w. case live_taken w a of
        None \<Rightarrow> (Inl (TimeoutError ''nats: timeout''), w)
      | Some n \<Rightarrow>
          if n < length (messages_from cfg (live_msgs w f))
          then (Inr (messages_from cfg (live_msgs w f) ! n), w\<lparr>lw_taken := (lw_taken w)[a := Suc n]\<rparr>)
          else (Inl (TimeoutError ''nats: timeout''), w)),
      sub_unsubscribe = (\<lambda>w. (Inr (), w))\<rparr>"

definition live_js :: "live_world js_client" where
  "live_js =
     \<lparr>js_publish = (\<lambda>subject d w.
        (if 2 ^ 64 \<le> int (length (lw_log w)) + 1 then (Inl (ExternalError ''nats: stream is full''), w)
         else (Inr (int (length (lw_log w)) + 1), w\<lparr>lw_log := lw_log w @ [(subject, d)]\<rparr>))),
      js_subscribe = (\<lambda>f cfg b w. (Inr (live_subscription f cfg (length (lw_taken w))),
        w\<lparr>lw_taken := lw_taken w @ [0]\<rparr>)),
      js_stream_info = (\<lambda>n w. (Inr (int (length (lw_log w))), w)),
      js_find_stream = (\<lambda>n w. (Inr n, w)),
      js_add_stream = (\<lambda>cfg w. (Inr (), w)),
      nc_flush = (\<lambda>t w. (Inr (), w)),
      nc_is_connected = (\<lambda>w. True),
      nc_drain = (\<lambda>w. (Inr (), w))\<rparr>"

definition live_events :: "live_world event_store" where
  "live_events = \<lparr>jes_client = live_js, jes_codec = example_event_codec\<rparr>"

definition live_empty :: live_world where
  "live_empty = \<lparr>lw_log = [], lw_taken = []\<rparr>"

lemma live_msgs_taken [simp]: "live_msgs (w\<lparr>lw_taken := t\<rparr>) = live_msgs w"
  by (simp add: live_msgs_def)

lemma live_feeds: "feeds live_msgs live_taken f cfg a (live_subscription f cfg a)"
  unfolding feeds_def live_subscription_def
  by (auto simp: live_taken_def nth_list_update split: if_splits)

lemma live_msgs_grow: "prefix (live_msgs w f) (live_msgs (w\<lparr>lw_log := lw_log w @ ms\<rparr>) f)"
  by (simp add: live_msgs_def mem_msgs_def enumerate_append_eq)

lemma live_broker_shared: "broker_shared live_js live_msgs live_taken"
proof -
  have sub: "\<exists>a. live_taken w a = None \<and> live_taken (w\<lparr>lw_taken := lw_taken w @ [0]\<rparr>) = (live_taken w)(a \<mapsto> 0) \<and>
      feeds live_msgs live_taken f cfg a (live_subscription f cfg (length (lw_taken w)))" for f cfg and w :: live_world
    by (rule exI [of _ "length (lw_taken w)"]) (auto simp: live_taken_def nth_append live_feeds intro!: ext)
  have log: "live_taken (w\<lparr>lw_log := l\<rparr>) = live_taken w" for w l
    by (rule ext) (simp add: live_taken_def)
  show ?thesis
    unfolding broker_shared_def live_js_def using sub by (auto simp: log live_msgs_grow split: if_splits)
qed

lemma live_publish_ok: "js_publish_ok live_js live_msgs"
  unfolding js_publish_ok_def
proof (intro allI impI)
  fix stream topic d n and w w' :: live_world
  let ?m = "mem_empty\<lparr>mw_log := lw_log w\<rparr>"
  assume "js_publish live_js (stream @ ''.'' @ topic) d w = (Inr n, w')"
  then have "js_publish mem_js (stream @ ''.'' @ topic) d ?m = (Inr n, mem_empty\<lparr>mw_log := lw_log w'\<rparr>)"
    by (auto simp: live_js_def mem_js_def split: if_splits)
  from mem_js_publish_ok [unfolded js_publish_ok_def, rule_format, OF this]
  show "live_msgs w' (stream @ ''.>'') = live_msgs w (stream @ ''.>'') @ [(n, d)] \<and>
      (\<forall>m \<in> set (live_msgs w (stream @ ''.>'')). fst m < n) \<and> 0 < n \<and> n < 2 ^ 64"
    unfolding live_msgs_def by blast
qed

section \<open>The property\<close>

text \<open>
  C19: any number of reads and writes of one broker, in any interleaving of their calls, whether or not the
  publications are acknowledged. A read that returned has at most \<open>limit\<close> events, the first of those
  that are now stored after its start, in order and without a gap. The events of a writer
  that returned are, stream by stream, in the log in the order it wrote them, under the
  numbers whose texts it returned.
\<close>

theorem event_jobs_interleaved:
  assumes "broker_shared (jes_client s) msgs taken" and "js_publish_ok (jes_client s) msgs"
    and "pool_run (map (co_job s) jobs, w) (cs, w')" and "i < length jobs" and "cs ! i = Done (Inr res)"
  shows "job_holds s msgs w' (jobs ! i) res"
  using broker.pool_owned_results [OF assms(3), where cell = taken and i = i and
      post = "\<lambda>i r own known. \<forall>res. r = Inr res \<longrightarrow> (\<forall>w. known w \<longrightarrow> job_holds s msgs w (jobs ! i) res)"]
    owning_job [OF assms(1,2)] assms(4,5) by fastforce

text \<open>A writer of two events and two readers, one of which starts before the second event is written.\<close>

definition example_jobs :: "event_job list" where
  "example_jobs = [Writes [example_event ''a'', example_event ''b''], Reads ''s'' None 5, Reads ''s'' (Some 1) 5]"

theorem event_jobs_interleaved_witness:
  "\<exists>w'. pool_run (map (co_job live_events) example_jobs, live_empty)
      ([Done (Inr (Wrote [''1'', ''2''])), Done (Inr (Read [example_event ''a''])), Done (Inr (Read [example_event ''b'']))], w') \<and>
    job_holds live_events live_msgs w' (example_jobs ! 1) (Read [example_event ''a''])"
proof -
  let ?s = "(map (co_job live_events) example_jobs, live_empty)"
  let ?rs = "[Inr (Wrote [''1'', ''2'']), Inr (Read [example_event ''a'']), Inr (Read [example_event ''b''])]"
  have "map coro_value (fst (fold turn [1, 0, 2, 1, 1, 1, 0, 2, 2, 2, 2] ?s)) = map Some ?rs" by code_simp
  moreover have "\<forall>i \<in> set [1, 0, 2, 1, 1, 1, 0, 2, 2, 2, 2]. i < length (fst ?s)" by (simp add: example_jobs_def)
  ultimately obtain w' where run: "pool_run ?s (map Done ?rs, w')" by (blast dest: turns_values)
  have "job_holds live_events live_msgs w' (example_jobs ! 1) (Read [example_event ''a''])"
    by (rule event_jobs_interleaved [OF _ _ run, where taken = live_taken])
      (simp_all add: live_events_def live_broker_shared live_publish_ok example_jobs_def)
  with run show ?thesis by (intro exI [of _ w']) simp
qed

end
