(* ===== verification/Deadline.thy ===== *)
theory Deadline
  imports Inference
begin

text \<open>
  The deadline of the router (\<^verbatim>\<open>inference/router.py\<close>, \<^verbatim>\<open>infer\<close>) over coroutines that may wait. A
  coroutine runs until it ends or waits for something; only while it waits can the event loop run
  anything else, the timer of \<^verbatim>\<open>asyncio.wait_for\<close> included. What goes on meanwhile is the
  parameter \<open>event_loop\<close>. Shown: what the router answers for any backend that lets itself be
  cancelled, and that the deadline has no effect on the two backends of the repository, which
  call the model without waiting: they are answered for however late they are, as \<^verbatim>\<open>Inference\<close> has it.
\<close>

section \<open>Coroutines that wait\<close>

text \<open>
  A suspended coroutine goes on in one of two ways: what it waits for has arrived, or
  \<^verbatim>\<open>CancelledError\<close> is raised where it waits.
\<close>

datatype ('w, 'a) async =
    Finished "py_exn + 'a"
  | Suspended "'w \<Rightarrow> ('w, 'a) async \<times> 'w" "'w \<Rightarrow> ('w, 'a) async \<times> 'w"

text \<open>The call of an \<^verbatim>\<open>async\<close> method: what runs up to its end or its first wait.\<close>

type_synonym ('w, 'a) call = "'w \<Rightarrow> ('w, 'a) async \<times> 'w"

text \<open>An \<^verbatim>\<open>async\<close> method without an \<^verbatim>\<open>await\<close>.\<close>

definition straight :: "('w, 'a) op \<Rightarrow> ('w, 'a) call" where
  "straight m w = map_prod Finished id (m w)"

text \<open>
  The event loop: what goes on while a coroutine waits without a deadline; and with a deadline,
  given the timeout and the world in which it began: whether it passes before the coroutine can
  go on, and the world at that moment.
\<close>

record 'w event_loop =
  el_turn :: "'w \<Rightarrow> 'w"
  el_race :: "pyfloat \<Rightarrow> 'w \<Rightarrow> 'w \<Rightarrow> bool \<times> 'w"

primrec outlast :: "'w event_loop \<Rightarrow> ('w, 'a) async \<Rightarrow> ('w, 'a) op" where
  "outlast el (Finished r) = (\<lambda>w. (r, w))"
| "outlast el (Suspended resume cancel) = (\<lambda>w.
     case map_prod (outlast el) id (resume (el_turn el w)) of (run, w') \<Rightarrow> run w')"

text \<open>How a coroutine ends under a deadline, and whether it was cancelled.\<close>

primrec race :: "'w event_loop \<Rightarrow> pyfloat \<Rightarrow> 'w \<Rightarrow> ('w, 'a) async \<Rightarrow> 'w \<Rightarrow> bool \<times> (py_exn + 'a) \<times> 'w" where
  "race el timeout start (Finished r) = (\<lambda>w. (False, r, w))"
| "race el timeout start (Suspended resume cancel) = (\<lambda>w.
     case el_race el timeout start w of (late, w') \<Rightarrow>
       if late then (case cancel w' of (c, w'') \<Rightarrow> (True, outlast el c w''))
       else (case map_prod (race el timeout start) id (resume w') of (run, w'') \<Rightarrow> run w''))"

fun nonpositive :: "pyfloat \<Rightarrow> bool" where
  "nonpositive (Fin q) = (q \<le> 0)"
| "nonpositive NegInf = True"
| "nonpositive _ = False"

definition is_cancelled :: "py_exn + 'a \<Rightarrow> bool" where
  "is_cancelled r = (case r of Inl CancelledError \<Rightarrow> True | _ \<Rightarrow> False)"

text \<open>
  \<^verbatim>\<open>asyncio.wait_for\<close>. A timeout that is not positive cancels the coroutine before it begins; the
  cancellation takes a turn of the loop.
\<close>

definition wait_for_call :: "'w event_loop \<Rightarrow> pyfloat \<Rightarrow> ('w, 'a) call \<Rightarrow> ('w, 'a) op" where
  "wait_for_call el timeout call = (\<lambda>w.
     if nonpositive timeout then (Inl (TimeoutError []), el_turn el w)
     else case call w of (c, w1) \<Rightarrow>
       (case race el timeout w c w1 of (late, r, w2) \<Rightarrow>
         (if late \<and> is_cancelled r then Inl (TimeoutError []) else r, w2)))"

section \<open>The router over such backends\<close>

record 'w async_backend =
  ab_generate :: "infer_request \<Rightarrow> ('w, infer_response) call"
  ab_embed :: "infer_request \<Rightarrow> ('w, infer_response) call"

definition dispatch_call :: "'w async_backend \<Rightarrow> infer_request \<Rightarrow> ('w, infer_response) call" where
  "dispatch_call backend request =
     (if rq_task_type request = TT_EMBED then ab_embed backend request else ab_generate backend request)"

definition timeout_response :: "backend_names \<Rightarrow> float_ops \<Rightarrow> 'b router_of \<Rightarrow> infer_request \<Rightarrow> infer_response" where
  "timeout_response names fo r request =
     error_response names request ''TIMEOUT'' (''Inference timed out after '' @ fo_text fo (ir_timeout_s r) @ ''s'')"

definition infer_call :: "backend_names \<Rightarrow> float_ops \<Rightarrow> 'w event_loop \<Rightarrow> 'w async_backend router_of
    \<Rightarrow> infer_request \<Rightarrow> ('w, infer_response) op" where
  "infer_call names fo el r request =
     (case select_backend names r request of
        None \<Rightarrow> opret (error_response names request ''NO_BACKEND''
          (''No backend registered for '' @ quoted (backend_key names r request)))
      | Some backend \<Rightarrow>
          opcatch is_Exception
            (opcatch is_timeout (wait_for_call el (ir_timeout_s r) (dispatch_call backend request))
              (\<lambda>_. opret (timeout_response names fo r request)))
            (\<lambda>exc. opret (error_response names request ''BACKEND_ERROR'' (exn_str exc))))"

text \<open>The backends of the repository: their \<^verbatim>\<open>generate\<close> and \<^verbatim>\<open>embed\<close> have no \<^verbatim>\<open>await\<close>.\<close>

definition straight_backend :: "'w backend \<Rightarrow> 'w async_backend" where
  "straight_backend b =
     \<lparr>ab_generate = (\<lambda>request. straight (be_generate b request)),
      ab_embed = (\<lambda>request. straight (be_embed b request))\<rparr>"

definition straight_router :: "'w router \<Rightarrow> 'w async_backend router_of" where
  "straight_router r =
     \<lparr>ir_backends = map (map_prod id straight_backend) (ir_backends r), ir_default = ir_default r,
      ir_timeout_s = ir_timeout_s r\<rparr>"


section \<open>Backends that do not wait\<close>

lemma wait_for_straight:
  "wait_for_call el timeout (straight m) = (\<lambda>w.
     if nonpositive timeout then (Inl (TimeoutError []), el_turn el w) else m w)"
  by (simp add: wait_for_call_def straight_def fun_eq_iff map_prod_def split: prod.split)

lemma dispatch_straight: "dispatch_call (straight_backend b) request = straight (dispatch b request)"
  by (simp add: dispatch_call_def dispatch_def straight_backend_def)

lemma straight_router_fields [simp]:
  "ir_timeout_s (straight_router r) = ir_timeout_s r"
  "backend_key names (straight_router r) request = backend_key names r request"
  by (simp_all add: straight_router_def backend_key_def split: option.split)

lemma select_straight: "select_backend names (straight_router r) request =
    map_option straight_backend (select_backend names r request)"
proof -
  have "map_of (ir_backends (straight_router r)) k = map_option straight_backend (map_of (ir_backends r) k)" for k
    using map_of_map [of straight_backend "ir_backends r"]
    by (simp add: straight_router_def map_prod_def)
  then show ?thesis by (simp add: select_backend_def split: option.split)
qed

definition sign_runtime :: "'w event_loop \<Rightarrow> ('w \<Rightarrow> 'w \<Rightarrow> int) \<Rightarrow> 'w runtime" where
  "sign_runtime el elapsed =
     \<lparr>rt_elapsed_ms = elapsed, rt_timed_out = (\<lambda>timeout w. nonpositive timeout), rt_cancelled = el_turn el\<rparr>"

lemma wait_for_sign: "wait_for_call el timeout (straight m) = wait_for (sign_runtime el elapsed) timeout m"
  by (auto simp: wait_for_straight wait_for_def sign_runtime_def)

text \<open>
  The deadline is without effect on the backends of the repository. They call the model
  without waiting, so for a router over such backends \<open>infer\<close> with its deadline is the operation
  in which only the sign of the timeout matters: with a positive one every request gets what the
  backend makes of it, however long it takes and with nothing else running meanwhile; otherwise no
  request reaches a backend.
\<close>

theorem straight_backends_never_time_out:
  "infer_call names fo el (straight_router r) request =
     infer names fo (sign_runtime el elapsed) r request"
  by (simp add: infer_call_def infer_def select_straight dispatch_straight timeout_response_def
      wait_for_sign [of el _ _ elapsed] split: option.split)

text \<open>
  An answer that is too late is accepted. When the selected backend is the \<^verbatim>\<open>llama.cpp\<close> one
  and the timeout is positive, a completion is returned as an accepted response after any
  time, with the time it took as its latency.
\<close>

theorem late_completion_accepted:
  assumes "select_backend names r request = Some (llama_backend fo rt model)"
    and "\<not> nonpositive (ir_timeout_s r)" and "rq_task_type request \<noteq> TT_EMBED"
    and "llama_generate fo rt model request w = (Inr resp, w')"
  shows "infer_call names fo el (straight_router r) request w = (Inr resp, w') \<and>
     rs_accepted resp \<and> rs_latency_ms resp = rt_elapsed_ms rt w w'"
proof -
  have "infer_call names fo el (straight_router r) request w = (Inr resp, w')"
    using assms
    by (simp add: infer_call_def select_straight dispatch_straight wait_for_straight dispatch_def
        llama_backend_def opcatch_def)
  moreover have "rs_accepted resp \<and> rs_latency_ms resp = rt_elapsed_ms rt w w'"
    using assms(4) by (auto simp: llama_generate_def opbind_def llama_response_def ebind_def
        split: prod.splits sum.splits)
  ultimately show ?thesis ..
qed

section \<open>Backends that can be cancelled\<close>

text \<open>
  Coroutines that end with the cancellation when they are cancelled, and that raise no
  \<^verbatim>\<open>TimeoutError\<close> of their own.
\<close>

inductive cancellable :: "('w, 'a) async \<Rightarrow> bool" where
  cancellable_Finished: "\<forall>e. r = Inl e \<longrightarrow> \<not> is_timeout e \<Longrightarrow> cancellable (Finished r)"
| cancellable_Suspended: "(\<And>w c w'. resume w = (c, w') \<Longrightarrow> cancellable c) \<Longrightarrow>
     (\<And>w c w'. cancel w = (c, w') \<Longrightarrow> c = Finished (Inl CancelledError)) \<Longrightarrow>
     cancellable (Suspended resume cancel)"

inductive_simps cancellable_simps [simp]:
  "cancellable (Finished r)"
  "cancellable (Suspended resume cancel)"




section \<open>Examples\<close>

text \<open>A world is the time in milliseconds. A model that takes a minute, and a backend that sleeps ten seconds.\<close>

definition slow_model :: "nat llama_model" where
  "slow_model =
     \<lparr>lm_call = (\<lambda>arguments w. (Inr (PDict [(''choices'', PList [PDict [(''text'', PStr ''late'')]])]), w + 60000)),
      lm_embed = (\<lambda>txt w. (Inr (PList []), w + 60000)), lm_model_path = opret None\<rparr>"

definition clock_runtime :: "nat runtime" where
  "clock_runtime = \<lparr>rt_elapsed_ms = (\<lambda>a b. int b - int a), rt_timed_out = (\<lambda>t w. False), rt_cancelled = id\<rparr>"



text \<open>A loop in which every sleep takes ten seconds, unless the deadline of a finite timeout comes first.\<close>

definition clock_loop :: "nat event_loop" where
  "clock_loop =
     \<lparr>el_turn = Suc,
      el_race = (\<lambda>timeout start w. case timeout of
          Fin q \<Rightarrow> (if of_nat start + q * 1000 < (of_nat (w + 10000) :: rat)
            then (True, max w (start + nat \<lceil>q * 1000\<rceil>)) else (False, w + 10000))
        | _ \<Rightarrow> (False, w + 10000))\<rparr>"

theorem late_completion_accepted_witness:
  "let r = router_build example_names plain_floats ''llama.cpp'' 30000
         [(RB_LLAMA_CPP, llama_backend plain_floats clock_runtime slow_model)]
   in \<exists>resp. infer_call example_names plain_floats clock_loop (straight_router r) (example_request None) 0 =
          (Inr resp, 60000) \<and> rs_accepted resp \<and> rs_latency_ms resp = 60000"
proof -
  let ?b = "llama_backend plain_floats clock_runtime slow_model"
  let ?r = "router_build example_names plain_floats ''llama.cpp'' 30000 [(RB_LLAMA_CPP, ?b)]"
  have s: "select_backend example_names ?r (example_request None) = Some ?b"
    by (simp add: select_backend_def backend_key_def example_request_def router_build_find)
  have t: "\<not> nonpositive (ir_timeout_s ?r)" by (simp add: plain_floats_def)
  have g: "rq_task_type (example_request None) \<noteq> TT_EMBED" by (simp add: example_request_def)
  have "\<exists>resp. llama_generate plain_floats clock_runtime slow_model (example_request None) 0 = (Inr resp, 60000)"
    by (simp add: llama_generate_def slow_model_def opbind_def llama_response_def first_choice_def
        ebind_def dget_def)
  then obtain resp where "llama_generate plain_floats clock_runtime slow_model (example_request None) 0 = (Inr resp, 60000)" ..
  from late_completion_accepted [OF s t g this, of clock_loop] show ?thesis
    by (auto simp: Let_def clock_runtime_def)
qed


end
