(* ===== verification/Storage_Package.thy ===== *)
theory Storage_Package
  imports Py_Text
begin

text \<open>
  \<^verbatim>\<open>gaia_server/storage/__init__.py\<close>: the lazy attributes of the package. Python's import system is
  the parameter \<open>importer\<close>. Shown: every exported name loads exactly the module that defines it, and
  any other name raises without importing anything.
\<close>

record ('w, 'm, 'a) importer =
  im_import_module :: "string \<Rightarrow> ('w, 'm) op"
  im_getattr :: "'m \<Rightarrow> string \<Rightarrow> ('w, 'a) op"

definition storage_modules :: "(string, string) dict" where
  "storage_modules =
     [(''EtcdMetadataStore'', ''gaia_server.storage.etcd''),
      (''JetStreamEventStore'', ''gaia_server.storage.jetstream''),
      (''MinIOCheckpointStore'', ''gaia_server.storage.minio''),
      (''StorageRegistry'', ''gaia_server.storage.registry'')]"

definition STORAGE_EXPORTS :: "string list" where
  "STORAGE_EXPORTS = [''EtcdMetadataStore'', ''JetStreamEventStore'', ''MinIOCheckpointStore'', ''StorageRegistry'']"

definition no_attribute :: "string \<Rightarrow> py_exn" where
  "no_attribute name = AttributeError (''module '' @ [single_quote] @ ''gaia_server.storage'' @ [single_quote] @
     '' has no attribute '' @ py_repr name)"

definition storage_getattr :: "('w, 'm, 'a) importer \<Rightarrow> string \<Rightarrow> ('w, 'a) op" where
  "storage_getattr im name =
     (case map_of storage_modules name of
        Some path \<Rightarrow> opbind (im_import_module im path) (\<lambda>module. im_getattr im module name)
      | None \<Rightarrow> opraise (no_attribute name))"

lemma exports_are_lazy: "dkeys storage_modules = STORAGE_EXPORTS"
  by (simp add: storage_modules_def STORAGE_EXPORTS_def)

text \<open>The exports are the names that load; the others leave the world alone.\<close>

theorem storage_getattr_outcome:
  "if name \<in> set STORAGE_EXPORTS
   then \<exists>path. (name, path) \<in> set storage_modules \<and>
     storage_getattr im name = opbind (im_import_module im path) (\<lambda>module. im_getattr im module name)
   else storage_getattr im name w = (Inl (no_attribute name), w)"
proof (cases "map_of storage_modules name")
  case None
  then have "name \<notin> set STORAGE_EXPORTS"
    by (simp add: exports_are_lazy [symmetric] map_of_eq_None_iff image_def)
  with None show ?thesis by (simp add: storage_getattr_def)
next
  case (Some path)
  then have "(name, path) \<in> set storage_modules" by (rule map_of_SomeD)
  moreover from this have "name \<in> set STORAGE_EXPORTS"
    by (auto simp: exports_are_lazy [symmetric] intro: rev_image_eqI)
  ultimately show ?thesis using Some by (auto simp: storage_getattr_def)
qed

end
