(* ===== verification/Package_Entry.thy ===== *)
theory Package_Entry
  imports Startup Storage_Package
begin

text \<open>
  How the program is entered and what its packages export: \<^verbatim>\<open>__main__.py\<close>, \<^verbatim>\<open>__init__.py\<close> and the
  \<^verbatim>\<open>__init__.py\<close> of the packages that re-export their classes. The import system is modelled as far
  as they use it: \<^verbatim>\<open>from m import a, b\<close> binds the names, or raises for one that \<^verbatim>\<open>m\<close> does not
  define. Shown: every exported name is the class of that name in a module of the package; and
  what the process exits with, in particular when the router cannot be made.
\<close>

definition VERSION :: string where
  "VERSION = ''0.2.0''"

section \<open>Exports\<close>

text \<open>A name bound by an import: the module and the name it has there.\<close>

type_synonym imported = "string \<times> string"

record package_init =
  pi_imports :: "(string \<times> string list) list"
  pi_all :: "string list"

text \<open>The classes that the imported modules define.\<close>

definition module_classes :: "(string, string list) dict" where
  "module_classes =
     [(''gaia_server.inference.router'', [''InferenceRouter'']),
      (''gaia_server.inference.backends.mock'', [''MockBackend'']),
      (''gaia_server.planetary.state_hub'', [''PlanetarySnapshot'', ''PlanetaryStateHub'']),
      (''gaia_server.restore.errors'', [''RestoreError'', ''ManifestError'', ''CausalReplayError'',
         ''AttestationError'', ''TrustPromotionError'']),
      (''gaia_server.restore.orchestrator'', [''RestoreResult'', ''RestoreOrchestrator'']),
      (''gaia_server.sandbox.guest_sandbox'', [''SandboxAdmissionError'', ''GuestSandbox'', ''_StubCodex''])]"

definition inference_package :: package_init where
  "inference_package =
     \<lparr>pi_imports = [(''gaia_server.inference.router'', [''InferenceRouter''])], pi_all = [''InferenceRouter'']\<rparr>"

definition backends_package :: package_init where
  "backends_package =
     \<lparr>pi_imports = [(''gaia_server.inference.backends.mock'', [''MockBackend''])], pi_all = [''MockBackend'']\<rparr>"

definition planetary_package :: package_init where
  "planetary_package =
     \<lparr>pi_imports = [(''gaia_server.planetary.state_hub'', [''PlanetaryStateHub'', ''PlanetarySnapshot''])],
      pi_all = [''PlanetaryStateHub'', ''PlanetarySnapshot'']\<rparr>"

definition restore_package :: package_init where
  "restore_package =
     \<lparr>pi_imports = [(''gaia_server.restore.errors'', [''AttestationError'', ''CausalReplayError'', ''ManifestError'',
         ''RestoreError'', ''TrustPromotionError'']),
       (''gaia_server.restore.orchestrator'', [''RestoreOrchestrator''])],
      pi_all = [''AttestationError'', ''CausalReplayError'', ''ManifestError'', ''RestoreError'',
        ''RestoreOrchestrator'', ''TrustPromotionError'']\<rparr>"

definition sandbox_package :: package_init where
  "sandbox_package =
     \<lparr>pi_imports = [(''gaia_server.sandbox.guest_sandbox'', [''GuestSandbox''])], pi_all = [''GuestSandbox'']\<rparr>"

definition packages :: "(string, package_init) dict" where
  "packages =
     [(''gaia_server.inference'', inference_package), (''gaia_server.inference.backends'', backends_package),
      (''gaia_server.planetary'', planetary_package), (''gaia_server.restore'', restore_package),
      (''gaia_server.sandbox'', sandbox_package)]"

definition import_name :: "string \<Rightarrow> string \<Rightarrow> py_exn + string \<times> imported" where
  "import_name path name =
     (if name \<in> set (dget module_classes path []) then Inr (name, path, name)
      else Inl (ImportError (''cannot import name '' @ quoted name @ '' from '' @ quoted path)))"

fun run_imports :: "(string \<times> string list) list \<Rightarrow> py_exn + (string, imported) dict" where
  "run_imports [] = Inr []"
| "run_imports ((path, names) # rest) =
     ebind (emap (import_name path) names) (\<lambda>bound. ebind (run_imports rest) (\<lambda>others. Inr (bound @ others)))"

text \<open>\<^verbatim>\<open>from package import *\<close>: the names of \<^verbatim>\<open>__all__\<close>.\<close>

definition star_import :: "package_init \<Rightarrow> py_exn + (string, imported) dict" where
  "star_import init =
     ebind (run_imports (pi_imports init)) (\<lambda>names.
       emap (\<lambda>name. case map_of names name of
           Some v \<Rightarrow> Inr (name, v)
         | None \<Rightarrow> Inl (AttributeError (''module has no attribute '' @ quoted name))) (pi_all init))"

text \<open>
  Every package of the repository can be imported, and exports each name of its \<^verbatim>\<open>__all__\<close> as the
  class of that name in one of its own modules.
\<close>

theorem package_exports_resolve:
  "list_all (\<lambda>(package, init). case star_import init of
       Inl e \<Rightarrow> False
     | Inr names \<Rightarrow> dkeys names = pi_all init \<and>
         list_all (\<lambda>(name, path, original). original = name \<and> startswith path (package @ ''.'')) names)
     packages"
  by code_simp

section \<open>The process\<close>

text \<open>The module is run as a script, or imported.\<close>

definition run_entry :: "string \<Rightarrow> ('w, unit) op \<Rightarrow> ('w, unit) op" where
  "run_entry module_name main = (if module_name = ''__main__'' then main else opret ())"

text \<open>What the interpreter exits with: the code of a \<^verbatim>\<open>SystemExit\<close>, and 1 for any other error.\<close>

definition exit_code :: "py_exn + unit \<Rightarrow> int" where
  "exit_code r = (case r of Inr _ \<Rightarrow> 0 | Inl (SystemExit n) \<Rightarrow> n | Inl _ \<Rightarrow> 1)"

text \<open>
  A router that cannot be made ends the process without the drain of the broker connection. The
  stores are connected before the settings of the router are read; an error there goes
  through \<open>main\<close>, so the process exits with 1 and nothing is called after it.
\<close>

theorem failed_router_not_drained:
  assumes "ho_configure_logging host (log_config_of env) w = (Inr (), w1)"
    and "create_registry infra ecodec rcodec env None w1 = (Inr registry, w2)"
    and "create_router names fo rt lp env None w2 = (Inl e, w3)" and "is_Exception e"
  shows "run_entry ''__main__'' (gaia_main host env infra ecodec rcodec names fo rt lp) w = (Inl e, w3) \<and>
     exit_code (Inl e) = 1"
  using assms by (cases e) (simp_all add: run_entry_def gaia_main_def opbind_def exit_code_def)

theorem failed_router_not_drained_witness:
  "\<forall>rt lp. \<exists>e w'. run_entry ''__main__'' (gaia_main quiet_host [''INFERENCE_TIMEOUT_MS'' \<mapsto> ''soon''] mem_infra
     example_event_codec example_codec example_names plain_floats rt lp) mem_empty = (Inl e, w') \<and> exit_code (Inl e) = 1"
proof (intro allI)
  fix rt :: "mem_world runtime" and lp :: "mem_world llama_package"
  let ?env = "[''INFERENCE_TIMEOUT_MS'' \<mapsto> ''soon'']"
  have log: "ho_configure_logging quiet_host (log_config_of ?env) mem_empty = (Inr (), mem_empty)"
    by (simp add: quiet_host_def)
  have st: "storage_from_env ?env = Inr default_storage"
    by (simp add: storage_from_env_def env_int_def env_get_def env_flag_def default_numbers default_storage_def)
  obtain u w1 where e: "ensure_streams mem_js mem_empty = (Inr u, w1)"
    by (simp add: ensure_streams_def STREAMS_def ensure_stream_def mem_js_def opcatch_def opbind_def
        is_NotFoundError_def mem_empty_def canonical_config_def dset_def)
  have "\<exists>reg w2. create_registry mem_infra example_event_codec example_codec ?env None mem_empty = (Inr reg, w2)"
    by (simp add: create_registry_def opbind_def mem_infra_def e ensure_bucket_def mem_minio_def st)
  then obtain reg w2 where reg: "create_registry mem_infra example_event_codec example_codec ?env None mem_empty = (Inr reg, w2)"
    by blast
  have "py_int ''soon'' = None" by code_simp
  then obtain x where bad: "int_of_text ''soon'' = Inl (ValueError x)" by (simp add: int_of_text_def)
  have "inference_from_env ?env = Inl (ValueError x)"
    by (simp add: inference_from_env_def env_int_def env_get_def default_numbers bad)
  then have "create_router example_names plain_floats rt lp ?env None w2 = (Inl (ValueError x), w2)"
    by (simp add: create_router_def opbind_def)
  from failed_router_not_drained [OF log reg this]
  show "\<exists>e w'. run_entry ''__main__'' (gaia_main quiet_host ?env mem_infra example_event_codec example_codec
      example_names plain_floats rt lp) mem_empty = (Inl e, w') \<and> exit_code (Inl e) = 1" by auto
qed

end
