(* ===== verification/Server_Config.thy ===== *)
theory Server_Config
  imports Gaia_Prelude
begin

text \<open>
  \<^verbatim>\<open>gaia_server/config.py\<close>: the server's configuration and its defaults.
\<close>

record server_config =
  sv_node_id :: string
  sv_cluster_id :: string
  sv_grpc_port :: int
  sv_health_port :: int
  sv_worker_threads :: int
  sv_coordination_target_ms :: pyfloat
  sv_checkpoint_interval_seconds :: int
  sv_max_tenants :: int
  sv_tenant_isolation :: string
  sv_pqc_enabled :: bool
  sv_pqc_kem_algorithm :: string
  sv_pqc_sig_algorithm :: string
  sv_tls_min_version :: string
  sv_tls_group_preference :: string
  sv_metrics_enabled :: bool
  sv_tracing_enabled :: bool
  sv_audit_log_path :: string
  sv_state_root :: string
  sv_preempt_rt_required :: bool
  sv_cgroup_isolation :: bool
  sv_sched_ext_enabled :: bool
  sv_allowed_tenants :: "string list"

definition DEFAULT_SERVER_CONFIG :: server_config where
  "DEFAULT_SERVER_CONFIG =
     \<lparr>sv_node_id = ''gaia-server-node-01'', sv_cluster_id = ''gaia-cluster-main'',
      sv_grpc_port = 50051, sv_health_port = 8080, sv_worker_threads = 8,
      sv_coordination_target_ms = Fin 10, sv_checkpoint_interval_seconds = 300,
      sv_max_tenants = 64, sv_tenant_isolation = ''namespace'', sv_pqc_enabled = True,
      sv_pqc_kem_algorithm = ''ML-KEM-768'', sv_pqc_sig_algorithm = ''ML-DSA-65'',
      sv_tls_min_version = ''TLSv1.3'', sv_tls_group_preference = ''X25519MLKEM768'',
      sv_metrics_enabled = True, sv_tracing_enabled = True,
      sv_audit_log_path = ''.gaia_server_state/audit.jsonl'', sv_state_root = ''.gaia_server_state'',
      sv_preempt_rt_required = False, sv_cgroup_isolation = False, sv_sched_ext_enabled = False,
      sv_allowed_tenants = [''default'']\<rparr>"

end
