(* ===== verification/Tenancy.thy ===== *)
theory Tenancy
  imports Server_Config Py_Text
begin

text \<open>
  \<^verbatim>\<open>gaia_server/tenancy/tenant_registry.py\<close>: the registry of tenants. A record
  is a value here; \<^verbatim>\<open>Shared_Tenants\<close> has the records as objects that the callers share, and shows that
  the methods do the same. Shown: for every sequence of calls the number of active tenants stays within the
  capacity, identifiers are unique, and no entry disappears or becomes active again; and what
  \<open>register\<close> does in each situation, with the capacity test coming before the duplicate test.
\<close>

section \<open>The registry\<close>

record tenant_record =
  tr_tenant_id :: string
  tr_namespace :: string
  tr_isolation_mode :: string
  tr_active :: bool
  tr_metadata :: "(string, string) dict"

record tenant_registry =
  tn_config :: server_config
  tn_tenants :: "(string, tenant_record) dict"

definition registry_init :: "server_config \<Rightarrow> tenant_registry" where
  "registry_init cfg = \<lparr>tn_config = cfg, tn_tenants = []\<rparr>"

definition active_count :: "tenant_registry \<Rightarrow> nat" where
  "active_count r = count_values tr_active (tn_tenants r)"

definition new_tenant :: "server_config \<Rightarrow> string \<Rightarrow> (string, string) dict option \<Rightarrow> tenant_record" where
  "new_tenant cfg tenant_id metadata =
     \<lparr>tr_tenant_id = tenant_id, tr_namespace = ''gaia-'' @ tenant_id,
      tr_isolation_mode = sv_tenant_isolation cfg, tr_active = True,
      tr_metadata = (case metadata of None \<Rightarrow> [] | Some m \<Rightarrow> m)\<rparr>"

definition max_tenants_reached :: "server_config \<Rightarrow> string \<Rightarrow> py_exn" where
  "max_tenants_reached cfg tenant_id =
     RuntimeError (''Max tenants ('' @ str_int (sv_max_tenants cfg) @
       '') reached. Cannot register '' @ [single_quote] @ tenant_id @ [single_quote] @ ''.'')"

definition register_tenant :: "string \<Rightarrow> (string, string) dict option \<Rightarrow> tenant_registry
    \<Rightarrow> (py_exn + tenant_record) \<times> tenant_registry" where
  "register_tenant tenant_id metadata r =
     (if sv_max_tenants (tn_config r) \<le> int (active_count r)
      then (Inl (max_tenants_reached (tn_config r) tenant_id), r)
      else case map_of (tn_tenants r) tenant_id of
        Some t \<Rightarrow> (Inr t, r)
      | None \<Rightarrow>
          (let record = new_tenant (tn_config r) tenant_id metadata
           in (Inr record, r\<lparr>tn_tenants := dset (tn_tenants r) tenant_id record\<rparr>)))"

definition unknown_tenant :: "string \<Rightarrow> py_exn" where
  "unknown_tenant tenant_id = KeyError (''Unknown tenant: '' @ tenant_id)"

definition deregister_tenant :: "string \<Rightarrow> tenant_registry \<Rightarrow> (py_exn + unit) \<times> tenant_registry" where
  "deregister_tenant tenant_id r =
     (case map_of (tn_tenants r) tenant_id of
        None \<Rightarrow> (Inl (unknown_tenant tenant_id), r)
      | Some t \<Rightarrow> (Inr (), r\<lparr>tn_tenants := dset (tn_tenants r) tenant_id (t\<lparr>tr_active := False\<rparr>)\<rparr>))"

definition get_tenant :: "string \<Rightarrow> tenant_registry \<Rightarrow> py_exn + tenant_record" where
  "get_tenant tenant_id r =
     (case map_of (tn_tenants r) tenant_id of
        None \<Rightarrow> Inl (unknown_tenant tenant_id)
      | Some t \<Rightarrow> Inr t)"

definition list_tenants :: "tenant_registry \<Rightarrow> string list" where
  "list_tenants r = dkeys (filter (\<lambda>(tid, t). tr_active t) (tn_tenants r))"

definition tenants_snapshot :: "tenant_registry \<Rightarrow> pydict list" where
  "tenants_snapshot r =
     map (\<lambda>t. [(''tenant_id'', PStr (tr_tenant_id t)), (''namespace'', PStr (tr_namespace t)),
               (''isolation_mode'', PStr (tr_isolation_mode t)), (''active'', PBool (tr_active t))])
       (dvalues (tn_tenants r))"

section \<open>Sequences of calls\<close>

datatype tenant_call =
    Register string "(string, string) dict option"
  | Deregister string

fun tenant_step :: "tenant_call \<Rightarrow> tenant_registry \<Rightarrow> tenant_registry" where
  "tenant_step (Register tenant_id metadata) r = snd (register_tenant tenant_id metadata r)"
| "tenant_step (Deregister tenant_id) r = snd (deregister_tenant tenant_id r)"

abbreviation tenant_run :: "tenant_call list \<Rightarrow> tenant_registry \<Rightarrow> tenant_registry" where
  "tenant_run \<equiv> fold tenant_step"

text \<open>Every record is stored under its own identifier, with its namespace.\<close>

definition tenants_ok :: "tenant_registry \<Rightarrow> bool" where
  "tenants_ok r \<longleftrightarrow> dict_ok (tn_tenants r) \<and>
     (\<forall>(k, t) \<in> set (tn_tenants r). tr_tenant_id t = k \<and> tr_namespace t = ''gaia-'' @ k)"

text \<open>
  How a registry may develop: entries stay, keep everything but their activity, and an inactive
  one stays inactive.
\<close>

definition tenants_extend :: "tenant_registry \<Rightarrow> tenant_registry \<Rightarrow> bool" where
  "tenants_extend r r' \<longleftrightarrow> tn_config r' = tn_config r \<and>
     (\<exists>new. dkeys (tn_tenants r') = dkeys (tn_tenants r) @ new) \<and>
     (\<forall>k t. map_of (tn_tenants r) k = Some t \<longrightarrow>
        (\<exists>t'. map_of (tn_tenants r') k = Some t' \<and> tr_tenant_id t' = tr_tenant_id t \<and>
           tr_namespace t' = tr_namespace t \<and> tr_isolation_mode t' = tr_isolation_mode t \<and>
           tr_metadata t' = tr_metadata t \<and> (tr_active t' \<longrightarrow> tr_active t)))"

lemma tenants_extend_refl: "tenants_extend r r"
  by (auto simp: tenants_extend_def)

lemma tenants_extend_trans:
  assumes "tenants_extend a b" and "tenants_extend b c"
  shows "tenants_extend a c"
proof -
  have "\<exists>new. dkeys (tn_tenants c) = dkeys (tn_tenants a) @ new"
    using assms unfolding tenants_extend_def by (metis append_assoc)
  moreover have "\<exists>t'. map_of (tn_tenants c) k = Some t' \<and> tr_tenant_id t' = tr_tenant_id t \<and>
      tr_namespace t' = tr_namespace t \<and> tr_isolation_mode t' = tr_isolation_mode t \<and>
      tr_metadata t' = tr_metadata t \<and> (tr_active t' \<longrightarrow> tr_active t)"
    if "map_of (tn_tenants a) k = Some t" for k t
  proof -
    from assms(1) that obtain u where "map_of (tn_tenants b) k = Some u" and u: "tr_tenant_id u = tr_tenant_id t"
      "tr_namespace u = tr_namespace t" "tr_isolation_mode u = tr_isolation_mode t"
      "tr_metadata u = tr_metadata t" "tr_active u \<longrightarrow> tr_active t"
      unfolding tenants_extend_def by blast
    then obtain v where "map_of (tn_tenants c) k = Some v" and "tr_tenant_id v = tr_tenant_id u"
      "tr_namespace v = tr_namespace u" "tr_isolation_mode v = tr_isolation_mode u"
      "tr_metadata v = tr_metadata u" "tr_active v \<longrightarrow> tr_active u"
      using assms(2) unfolding tenants_extend_def by blast
    with u show ?thesis by auto
  qed
  ultimately show ?thesis using assms unfolding tenants_extend_def by simp
qed

section \<open>One call\<close>

lemma register_tenant_cases:
  obtains (full) e where "sv_max_tenants (tn_config r) \<le> int (active_count r)"
      and "register_tenant i m r = (Inl e, r)"
    | (known) t where "int (active_count r) < sv_max_tenants (tn_config r)"
      and "map_of (tn_tenants r) i = Some t" and "register_tenant i m r = (Inr t, r)"
    | (fresh) "int (active_count r) < sv_max_tenants (tn_config r)" and "map_of (tn_tenants r) i = None"
      and "register_tenant i m r = (Inr (new_tenant (tn_config r) i m),
        r\<lparr>tn_tenants := dset (tn_tenants r) i (new_tenant (tn_config r) i m)\<rparr>)"
  by (cases "sv_max_tenants (tn_config r) \<le> int (active_count r)"; cases "map_of (tn_tenants r) i")
    (auto simp: register_tenant_def Let_def)

lemma new_tenant_simps [simp]:
  "tr_tenant_id (new_tenant cfg i m) = i" "tr_namespace (new_tenant cfg i m) = ''gaia-'' @ i"
  "tr_isolation_mode (new_tenant cfg i m) = sv_tenant_isolation cfg" "tr_active (new_tenant cfg i m)"
  by (simp_all add: new_tenant_def)

lemma tenants_ok_step: "tenants_ok r \<Longrightarrow> tenants_ok (tenant_step c r)"
proof (cases c)
  case (Register i m)
  assume ok: "tenants_ok r"
  show ?thesis
  proof (cases rule: register_tenant_cases [of r i m])
    case fresh
    then show ?thesis using ok Register by (auto simp: tenants_ok_def dest!: map_of_dset_self)
  qed (use ok Register in simp_all)
next
  case (Deregister i)
  assume "tenants_ok r"
  with Deregister show ?thesis
    by (auto simp: deregister_tenant_def tenants_ok_def dest!: map_of_SomeD map_of_dset_self split: option.split)
qed

lemma active_count_register:
  assumes "tenants_ok r"
  shows "int (active_count (snd (register_tenant i m r))) \<le> max (int (active_count r)) (sv_max_tenants (tn_config r))"
proof (cases rule: register_tenant_cases [of r i m])
  case fresh
  then have "active_count (snd (register_tenant i m r)) = Suc (active_count r)"
    using assms count_values_dset [of "tn_tenants r" tr_active i "new_tenant (tn_config r) i m"]
    by (simp add: active_count_def tenants_ok_def)
  with fresh show ?thesis by simp
qed simp_all

lemma active_count_deregister:
  assumes "tenants_ok r"
  shows "active_count (snd (deregister_tenant i r)) \<le> active_count r"
proof (cases "map_of (tn_tenants r) i")
  case None
  then show ?thesis by (simp add: deregister_tenant_def)
next
  case (Some t)
  with assms count_values_dset [of "tn_tenants r" tr_active i "t\<lparr>tr_active := False\<rparr>"] show ?thesis
    by (simp add: active_count_def tenants_ok_def deregister_tenant_def)
qed

lemma tenant_step_config [simp]: "tn_config (tenant_step c r) = tn_config r"
  by (cases c) (auto simp: register_tenant_def deregister_tenant_def Let_def split: option.split)

lemma tenant_step_extends: "tenants_extend r (tenant_step c r)"
proof (cases c)
  case (Register i m)
  show ?thesis
  proof (cases rule: register_tenant_cases [of r i m])
    case fresh
    then have "i \<notin> set (dkeys (tn_tenants r))" by (simp add: map_of_eq_None_iff)
    with fresh Register show ?thesis by (auto simp: tenants_extend_def dkeys_dset)
  qed (use Register tenants_extend_refl in auto)
next
  case (Deregister i)
  show ?thesis
  proof (cases "map_of (tn_tenants r) i")
    case None
    with Deregister tenants_extend_refl show ?thesis by (simp add: deregister_tenant_def)
  next
    case (Some t)
    then have "i \<in> set (dkeys (tn_tenants r))" by (rule map_of_key)
    with Some Deregister show ?thesis by (auto simp: tenants_extend_def dkeys_dset deregister_tenant_def)
  qed
qed

lemma tenant_run_ok: "tenants_ok r \<Longrightarrow> tenants_ok (tenant_run cs r)"
  by (induction cs arbitrary: r) (simp_all add: tenants_ok_step)

lemma tenant_run_extends: "tenants_extend r (tenant_run cs r)"
proof (induction cs arbitrary: r)
  case Nil
  then show ?case by (simp add: tenants_extend_refl)
next
  case (Cons c cs)
  show ?case using tenants_extend_trans [OF tenant_step_extends Cons.IH] by simp
qed

lemma tenant_run_count:
  "tenants_ok r \<Longrightarrow> int (active_count r) \<le> max 0 (sv_max_tenants (tn_config r)) \<Longrightarrow>
     int (active_count (tenant_run cs r)) \<le> max 0 (sv_max_tenants (tn_config r))"
proof (induction cs arbitrary: r)
  case Nil
  then show ?case by simp
next
  case (Cons c cs)
  have "int (active_count (tenant_step c r)) \<le> max 0 (sv_max_tenants (tn_config r))"
  proof (cases c)
    case (Register i m)
    with active_count_register [OF Cons.prems(1), of i m] Cons.prems(2) show ?thesis by simp
  next
    case (Deregister i)
    with active_count_deregister [OF Cons.prems(1), of i] Cons.prems(2) show ?thesis by simp
  qed
  with Cons.IH [OF tenants_ok_step [OF Cons.prems(1)]] show ?case by simp
qed

section \<open>Properties\<close>

text \<open>
  The registry stays within its capacity. After any sequence of registrations and
  deregistrations the active tenants are at most \<open>max_tenants\<close> many, identifiers are unique, and
  every tenant is stored under its identifier, in the namespace made from it.
\<close>

theorem tenants_within_capacity:
  "let r = tenant_run calls (registry_init cfg)
   in int (length (list_tenants r)) \<le> max 0 (sv_max_tenants cfg) \<and> tenants_ok r"
proof -
  let ?r = "tenant_run calls (registry_init cfg)"
  have i: "tenants_ok (registry_init cfg)" by (simp add: tenants_ok_def registry_init_def)
  have "int (active_count ?r) \<le> max 0 (sv_max_tenants cfg)"
    using tenant_run_count [OF i, of calls]
    by (simp add: registry_init_def active_count_def count_values_def)
  moreover have "length (list_tenants ?r) = active_count ?r"
    by (simp add: list_tenants_def active_count_def count_values_def filter_map comp_def case_prod_unfold)
  ultimately show ?thesis using tenant_run_ok [OF i, of calls] by (simp add: Let_def)
qed

text \<open>
  The registry is an audit trail. Whatever calls follow, every entry stays, in its place and
  unchanged but for its activity, and an inactive tenant never becomes active again.
\<close>

theorem tenants_never_forgotten:
  "let r = tenant_run calls (registry_init cfg); r' = tenant_run later r
   in (\<exists>new. dkeys (tn_tenants r') = dkeys (tn_tenants r) @ new) \<and>
      (\<forall>i t. get_tenant i r = Inr t \<longrightarrow>
         (\<exists>active. get_tenant i r' = Inr (t\<lparr>tr_active := active\<rparr>) \<and> (active \<longrightarrow> tr_active t)))"
proof -
  let ?r = "tenant_run calls (registry_init cfg)"
  have e: "tenants_extend ?r (tenant_run later ?r)" by (rule tenant_run_extends)
  have "\<exists>active. get_tenant i (tenant_run later ?r) = Inr (t\<lparr>tr_active := active\<rparr>) \<and> (active \<longrightarrow> tr_active t)"
    if "get_tenant i ?r = Inr t" for i t
  proof -
    from that have "map_of (tn_tenants ?r) i = Some t" by (simp add: get_tenant_def split: option.splits)
    with e obtain t' where t': "map_of (tn_tenants (tenant_run later ?r)) i = Some t'"
      "tr_tenant_id t' = tr_tenant_id t" "tr_namespace t' = tr_namespace t"
      "tr_isolation_mode t' = tr_isolation_mode t" "tr_metadata t' = tr_metadata t"
      "tr_active t' \<longrightarrow> tr_active t" unfolding tenants_extend_def by blast
    then have "t' = t\<lparr>tr_active := tr_active t'\<rparr>" by simp
    with t' show ?thesis by (metis get_tenant_def option.simps(5))
  qed
  with e show ?thesis unfolding tenants_extend_def Let_def by blast
qed

theorem tenants_never_forgotten_witness:
  "\<exists>active. get_tenant ''a'' (tenant_run [Deregister ''a'', Register ''a'' None]
       (tenant_run [Register ''a'' None] (registry_init DEFAULT_SERVER_CONFIG))) =
     Inr ((new_tenant DEFAULT_SERVER_CONFIG ''a'' None)\<lparr>tr_active := active\<rparr>)"
proof -
  have "get_tenant ''a'' (tenant_run [Register ''a'' None] (registry_init DEFAULT_SERVER_CONFIG)) =
      Inr (new_tenant DEFAULT_SERVER_CONFIG ''a'' None)"
    by (simp add: get_tenant_def register_tenant_def registry_init_def active_count_def
        count_values_def Let_def DEFAULT_SERVER_CONFIG_def)
  with tenants_never_forgotten [of "[Register ''a'' None]" DEFAULT_SERVER_CONFIG
      "[Deregister ''a'', Register ''a'' None]"]
  show ?thesis by (auto simp: Let_def)
qed

text \<open>
  A known tenant cannot be brought back. Registering an identifier that the registry already
  holds never changes the registry: at capacity it raises although no tenant would be added,
  otherwise it returns the stored record, which for a deregistered tenant is an inactive one.
\<close>

theorem register_known_tenant:
  assumes "get_tenant tenant_id r = Inr t"
  shows "\<exists>e. register_tenant tenant_id metadata r =
     (if sv_max_tenants (tn_config r) \<le> int (active_count r) then Inl (RuntimeError e) else Inr t, r)"
  using assms by (auto simp: register_tenant_def get_tenant_def max_tenants_reached_def split: option.splits)

theorem register_known_tenant_witness:
  "let cfg = DEFAULT_SERVER_CONFIG\<lparr>sv_max_tenants := 1\<rparr>;
       r = tenant_run [Register ''a'' None] (registry_init cfg);
       r' = tenant_run [Deregister ''a''] r
   in (\<exists>e. fst (register_tenant ''a'' None r) = Inl (RuntimeError e)) \<and>
      fst (register_tenant ''a'' None r') = Inr ((new_tenant cfg ''a'' None)\<lparr>tr_active := False\<rparr>)"
proof -
  let ?cfg = "DEFAULT_SERVER_CONFIG\<lparr>sv_max_tenants := 1\<rparr>"
  let ?r = "tenant_run [Register ''a'' None] (registry_init ?cfg)"
  let ?r' = "tenant_run [Deregister ''a''] ?r"
  have r: "get_tenant ''a'' ?r = Inr (new_tenant ?cfg ''a'' None)"
    "get_tenant ''a'' ?r' = Inr ((new_tenant ?cfg ''a'' None)\<lparr>tr_active := False\<rparr>)"
    "active_count ?r = 1" "active_count ?r' = 0"
    "sv_max_tenants (tn_config ?r) = 1" "sv_max_tenants (tn_config ?r') = 1"
    by (simp_all add: get_tenant_def register_tenant_def deregister_tenant_def registry_init_def
        active_count_def count_values_def Let_def DEFAULT_SERVER_CONFIG_def dset_def)
  from register_known_tenant [OF r(1), of None] register_known_tenant [OF r(2), of None] r(3-6)
  show ?thesis by (auto simp: Let_def)
qed

end
