(* ===== verification/Shared_Tenants.thy ===== *)
theory Shared_Tenants
  imports Tenancy
begin

text \<open>
  \<^verbatim>\<open>gaia_server/tenancy/tenant_registry.py\<close> with its objects: \<^verbatim>\<open>register\<close> and \<^verbatim>\<open>get\<close> return the
  registry's own record, not a copy, and a record keeps the caller's own metadata dictionary. The
  objects are cells of a store, the registry holds references to them, and its callers, who
  hold references too, may write to what they refer to, without the lock. Shown: whatever the
  callers have written, each method does to the records what it does in \<^verbatim>\<open>Tenancy\<close>, an
  identifier keeps its record for ever, and the capacity holds as long as no caller writes an
  active record; one that does brings back a deregistered tenant above the capacity, and two
  tenants that were registered with one dictionary share it.
\<close>

section \<open>The store\<close>

text \<open>References are numbers, given out in order; a tenant refers to its metadata.\<close>

record tenant_object =
  tb_tenant_id :: string
  tb_namespace :: string
  tb_isolation_mode :: string
  tb_active :: bool
  tb_metadata :: nat

record object_store =
  st_objects :: "nat \<Rightarrow> tenant_object"
  st_dicts :: "nat \<Rightarrow> (string, string) dict"
  st_next :: nat

record shared_registry = object_store +
  sg_config :: server_config
  sg_tenants :: "(string, nat) dict"

definition new_dict :: "(string, string) dict \<Rightarrow> shared_registry \<Rightarrow> nat \<times> shared_registry" where
  "new_dict d s = (st_next s, s\<lparr>st_dicts := (st_dicts s)(st_next s := d), st_next := Suc (st_next s)\<rparr>)"

definition new_object :: "tenant_object \<Rightarrow> shared_registry \<Rightarrow> nat \<times> shared_registry" where
  "new_object ob s = (st_next s, s\<lparr>st_objects := (st_objects s)(st_next s := ob), st_next := Suc (st_next s)\<rparr>)"

section \<open>The registry\<close>

definition shared_init :: "server_config \<Rightarrow> object_store \<Rightarrow> shared_registry" where
  "shared_init cfg st =
     \<lparr>st_objects = st_objects st, st_dicts = st_dicts st, st_next = st_next st, sg_config = cfg, sg_tenants = []\<rparr>"

definition shared_active :: "shared_registry \<Rightarrow> nat" where
  "shared_active s = count_values (\<lambda>a. tb_active (st_objects s a)) (sg_tenants s)"

text \<open>\<^verbatim>\<open>metadata or {}\<close>: the caller's dictionary unless there is none or it is empty.\<close>

definition kept_metadata :: "nat option \<Rightarrow> shared_registry \<Rightarrow> nat \<times> shared_registry" where
  "kept_metadata metadata s =
     (case metadata of
        Some m \<Rightarrow> if st_dicts s m \<noteq> [] then (m, s) else new_dict [] s
      | None \<Rightarrow> new_dict [] s)"

definition shared_register :: "string \<Rightarrow> nat option \<Rightarrow> shared_registry \<Rightarrow> (py_exn + nat) \<times> shared_registry" where
  "shared_register tenant_id metadata s =
     (if sv_max_tenants (sg_config s) \<le> int (shared_active s)
      then (Inl (max_tenants_reached (sg_config s) tenant_id), s)
      else case map_of (sg_tenants s) tenant_id of
        Some a \<Rightarrow> (Inr a, s)
      | None \<Rightarrow>
          (case kept_metadata metadata s of (m, s1) \<Rightarrow>
           (case new_object \<lparr>tb_tenant_id = tenant_id, tb_namespace = ''gaia-'' @ tenant_id,
               tb_isolation_mode = sv_tenant_isolation (sg_config s1), tb_active = True, tb_metadata = m\<rparr> s1 of
             (a, s2) \<Rightarrow> (Inr a, s2\<lparr>sg_tenants := dset (sg_tenants s2) tenant_id a\<rparr>))))"

definition shared_deregister :: "string \<Rightarrow> shared_registry \<Rightarrow> (py_exn + unit) \<times> shared_registry" where
  "shared_deregister tenant_id s =
     (case map_of (sg_tenants s) tenant_id of
        None \<Rightarrow> (Inl (unknown_tenant tenant_id), s)
      | Some a \<Rightarrow> (Inr (), s\<lparr>st_objects := (st_objects s)(a := (st_objects s a)\<lparr>tb_active := False\<rparr>)\<rparr>))"

definition shared_get :: "string \<Rightarrow> shared_registry \<Rightarrow> py_exn + nat" where
  "shared_get tenant_id s =
     (case map_of (sg_tenants s) tenant_id of None \<Rightarrow> Inl (unknown_tenant tenant_id) | Some a \<Rightarrow> Inr a)"

definition shared_list :: "shared_registry \<Rightarrow> string list" where
  "shared_list s = dkeys (filter (\<lambda>(tid, a). tb_active (st_objects s a)) (sg_tenants s))"

definition shared_snapshot :: "shared_registry \<Rightarrow> pydict list" where
  "shared_snapshot s =
     map (\<lambda>a. let t = st_objects s a in
         [(''tenant_id'', PStr (tb_tenant_id t)), (''namespace'', PStr (tb_namespace t)),
          (''isolation_mode'', PStr (tb_isolation_mode t)), (''active'', PBool (tb_active t))])
       (dvalues (sg_tenants s))"

section \<open>Callers\<close>

text \<open>
  What may happen to the registry: a call of a method, a dictionary that a caller makes, and a
  caller that writes to a record or to an entry of a dictionary.
\<close>

datatype tenant_event =
    Registers string "nat option"
  | Deregisters string
  | Makes_Dict "(string, string) dict"
  | Writes_Record nat tenant_object
  | Writes_Item nat string string

fun caller_step :: "tenant_event \<Rightarrow> shared_registry \<Rightarrow> shared_registry" where
  "caller_step (Registers tenant_id metadata) s = snd (shared_register tenant_id metadata s)"
| "caller_step (Deregisters tenant_id) s = snd (shared_deregister tenant_id s)"
| "caller_step (Makes_Dict d) s = snd (new_dict d s)"
| "caller_step (Writes_Record a ob) s = s\<lparr>st_objects := (st_objects s)(a := ob)\<rparr>"
| "caller_step (Writes_Item m k v) s = s\<lparr>st_dicts := (st_dicts s)(m := dset (st_dicts s m) k v)\<rparr>"

abbreviation caller_steps :: "tenant_event list \<Rightarrow> shared_registry \<Rightarrow> shared_registry" where
  "caller_steps \<equiv> fold caller_step"

text \<open>A caller has no reference to what does not exist yet.\<close>

fun exists_by :: "nat \<Rightarrow> tenant_event \<Rightarrow> bool" where
  "exists_by n (Registers tenant_id metadata) = (case metadata of None \<Rightarrow> True | Some m \<Rightarrow> m < n)"
| "exists_by n (Writes_Record a ob) = (a < n \<and> tb_metadata ob < n)"
| "exists_by n (Writes_Item m k v) = (m < n)"
| "exists_by n _ = True"

primrec possible :: "tenant_event list \<Rightarrow> shared_registry \<Rightarrow> bool" where
  "possible [] s = True"
| "possible (e # es) s = (exists_by (st_next s) e \<and> possible es (caller_step e s))"

section \<open>The registry as a value\<close>

definition read_tenant :: "shared_registry \<Rightarrow> nat \<Rightarrow> tenant_record" where
  "read_tenant s a = (let t = st_objects s a in
     \<lparr>tr_tenant_id = tb_tenant_id t, tr_namespace = tb_namespace t, tr_isolation_mode = tb_isolation_mode t,
      tr_active = tb_active t, tr_metadata = st_dicts s (tb_metadata t)\<rparr>)"

definition read_registry :: "shared_registry \<Rightarrow> tenant_registry" where
  "read_registry s =
     \<lparr>tn_config = sg_config s, tn_tenants = map (\<lambda>(i, a). (i, read_tenant s a)) (sg_tenants s)\<rparr>"

text \<open>Every tenant has a record of its own, and everything that is referred to exists.\<close>

definition refs_ok :: "shared_registry \<Rightarrow> bool" where
  "refs_ok s \<longleftrightarrow> dict_ok (sg_tenants s) \<and> distinct (dvalues (sg_tenants s)) \<and>
     (\<forall>a \<in> set (dvalues (sg_tenants s)). a < st_next s \<and> tb_metadata (st_objects s a) < st_next s)"


lemma read_registry_simps [simp]:
  "tn_config (read_registry s) = sg_config s"
  "dkeys (tn_tenants (read_registry s)) = dkeys (sg_tenants s)"
  "map_of (tn_tenants (read_registry s)) i = map_option (read_tenant s) (map_of (sg_tenants s) i)"
  using map_of_map [of "read_tenant s" "sg_tenants s"]
  by (simp_all add: read_registry_def case_prod_unfold)

lemma read_tenant_active [simp]: "tr_active (read_tenant s a) = tb_active (st_objects s a)"
  by (simp add: read_tenant_def Let_def)

lemma read_active_count: "active_count (read_registry s) = shared_active s"
  by (simp add: active_count_def shared_active_def count_values_def read_registry_def comp_def filter_map
      case_prod_unfold)

lemma refs_ok_entry:
  assumes "refs_ok s" and "map_of (sg_tenants s) i = Some a"
  shows "a < st_next s" and "tb_metadata (st_objects s a) < st_next s"
proof -
  from assms(2) have "a \<in> set (dvalues (sg_tenants s))" by (force dest: map_of_SomeD)
  with assms(1) show "a < st_next s" "tb_metadata (st_objects s a) < st_next s" by (auto simp: refs_ok_def)
qed

section \<open>One call\<close>

lemma shared_register_cases:
  obtains (full) "sv_max_tenants (sg_config s) \<le> int (shared_active s)"
      and "shared_register i m s = (Inl (max_tenants_reached (sg_config s) i), s)"
    | (known) a where "int (shared_active s) < sv_max_tenants (sg_config s)"
      and "map_of (sg_tenants s) i = Some a" and "shared_register i m s = (Inr a, s)"
    | (fresh) n s1 where "int (shared_active s) < sv_max_tenants (sg_config s)"
      and "map_of (sg_tenants s) i = None" and "kept_metadata m s = (n, s1)"
      and "shared_register i m s = (Inr (st_next s1), s1
        \<lparr>st_objects := (st_objects s1)(st_next s1 := \<lparr>tb_tenant_id = i, tb_namespace = ''gaia-'' @ i,
             tb_isolation_mode = sv_tenant_isolation (sg_config s1), tb_active = True, tb_metadata = n\<rparr>),
         st_next := Suc (st_next s1), sg_tenants := dset (sg_tenants s1) i (st_next s1)\<rparr>)"
proof (cases "sv_max_tenants (sg_config s) \<le> int (shared_active s)")
  case True
  then show ?thesis by (intro full) (simp_all add: shared_register_def)
next
  case False
  obtain n s1 where k: "kept_metadata m s = (n, s1)" by fastforce
  show ?thesis
  proof (cases "map_of (sg_tenants s) i")
    case None
    show ?thesis by (rule fresh [OF _ None k]) (use False None k in \<open>simp_all add: shared_register_def new_object_def\<close>)
  next
    case (Some a)
    show ?thesis by (rule known [OF _ Some]) (use False Some in \<open>simp_all add: shared_register_def\<close>)
  qed
qed

text \<open>What is kept as the metadata: an existing dictionary, or a new one at the end.\<close>

lemma kept_metadata_cases:
  assumes "kept_metadata m s = (n, s1)"
  obtains (given) "m = Some n" "st_dicts s n \<noteq> []" "s1 = s"
    | (made) "n = st_next s" "s1 = s\<lparr>st_dicts := (st_dicts s)(st_next s := []), st_next := Suc (st_next s)\<rparr>"
        "case m of None \<Rightarrow> True | Some d \<Rightarrow> st_dicts s d = []"
proof (cases m)
  case None
  with assms show ?thesis by (intro made) (auto simp: kept_metadata_def new_dict_def)
next
  case (Some d)
  show ?thesis
  proof (cases "st_dicts s d = []")
    case True
    with assms Some show ?thesis by (intro made) (auto simp: kept_metadata_def new_dict_def)
  next
    case False
    with assms Some show ?thesis by (intro given) (simp_all add: kept_metadata_def)
  qed
qed

lemma kept_metadata_fields:
  assumes "kept_metadata m s = (n, s1)"
  shows "sg_tenants s1 = sg_tenants s" "sg_config s1 = sg_config s" "st_objects s1 = st_objects s"
    "st_next s \<le> st_next s1" "\<And>a. a < st_next s \<Longrightarrow> st_dicts s1 a = st_dicts s a"
    "exists_by (st_next s) (Registers i m) \<Longrightarrow> n < st_next s1"
    "st_dicts s1 n = (case m of None \<Rightarrow> [] | Some d \<Rightarrow> st_dicts s d)"
proof -
  note given = kept_metadata_cases [OF assms]
  show "sg_tenants s1 = sg_tenants s" "sg_config s1 = sg_config s" "st_objects s1 = st_objects s"
    "st_next s \<le> st_next s1" "\<And>a. a < st_next s \<Longrightarrow> st_dicts s1 a = st_dicts s a"
    by (rule given; simp)+
  show "n < st_next s1" if "exists_by (st_next s) (Registers i m)"
    using that by (cases rule: given) simp_all
  show "st_dicts s1 n = (case m of None \<Rightarrow> [] | Some d \<Rightarrow> st_dicts s d)"
    by (rule given) (auto split: option.splits)
qed

lemma dvalues_dset_fresh: "map_of d k = None \<Longrightarrow> dvalues (dset d k v) = dvalues d @ [v]"
  by (simp add: dset_absent map_of_eq_None_iff)

lemma refs_ok_step:
  assumes "refs_ok s" and "exists_by (st_next s) e"
  shows "refs_ok (caller_step e s)"
proof (cases e)
  case (Registers i m)
  show ?thesis
  proof (cases rule: shared_register_cases [of s i m])
    case (fresh n s1)
    note k = kept_metadata_fields [OF fresh(3)]
    have "n < st_next s1" using k(6) assms(2) Registers by simp
    moreover have "a < st_next s1 \<and> tb_metadata (st_objects s1 a) < st_next s1"
      if "a \<in> set (dvalues (sg_tenants s1))" for a
      using that assms(1) k(1,3,4) by (fastforce simp: refs_ok_def)
    ultimately show ?thesis
      using fresh(2,4) k(1) assms(1) Registers
      by (auto simp: refs_ok_def dvalues_dset_fresh less_Suc_eq)
  qed (use assms(1) Registers in simp_all)
next
  case (Deregisters i)
  with assms(1) show ?thesis
    by (auto simp: shared_deregister_def refs_ok_def split: option.split)
qed (use assms in \<open>auto simp: refs_ok_def new_dict_def\<close>)

lemma refs_ok_steps: "refs_ok s \<Longrightarrow> possible es s \<Longrightarrow> refs_ok (caller_steps es s)"
  by (induction es arbitrary: s) (simp_all add: refs_ok_step)

text \<open>Reading after a write to one record, and after something new was made.\<close>

lemma map_dset_one:
  assumes "dict_ok d" and "distinct (dvalues d)" and "map_of d i = Some a"
    and "f a = v" and "\<And>b. b \<noteq> a \<Longrightarrow> f b = g b"
  shows "map (\<lambda>(i, a). (i, f a)) d = dset (map (\<lambda>(i, a). (i, g a)) d) i v"
  using assms(1-3)
proof (induction d)
  case (Cons p d)
  obtain k b where p: "p = (k, b)" by fastforce
  show ?case
  proof (cases "k = i")
    case True
    with Cons.prems p have "b = a" "a \<notin> set (dvalues d)" by auto
    have "(case q of (i, a) \<Rightarrow> (i, f a)) = (case q of (i, a) \<Rightarrow> (i, g a))" if "q \<in> set d" for q
    proof -
      from that have "snd q \<in> set (dvalues d)" by simp
      with \<open>a \<notin> set (dvalues d)\<close> have "snd q \<noteq> a" by blast
      then show ?thesis by (simp add: case_prod_unfold assms(5))
    qed
    then have "map (\<lambda>(i, a). (i, f a)) d = map (\<lambda>(i, a). (i, g a)) d" by simp
    with True p \<open>b = a\<close> assms(4) show ?thesis by (simp add: dset_def)
  next
    case False
    with Cons.prems p have d: "dict_ok d" "distinct (dvalues d)" "map_of d i = Some a"
      by (auto simp: dict_ok_def)
    then have "a \<in> set (dvalues d)" by (force dest: map_of_SomeD)
    with Cons.prems(2) p have "b \<noteq> a" by auto
    with Cons.IH [OF d] False p assms(5) show ?thesis by (simp add: dset_def)
  qed
qed simp

lemma read_tenant_old:
  assumes "st_objects s' a = st_objects s a" and "st_dicts s' (tb_metadata (st_objects s a)) = st_dicts s (tb_metadata (st_objects s a))"
  shows "read_tenant s' a = read_tenant s a"
  using assms by (simp add: read_tenant_def)


text \<open>Each method, on the records that the references stand for.\<close>

lemma read_register:
  assumes "refs_ok s" and "exists_by (st_next s) (Registers i m)" and "shared_register i m s = (r, s')"
  shows "register_tenant i (map_option (st_dicts s) m) (read_registry s) =
    (map_sum id (read_tenant s') r, read_registry s')"
proof (cases rule: shared_register_cases [of s i m])
  case full
  with assms(3) show ?thesis by (auto simp: register_tenant_def read_active_count)
next
  case (known a)
  with assms(3) show ?thesis by (auto simp: register_tenant_def read_active_count)
next
  case (fresh n s1)
  note k = kept_metadata_fields [OF fresh(3)]
  have s': "s' = s1
        \<lparr>st_objects := (st_objects s1)(st_next s1 := \<lparr>tb_tenant_id = i, tb_namespace = ''gaia-'' @ i,
             tb_isolation_mode = sv_tenant_isolation (sg_config s1), tb_active = True, tb_metadata = n\<rparr>),
         st_next := Suc (st_next s1), sg_tenants := dset (sg_tenants s1) i (st_next s1)\<rparr>"
    and r: "r = Inr (st_next s1)" using fresh(4) assms(3) by simp_all
  have new: "read_tenant s' (st_next s1) = new_tenant (sg_config s) i (map_option (st_dicts s) m)"
    using k(2,7) by (cases m) (simp_all add: s' read_tenant_def new_tenant_def)
  have "read_tenant s' a = read_tenant s a" if "a \<in> set (dvalues (sg_tenants s))" for a
  proof (rule read_tenant_old)
    from that assms(1) have a: "a < st_next s" "tb_metadata (st_objects s a) < st_next s"
      by (auto simp: refs_ok_def)
    with k(3-5) show "st_objects s' a = st_objects s a"
      "st_dicts s' (tb_metadata (st_objects s a)) = st_dicts s (tb_metadata (st_objects s a))"
      by (simp_all add: s')
  qed
  then have "map (\<lambda>(i, a). (i, read_tenant s' a)) (sg_tenants s) = map (\<lambda>(i, a). (i, read_tenant s a)) (sg_tenants s)"
    by (force intro: map_cong)
  moreover have "dset (sg_tenants s) i (st_next s1) = sg_tenants s @ [(i, st_next s1)]"
    "dset (tn_tenants (read_registry s)) i v = tn_tenants (read_registry s) @ [(i, v)]" for v
    using fresh(2) by (simp_all add: dset_absent map_of_eq_None_iff)
  ultimately have "read_registry s' = (read_registry s)
      \<lparr>tn_tenants := dset (tn_tenants (read_registry s)) i (new_tenant (sg_config s) i (map_option (st_dicts s) m))\<rparr>"
    using new k(1,2) by (simp add: s' [symmetric]) (simp add: s' read_registry_def)
  with fresh(1,2) r new show ?thesis by (simp add: register_tenant_def read_active_count Let_def)
qed

lemma read_deregister:
  assumes "refs_ok s" and "shared_deregister i s = (r, s')"
  shows "deregister_tenant i (read_registry s) = (r, read_registry s')"
proof (cases "map_of (sg_tenants s) i")
  case None
  with assms(2) show ?thesis by (simp add: shared_deregister_def deregister_tenant_def)
next
  case (Some a)
  with assms(2) have s': "s' = s\<lparr>st_objects := (st_objects s)(a := (st_objects s a)\<lparr>tb_active := False\<rparr>)\<rparr>"
    and r: "r = Inr ()" by (simp_all add: shared_deregister_def)
  have d: "dict_ok (sg_tenants s)" "distinct (dvalues (sg_tenants s))" using assms(1) by (simp_all add: refs_ok_def)
  have "map (\<lambda>(i, a). (i, read_tenant s' a)) (sg_tenants s) =
      dset (map (\<lambda>(i, a). (i, read_tenant s a)) (sg_tenants s)) i ((read_tenant s a)\<lparr>tr_active := False\<rparr>)"
    by (rule map_dset_one [OF d Some]) (simp_all add: s' read_tenant_def Let_def)
  with Some r show ?thesis
    by (simp add: deregister_tenant_def) (simp add: read_registry_def s')
qed

lemma read_get: "get_tenant i (read_registry s) = map_sum id (read_tenant s) (shared_get i s)"
  by (simp add: get_tenant_def shared_get_def split: option.split)

lemma read_list: "list_tenants (read_registry s) = shared_list s"
  by (simp add: list_tenants_def shared_list_def read_registry_def filter_map comp_def case_prod_unfold)

lemma read_snapshot: "tenants_snapshot (read_registry s) = shared_snapshot s"
  by (simp add: tenants_snapshot_def shared_snapshot_def read_registry_def comp_def case_prod_unfold
      read_tenant_def Let_def)


section \<open>Any sequence of events\<close>

lemma reference_kept: "map_of (sg_tenants s) i = Some a \<Longrightarrow> map_of (sg_tenants (caller_step e s)) i = Some a"
proof (cases e)
  case (Registers j m)
  assume a: "map_of (sg_tenants s) i = Some a"
  show ?thesis
  proof (cases rule: shared_register_cases [of s j m])
    case (fresh n s1)
    with a kept_metadata_fields(1) [OF fresh(3)] show ?thesis by (auto simp: Registers)
  qed (use a Registers in simp_all)
qed (auto simp: shared_deregister_def new_dict_def split: option.split)

lemma reference_kept_steps:
  "map_of (sg_tenants s) i = Some a \<Longrightarrow> map_of (sg_tenants (caller_steps es s)) i = Some a"
  by (induction es arbitrary: s) (simp_all add: reference_kept)

lemma count_values_mono: "(\<And>v. P v \<Longrightarrow> Q v) \<Longrightarrow> count_values P d \<le> count_values Q d"
  by (induction d) (auto simp: count_values_def)

lemma caller_step_config [simp]: "sg_config (caller_step e s) = sg_config s"
proof (cases e)
  case (Registers i m)
  show ?thesis
  proof (cases rule: shared_register_cases [of s i m])
    case (fresh n s1)
    with kept_metadata_fields(2) [OF fresh(3)] show ?thesis by (simp add: Registers)
  qed (simp_all add: Registers)
qed (auto simp: shared_deregister_def new_dict_def split: option.split)

text \<open>Only a write to a record makes a tenant active that is not a new one.\<close>

definition activates :: "tenant_event \<Rightarrow> bool" where
  "activates e = (case e of Writes_Record a ob \<Rightarrow> tb_active ob | _ \<Rightarrow> False)"

lemma shared_active_step:
  assumes "refs_ok s" and "\<not> activates e"
  shows "int (shared_active (caller_step e s)) \<le> max (int (shared_active s)) (sv_max_tenants (sg_config s))"
proof (cases e)
  case (Registers i m)
  show ?thesis
  proof (cases rule: shared_register_cases [of s i m])
    case (fresh n s1)
    note k = kept_metadata_fields [OF fresh(3)]
    have "sg_tenants (caller_step e s) = sg_tenants s @ [(i, st_next s1)]"
      using fresh(2,4) k(1) by (simp add: Registers dset_absent map_of_eq_None_iff)
    moreover have "filter (\<lambda>a. tb_active (st_objects (caller_step e s) a)) (dvalues (sg_tenants s)) =
        filter (\<lambda>a. tb_active (st_objects s a)) (dvalues (sg_tenants s))"
    proof (rule filter_cong [OF refl])
      fix a assume "a \<in> set (dvalues (sg_tenants s))"
      with assms(1) have "a < st_next s" unfolding refs_ok_def by blast
      with k(3,4) fresh(4) show "tb_active (st_objects (caller_step e s) a) = tb_active (st_objects s a)"
        by (simp add: Registers)
    qed
    ultimately have "shared_active (caller_step e s) \<le> Suc (shared_active s)"
      by (simp add: shared_active_def count_values_def)
    with fresh(1) show ?thesis by simp
  qed (simp_all add: Registers)
next
  case (Deregisters i)
  have "shared_active (caller_step e s) \<le> shared_active s"
    by (auto simp: Deregisters shared_deregister_def shared_active_def intro!: count_values_mono
        split: option.split if_splits)
  then show ?thesis by simp
next
  case (Writes_Record a ob)
  with assms(2) have "shared_active (caller_step e s) \<le> shared_active s"
    by (auto simp: activates_def shared_active_def intro!: count_values_mono split: if_splits)
  then show ?thesis by simp
qed (auto simp: shared_active_def new_dict_def)

lemma shared_active_steps:
  assumes "refs_ok s" and "possible es s" and "\<forall>e \<in> set es. \<not> activates e"
    and "int (shared_active s) \<le> max 0 (sv_max_tenants (sg_config s))"
  shows "int (shared_active (caller_steps es s)) \<le> max 0 (sv_max_tenants (sg_config s))"
  using assms
proof (induction es arbitrary: s)
  case (Cons e es)
  from Cons.prems have "int (shared_active (caller_step e s)) \<le> max 0 (sv_max_tenants (sg_config s))"
    using shared_active_step [of s e] by force
  with Cons.IH [of "caller_step e s"] Cons.prems refs_ok_step [of s e] show ?case by simp
qed simp

lemma refs_ok_init: "refs_ok (shared_init cfg st)"
  by (simp add: refs_ok_def shared_init_def)


section \<open>Properties\<close>

text \<open>
  C33: the objects implement the registry of values. In every state that calls of the methods and
  writes of the callers can lead to, each method gives the records, and leaves the registry, that
  \<^verbatim>\<open>Tenancy\<close> has for it: the references it returns stand for the same records, and the entries
  are the same after it.
\<close>

theorem shared_methods_refine:
  assumes "possible es (shared_init cfg st)" and "s = caller_steps es (shared_init cfg st)"
    and "exists_by (st_next s) (Registers i m)"
  shows "(case shared_register i m s of (r, s') \<Rightarrow> (map_sum id (read_tenant s') r, read_registry s')) =
        register_tenant i (map_option (st_dicts s) m) (read_registry s) \<and>
     (case shared_deregister i s of (r, s') \<Rightarrow> (r, read_registry s')) = deregister_tenant i (read_registry s) \<and>
     map_sum id (read_tenant s) (shared_get i s) = get_tenant i (read_registry s) \<and>
     shared_list s = list_tenants (read_registry s) \<and> shared_snapshot s = tenants_snapshot (read_registry s)"
proof -
  have ok: "refs_ok s" using refs_ok_steps [OF refs_ok_init assms(1)] assms(2) by simp
  from read_register [OF ok assms(3)] read_deregister [OF ok] show ?thesis
    by (simp add: read_get read_list read_snapshot split: prod.split)
qed

text \<open>
  A record is shared. Once a tenant has a record, \<^verbatim>\<open>get\<close> gives every caller that same record
  after whatever has happened since, so what a holder writes to it is what all others read: a record
  that was handed out shows a later deregistration, and a write of a caller changes the entry.
\<close>

theorem record_shared_for_ever:
  assumes "shared_get i s = Inr a"
  shows "shared_get i (caller_steps es s) = Inr a \<and>
     get_tenant i (read_registry (caller_steps es s)) = Inr (read_tenant (caller_steps es s) a) \<and>
     \<not> tr_active (read_tenant (caller_step (Deregisters i) (caller_steps es s)) a) \<and>
     (i \<in> set (list_tenants (read_registry (caller_step (Writes_Record a ob) (caller_steps es s)))) \<or>
      \<not> tb_active ob)"
proof -
  let ?s = "caller_steps es s"
  from assms have "map_of (sg_tenants s) i = Some a" by (simp add: shared_get_def split: option.splits)
  then have a: "map_of (sg_tenants ?s) i = Some a" by (rule reference_kept_steps)
  have "i \<in> set (shared_list (caller_step (Writes_Record a ob) ?s))" if "tb_active ob"
    using that map_of_SomeD [OF a] by (force simp: shared_list_def)
  with a show ?thesis
    by (auto simp: shared_get_def get_tenant_def shared_deregister_def read_list)
qed

text \<open>
  C34: the capacity rests on the callers. The active tenants stay within \<open>max_tenants\<close> through any
  calls of the methods and any writes of the callers, as long as no caller writes an active record.
\<close>

theorem capacity_unless_activated:
  assumes "possible es (shared_init cfg st)"
    and "\<forall>e \<in> set es. \<not> activates e"
  shows "int (length (shared_list (caller_steps es (shared_init cfg st)))) \<le> max 0 (sv_max_tenants cfg)"
proof -
  let ?s = "caller_steps es (shared_init cfg st)"
  have "int (shared_active ?s) \<le> max 0 (sv_max_tenants (sg_config (shared_init cfg st)))"
    by (rule shared_active_steps [OF refs_ok_init assms])
      (simp add: shared_init_def shared_active_def count_values_def)
  moreover have "length (shared_list ?s) = shared_active ?s"
    by (simp add: shared_list_def shared_active_def count_values_def filter_map comp_def case_prod_unfold)
  ultimately show ?thesis by (simp add: shared_init_def)
qed

text \<open>
  Tenants that are registered with one dictionary that is not empty share it: an entry that is
  written through the one tenant is read through the other.
\<close>

theorem metadata_shared:
  assumes "st_dicts s m \<noteq> []"
    and "shared_register i (Some m) s = (Inr a, s1)" and "map_of (sg_tenants s) i = None"
    and "shared_register j (Some m) s1 = (Inr b, s2)" and "map_of (sg_tenants s1) j = None"
  shows "map_of (tr_metadata (read_tenant (caller_step (Writes_Item (tb_metadata (st_objects s2 a)) k v) s2) b)) k = Some v"
proof -
  have k: "kept_metadata (Some m) t = (m, t)" if "st_dicts t m \<noteq> []" for t
    using that by (simp add: kept_metadata_def)
  from assms(1-3) k [OF assms(1)] have one: "a = st_next s" "st_dicts s1 = st_dicts s" "st_next s1 = Suc (st_next s)"
    "tb_metadata (st_objects s1 a) = m"
    by (auto simp: shared_register_def new_object_def split: if_splits)
  from one(2) assms(1) have "st_dicts s1 m \<noteq> []" by simp
  from assms(4,5) k [OF this] have two: "b = st_next s1" "tb_metadata (st_objects s2 b) = m"
    "st_objects s2 a = (if a = b then st_objects s2 b else st_objects s1 a)"
    by (auto simp: shared_register_def new_object_def split: if_splits)
  from one two have "tb_metadata (st_objects s2 a) = m" "tb_metadata (st_objects s2 b) = m" by simp_all
  then show ?thesis by (simp add: read_tenant_def Let_def)
qed


text \<open>
  The condition of \<^verbatim>\<open>capacity_unless_activated\<close> is needed: with room for one tenant, a holder of a
  deregistered tenant's record makes it active after another one has taken its place.
\<close>

definition empty_store :: object_store where
  "empty_store = \<lparr>st_objects = (\<lambda>a. \<lparr>tb_tenant_id = [], tb_namespace = [], tb_isolation_mode = [],
     tb_active = False, tb_metadata = 0\<rparr>), st_dicts = (\<lambda>m. []), st_next = 0\<rparr>"

definition one_place :: shared_registry where
  "one_place = shared_init (DEFAULT_SERVER_CONFIG\<lparr>sv_max_tenants := 1\<rparr>) empty_store"

definition tenant_a :: tenant_object where
  "tenant_a = \<lparr>tb_tenant_id = ''a'', tb_namespace = ''gaia-a'', tb_isolation_mode = ''namespace'',
     tb_active = True, tb_metadata = 0\<rparr>"

lemmas shared_examples = one_place_def empty_store_def shared_init_def shared_register_def shared_deregister_def
  shared_active_def kept_metadata_def new_dict_def new_object_def count_values_def dset_def

lemma revived_above_capacity:
  "let es = [Registers ''a'' None, Deregisters ''a'', Registers ''b'' None, Writes_Record 1 tenant_a]
   in possible es one_place \<and> shared_list (caller_steps es one_place) = [''a'', ''b'']"
  by (simp add: shared_examples tenant_a_def shared_list_def Let_def)

theorem shared_methods_refine_witness:
  "shared_list (caller_steps [Registers ''a'' None, Deregisters ''a'', Registers ''b'' None, Writes_Record 1 tenant_a] one_place) =
     list_tenants (read_registry (caller_steps
       [Registers ''a'' None, Deregisters ''a'', Registers ''b'' None, Writes_Record 1 tenant_a] one_place))"
proof -
  let ?es = "[Registers ''a'' None, Deregisters ''a'', Registers ''b'' None, Writes_Record 1 tenant_a]"
  have "possible ?es one_place" by (simp add: shared_examples tenant_a_def)
  from shared_methods_refine [OF this [unfolded one_place_def] refl, of "''c''" None] show ?thesis
    by (simp add: one_place_def)
qed

theorem record_shared_for_ever_witness:
  "shared_get ''a'' (caller_steps [Deregisters ''a'', Registers ''b'' None] (caller_step (Registers ''a'' None) one_place)) = Inr 1"
proof -
  have "shared_get ''a'' (caller_step (Registers ''a'' None) one_place) = Inr 1"
    by (simp add: shared_examples shared_get_def)
  from record_shared_for_ever [OF this, of "[Deregisters ''a'', Registers ''b'' None]"] show ?thesis by simp
qed

theorem capacity_unless_activated_witness:
  "length (shared_list (caller_steps [Registers ''a'' None, Writes_Record 1 (tenant_a\<lparr>tb_active := False\<rparr>),
      Registers ''b'' None, Registers ''c'' None] one_place)) \<le> 1"
proof -
  let ?es = "[Registers ''a'' None, Writes_Record 1 (tenant_a\<lparr>tb_active := False\<rparr>),
      Registers ''b'' None, Registers ''c'' None]"
  have "possible ?es one_place" by (simp add: shared_examples tenant_a_def)
  moreover have "\<forall>e \<in> set ?es. \<not> activates e" by (simp add: activates_def)
  ultimately show ?thesis
    using capacity_unless_activated [of ?es "DEFAULT_SERVER_CONFIG\<lparr>sv_max_tenants := 1\<rparr>" empty_store]
    by (simp add: one_place_def)
qed

theorem metadata_shared_witness:
  "let s = snd (new_dict [(''tier'', ''gold'')] (shared_init DEFAULT_SERVER_CONFIG empty_store));
       s1 = caller_step (Registers ''a'' (Some 0)) s; s2 = caller_step (Registers ''b'' (Some 0)) s1
   in map_of (tr_metadata (read_tenant (caller_step (Writes_Item (tb_metadata (st_objects s2 1)) ''tier'' ''none'') s2) 2)) ''tier'' =
        Some ''none''"
proof -
  define s where "s = snd (new_dict [(''tier'', ''gold'')] (shared_init DEFAULT_SERVER_CONFIG empty_store))"
  define s1 where "s1 = caller_step (Registers ''a'' (Some 0)) s"
  define s2 where "s2 = caller_step (Registers ''b'' (Some 0)) s1"
  note unfolds = shared_register_def kept_metadata_def new_object_def shared_active_def count_values_def dset_def
  have s: "sg_config s = DEFAULT_SERVER_CONFIG" "sg_tenants s = []" "st_dicts s 0 \<noteq> []" "st_next s = 1"
    by (simp_all add: s_def shared_init_def new_dict_def empty_store_def)
  have c: "sv_max_tenants DEFAULT_SERVER_CONFIG > 1" by (simp add: DEFAULT_SERVER_CONFIG_def)
  have r1: "shared_register ''a'' (Some 0) s = (Inr 1, s1)" using s c by (simp add: s1_def unfolds)
  have s1: "sg_config s1 = DEFAULT_SERVER_CONFIG" "sg_tenants s1 = [(''a'', 1)]" "st_dicts s1 0 \<noteq> []"
    "st_next s1 = 2" "tb_active (st_objects s1 1)" using s c by (simp_all add: s1_def unfolds)
  have r2: "shared_register ''b'' (Some 0) s1 = (Inr 2, s2)" using s1 c by (simp add: s2_def unfolds)
  from metadata_shared [OF s(3) r1 _ r2, of "''tier''" "''none''"] s(2) s1(2) show ?thesis
    by (simp add: Let_def s_def [symmetric] s1_def [symmetric] s2_def [symmetric] del: caller_step.simps)
qed

end
