(* ===== verification/Planetary.thy ===== *)
theory Planetary
  imports Py_Value Keyed_Registry
begin

text \<open>
  \<^verbatim>\<open>gaia_server/planetary/state_hub.py\<close>: the latest snapshot of each node and the fleet's summary.
  The fields of a payload are whatever the node sent. Shown: the hub holds the last accepted
  snapshot of each node, for any sequence of pushes; the summary is complete when the snapshots are
  well-formed; and one malformed push is stored although it raises, and breaks the summary of
  the whole fleet.
\<close>

section \<open>The hub\<close>

record planetary_snapshot =
  ps_node_id :: string
  ps_timestamp :: pyval
  ps_observations :: pyval
  ps_energy :: pyval
  ps_climate :: pyval
  ps_biosphere :: pyval
  ps_network :: pyval
  ps_integrity :: pyval
  ps_love_score :: pyfloat
  ps_metadata :: pyval

record planetary_hub =
  ph_snapshots :: "(string, planetary_snapshot) dict"

definition hub_init :: planetary_hub where
  "hub_init = \<lparr>ph_snapshots = []\<rparr>"

text \<open>The snapshot is stored, and then the log line asks for the length of its observations.\<close>

definition hub_push :: "planetary_snapshot \<Rightarrow> planetary_hub \<Rightarrow> (py_exn + unit) \<times> planetary_hub" where
  "hub_push snap hub =
     (let hub' = hub\<lparr>ph_snapshots := dset (ph_snapshots hub) (ps_node_id snap) snap\<rparr>
      in (ebind (py_len (ps_observations snap)) (\<lambda>_. Inr ()), hub'))"

definition snapshot_of :: "float_ops \<Rightarrow> pyfloat \<Rightarrow> string \<Rightarrow> pydict \<Rightarrow> py_exn + planetary_snapshot" where
  "snapshot_of fo now node_id payload =
     ebind (fo_float fo (dget payload ''love_score'' (PFloat (Fin 0)))) (\<lambda>love. Inr
       \<lparr>ps_node_id = node_id,
        ps_timestamp = dget payload ''timestamp'' (PFloat now),
        ps_observations = dget payload ''observations'' (PDict []),
        ps_energy = dget payload ''energy'' (PDict []),
        ps_climate = dget payload ''climate'' (PDict []),
        ps_biosphere = dget payload ''biosphere'' (PDict []),
        ps_network = dget payload ''network'' (PDict []),
        ps_integrity = dget payload ''integrity'' (PDict []),
        ps_love_score = love,
        ps_metadata = dget payload ''metadata'' (PDict [])\<rparr>)"

definition hub_push_dict :: "float_ops \<Rightarrow> pyfloat \<Rightarrow> string \<Rightarrow> pydict \<Rightarrow> planetary_hub
    \<Rightarrow> (py_exn + planetary_snapshot) \<times> planetary_hub" where
  "hub_push_dict fo now node_id payload hub =
     (case snapshot_of fo now node_id payload of
        Inl e \<Rightarrow> (Inl e, hub)
      | Inr snap \<Rightarrow>
          (case hub_push snap hub of (r, hub') \<Rightarrow> (ebind r (\<lambda>_. Inr snap), hub')))"

definition hub_snapshot :: "planetary_hub \<Rightarrow> string \<Rightarrow> planetary_snapshot option" where
  "hub_snapshot hub node_id = map_of (ph_snapshots hub) node_id"

definition node_summary :: "planetary_snapshot \<Rightarrow> py_exn + pyval" where
  "node_summary s =
     ebind (py_len (ps_observations s)) (\<lambda>n. Inr (PDict
       [(''timestamp'', ps_timestamp s), (''love_score'', PFloat (ps_love_score s)),
        (''observation_count'', PInt (int n))]))"

definition fleet_summary :: "float_ops \<Rightarrow> planetary_hub \<Rightarrow> py_exn + pydict" where
  "fleet_summary fo hub =
     (case dvalues (ph_snapshots hub) of
        [] \<Rightarrow> Inr [(''node_count'', PInt 0), (''nodes'', PList []), (''fleet_love_score'', PFloat (Fin 0))]
      | s # ss \<Rightarrow>
          (let nodes = dkeys (ph_snapshots hub);
               avg_love = fo_div fo (fo_sum fo (map ps_love_score (s # ss))) (int (length (ph_snapshots hub)))
           in ebind (py_max (fo_greater fo) (ps_timestamp s) (map ps_timestamp ss)) (\<lambda>latest_ts.
              ebind (emap (\<lambda>(nid, s). ebind (node_summary s) (\<lambda>v. Inr (nid, v))) (ph_snapshots hub))
                (\<lambda>snaps. Inr
                  [(''node_count'', PInt (int (length nodes))),
                   (''nodes'', PList (map PStr nodes)),
                   (''fleet_love_score'', PFloat (fo_round fo avg_love 4)),
                   (''latest_snapshot_ts'', latest_ts),
                   (''snapshots'', PDict snaps)]))))"

definition all_snapshots :: "planetary_hub \<Rightarrow> planetary_snapshot list" where
  "all_snapshots hub = dvalues (ph_snapshots hub)"

definition hub_node_count :: "planetary_hub \<Rightarrow> nat" where
  "hub_node_count hub = length (ph_snapshots hub)"

definition hub_clear :: "planetary_hub \<Rightarrow> planetary_hub" where
  "hub_clear hub = hub\<lparr>ph_snapshots := []\<rparr>"

section \<open>The hub is a keyed registry\<close>

definition hub_store :: "string \<Rightarrow> planetary_snapshot \<Rightarrow> planetary_hub \<Rightarrow> planetary_hub" where
  "hub_store node_id snap hub = snd (hub_push (snap\<lparr>ps_node_id := node_id\<rparr>) hub)"

abbreviation hub_nodes :: "planetary_hub \<Rightarrow> string list" where
  "hub_nodes hub \<equiv> dkeys (ph_snapshots hub)"

interpretation hub_registry: keyed_registry hub_store hub_snapshot hub_nodes
    "\<lambda>node_id snap. snap\<lparr>ps_node_id := node_id\<rparr>"
proof
  show "hub_snapshot (hub_store k v s) j = (if j = k then Some (v\<lparr>ps_node_id := k\<rparr>) else hub_snapshot s j)" for k v s j
    by (simp add: hub_snapshot_def hub_store_def hub_push_def Let_def)
  show "hub_nodes (hub_store k v s) = (if k \<in> set (hub_nodes s) then hub_nodes s else hub_nodes s @ [k])" for k v s
    by (simp add: hub_store_def hub_push_def Let_def dkeys_dset)
  show "k \<in> set (hub_nodes s) \<longleftrightarrow> hub_snapshot s k \<noteq> None" for k s
    by (simp add: hub_snapshot_def map_of_eq_None_iff)
qed

text \<open>A push request: the time it arrives, the node, and the payload.\<close>

type_synonym push_call = "pyfloat \<times> string \<times> pydict"

definition hub_run :: "float_ops \<Rightarrow> push_call list \<Rightarrow> planetary_hub \<Rightarrow> planetary_hub" where
  "hub_run fo calls = fold (\<lambda>(now, node_id, payload) hub. snd (hub_push_dict fo now node_id payload hub)) calls"

text \<open>The snapshots that a sequence of requests stores: those whose love score is a number.\<close>

definition accepted :: "float_ops \<Rightarrow> push_call list \<Rightarrow> (string \<times> planetary_snapshot) list" where
  "accepted fo calls = concat (map (\<lambda>(now, node_id, payload).
     case snapshot_of fo now node_id payload of Inl e \<Rightarrow> [] | Inr snap \<Rightarrow> [(node_id, snap)]) calls)"

lemma snapshot_of_node: "snapshot_of fo now node_id payload = Inr snap \<Longrightarrow> snap\<lparr>ps_node_id := node_id\<rparr> = snap"
  by (auto simp: snapshot_of_def ebind_eq_Inr)

lemma hub_run_store: "hub_run fo calls hub = hub_registry.store_all (accepted fo calls) hub"
proof (induction calls arbitrary: hub)
  case Nil
  then show ?case by (simp add: hub_run_def accepted_def)
next
  case (Cons c calls)
  obtain now node_id payload where c: "c = (now, node_id, payload)" by (cases c) auto
  have "hub_run fo (c # calls) hub = hub_run fo calls (snd (hub_push_dict fo now node_id payload hub))"
    by (simp add: hub_run_def c)
  also have "\<dots> = hub_registry.store_all (accepted fo (c # calls)) hub"
    unfolding Cons.IH
    by (cases "snapshot_of fo now node_id payload")
      (simp_all add: hub_push_dict_def accepted_def c hub_store_def snapshot_of_node split: prod.split)
  finally show ?case .
qed

text \<open>Snapshots of which the summary can be made.\<close>

definition sized :: "planetary_snapshot \<Rightarrow> bool" where
  "sized s \<longleftrightarrow> (\<exists>n. py_len (ps_observations s) = Inr n)"

definition comparable :: "float_ops \<Rightarrow> planetary_snapshot list \<Rightarrow> bool" where
  "comparable fo ss \<longleftrightarrow>
     (\<forall>s \<in> set ss. \<forall>t \<in> set ss. \<exists>b. fo_greater fo (ps_timestamp s) (ps_timestamp t) = Inr b)"

section \<open>Properties\<close>

text \<open>
  The hub holds the latest snapshot of each node. After any sequence of pushes to a new hub,
  the snapshot of a node is the one made from its last push whose love score is a number, a
  node without such a push is unknown, and the nodes are counted once each.
\<close>

theorem hub_holds_latest:
  "let hub = hub_run fo calls hub_init
   in (\<forall>node_id. hub_snapshot hub node_id = map_of (rev (accepted fo calls)) node_id) \<and>
      hub_node_count hub = card (fst ` set (accepted fo calls)) \<and>
      length (all_snapshots hub) = hub_node_count hub"
proof -
  let ?hub = "hub_run fo calls hub_init"
  have node: "snap\<lparr>ps_node_id := n\<rparr> = snap" if "(n, snap) \<in> set (accepted fo calls)" for n snap
    using that by (auto simp: accepted_def dest: snapshot_of_node [OF sym] split: sum.splits)
  have "hub_snapshot ?hub n = map_of (rev (accepted fo calls)) n" for n
    unfolding hub_run_store hub_registry.find_store_all
    using node by (auto simp: hub_snapshot_def hub_init_def split: option.split dest!: map_of_SomeD)
  moreover have "hub_node_count ?hub = card (fst ` set (accepted fo calls))"
    using hub_registry.count_keys [of hub_init "accepted fo calls"]
    unfolding hub_run_store by (simp add: hub_node_count_def hub_init_def)
  ultimately show ?thesis by (simp add: Let_def all_snapshots_def hub_node_count_def)
qed

text \<open>
  When the observations of every stored snapshot have a length and the timestamps can be compared,
  \<open>fleet_summary\<close> returns, with one entry per node in the order of the hub.
\<close>

lemma fleet_summary_entries:
  assumes "\<forall>s \<in> set (all_snapshots hub). sized s" and "comparable fo (all_snapshots hub)"
  shows "\<exists>d. fleet_summary fo hub = Inr d \<and>
     map_of d ''node_count'' = Some (PInt (int (hub_node_count hub))) \<and>
     map_of d ''nodes'' = Some (PList (map PStr (hub_nodes hub))) \<and>
     (ph_snapshots hub \<noteq> [] \<longrightarrow> (\<exists>snaps. map_of d ''snapshots'' = Some (PDict snaps) \<and>
        map_of d ''fleet_love_score'' = Some (PFloat (fo_round fo
          (fo_div fo (fo_sum fo (map ps_love_score (all_snapshots hub))) (int (hub_node_count hub))) 4)) \<and>
        map fst snaps = hub_nodes hub \<and>
        list_all2 (\<lambda>s e. node_summary s = Inr (snd e)) (all_snapshots hub) snaps))"
proof (cases "ph_snapshots hub")
  case Nil
  then show ?thesis by (simp add: fleet_summary_def hub_node_count_def)
next
  case (Cons p ps)
  define d where "d = ph_snapshots hub"
  let ?entry = "\<lambda>(nid, s). ebind (node_summary s) (\<lambda>v. Inr (nid :: string, v))"
  define g where "g = (\<lambda>(nid :: string, s). (nid, case node_summary s of Inr v \<Rightarrow> v | Inl _ \<Rightarrow> PNone))"
  have sum: "node_summary s = Inr (snd (g (n, s)))" if "(n, s) \<in> set d" for n s
  proof -
    have "s \<in> set (all_snapshots hub)" using that by (force simp: all_snapshots_def d_def)
    then obtain k where "py_len (ps_observations s) = Inr k" using assms(1) by (auto simp: sized_def)
    then show ?thesis by (simp add: node_summary_def g_def)
  qed
  have "emap ?entry d = Inr (map g d)"
  proof (rule emap_all, rule ballI)
    fix x
    assume "x \<in> set d"
    with sum [of "fst x" "snd x"] show "?entry x = Inr (g x)"
      by (cases x; cases "node_summary (snd x)") (auto simp: g_def)
  qed
  moreover obtain ts where "py_max (fo_greater fo) (ps_timestamp (snd p)) (map ps_timestamp (dvalues ps)) = Inr ts"
    using py_max_ok [of "ps_timestamp (snd p)" "map ps_timestamp (dvalues ps)" "fo_greater fo"] assms(2) Cons
    by (auto simp: comparable_def all_snapshots_def)
  moreover have "map fst (map g d) = dkeys d" by (induction d) (auto simp: g_def)
  moreover have "list_all2 (\<lambda>s e. node_summary s = Inr (snd e)) (dvalues d) (map g d)"
    using sum by (auto simp: list_all2_conv_all_nth) (metis nth_mem surjective_pairing)
  ultimately show ?thesis
    using Cons by (simp add: fleet_summary_def Let_def d_def all_snapshots_def hub_node_count_def)
qed

text \<open>
  What a sequence of pushes to a new hub should leave: the nodes in the order of their first push
  that is stored, and the snapshot of the last one of each.
\<close>

definition pushed_nodes :: "float_ops \<Rightarrow> push_call list \<Rightarrow> string list" where
  "pushed_nodes fo calls = rev (remdups (rev (map fst (accepted fo calls))))"

definition last_push :: "float_ops \<Rightarrow> push_call list \<Rightarrow> string \<Rightarrow> planetary_snapshot" where
  "last_push fo calls node_id = the (map_of (rev (accepted fo calls)) node_id)"

lemma dvalues_map_of: "distinct (dkeys d) \<Longrightarrow> dvalues d = map (\<lambda>k. the (map_of d k)) (dkeys d)"
proof (induction d)
  case (Cons x d)
  then have "map (\<lambda>k. the (map_of (x # d) k)) (dkeys d) = map (\<lambda>k. the (map_of d k)) (dkeys d)"
    by (cases x) (auto intro!: map_cong)
  with Cons show ?case by (cases x) simp
qed simp

lemma hub_run_contents:
  "hub_nodes (hub_run fo calls hub_init) = pushed_nodes fo calls"
  "all_snapshots (hub_run fo calls hub_init) = map (last_push fo calls) (pushed_nodes fo calls)"
proof -
  let ?hub = "hub_run fo calls hub_init"
  show n: "hub_nodes ?hub = pushed_nodes fo calls"
    unfolding pushed_nodes_def hub_run_store by (rule hub_registry.keys_in_order) (simp add: hub_init_def)
  have "distinct (hub_nodes ?hub)" unfolding n by (simp add: pushed_nodes_def)
  then have "all_snapshots ?hub = map (\<lambda>k. the (map_of (ph_snapshots ?hub) k)) (hub_nodes ?hub)"
    unfolding all_snapshots_def by (rule dvalues_map_of)
  moreover have "the (map_of (ph_snapshots ?hub) k) = last_push fo calls k" for k
    using hub_holds_latest [of fo calls] by (simp add: hub_snapshot_def Let_def last_push_def)
  ultimately show "all_snapshots ?hub = map (last_push fo calls) (pushed_nodes fo calls)"
    by (simp only: n)
qed

text \<open>
  C37: the summary covers the fleet. Take any sequence of pushes to a new hub, such that the observations of the
  snapshots it holds have a length and their timestamps can be compared. Then \<open>fleet_summary\<close> returns, its nodes are those
  with a push whose love score is a number, once each in the order of their first such push, the entry of each node
  is made of its latest one, and the fleet's score is the rounded mean of the latest scores.
\<close>

theorem fleet_summary_complete:
  assumes "\<forall>s \<in> set (all_snapshots (hub_run fo calls hub_init)). sized s"
    and "comparable fo (all_snapshots (hub_run fo calls hub_init))"
  shows "let nodes = pushed_nodes fo calls; latest = last_push fo calls
   in \<exists>d. fleet_summary fo (hub_run fo calls hub_init) = Inr d \<and>
     map_of d ''node_count'' = Some (PInt (int (length nodes))) \<and>
     map_of d ''nodes'' = Some (PList (map PStr nodes)) \<and>
     (nodes \<noteq> [] \<longrightarrow>
        map_of d ''fleet_love_score'' = Some (PFloat (fo_round fo
          (fo_div fo (fo_sum fo (map (\<lambda>n. ps_love_score (latest n)) nodes)) (int (length nodes))) 4)) \<and>
        (\<exists>snaps. map_of d ''snapshots'' = Some (PDict snaps) \<and> map fst snaps = nodes \<and>
           (\<forall>i < length nodes. node_summary (latest (nodes ! i)) = Inr (snd (snaps ! i)))))"
proof -
  let ?hub = "hub_run fo calls hub_init"
  note n = hub_run_contents [of fo calls]
  have c: "hub_node_count ?hub = length (pushed_nodes fo calls)"
    using arg_cong [OF n(1), of length] by (simp add: hub_node_count_def)
  have e: "ph_snapshots ?hub \<noteq> [] \<longleftrightarrow> pushed_nodes fo calls \<noteq> []" using n(1) by auto
  from fleet_summary_entries [OF assms] obtain d where d: "fleet_summary fo ?hub = Inr d"
    "map_of d ''node_count'' = Some (PInt (int (hub_node_count ?hub)))"
    "map_of d ''nodes'' = Some (PList (map PStr (hub_nodes ?hub)))"
    and ne: "ph_snapshots ?hub \<noteq> [] \<longrightarrow> (\<exists>snaps. map_of d ''snapshots'' = Some (PDict snaps) \<and>
        map_of d ''fleet_love_score'' = Some (PFloat (fo_round fo
          (fo_div fo (fo_sum fo (map ps_love_score (all_snapshots ?hub))) (int (hub_node_count ?hub))) 4)) \<and>
        map fst snaps = hub_nodes ?hub \<and>
        list_all2 (\<lambda>s e. node_summary s = Inr (snd e)) (all_snapshots ?hub) snaps)" by (elim exE conjE)
  have "map_of d ''fleet_love_score'' = Some (PFloat (fo_round fo (fo_div fo
          (fo_sum fo (map (\<lambda>n. ps_love_score (last_push fo calls n)) (pushed_nodes fo calls))) (int (length (pushed_nodes fo calls)))) 4)) \<and>
      (\<exists>snaps. map_of d ''snapshots'' = Some (PDict snaps) \<and> map fst snaps = pushed_nodes fo calls \<and>
        (\<forall>i < length (pushed_nodes fo calls). node_summary (last_push fo calls (pushed_nodes fo calls ! i)) = Inr (snd (snaps ! i))))"
    if "pushed_nodes fo calls \<noteq> []"
  proof -
    from ne e that obtain snaps where
      "map_of d ''snapshots'' = Some (PDict snaps)" "map fst snaps = hub_nodes ?hub"
      "map_of d ''fleet_love_score'' = Some (PFloat (fo_round fo
          (fo_div fo (fo_sum fo (map ps_love_score (all_snapshots ?hub))) (int (hub_node_count ?hub))) 4))"
      "list_all2 (\<lambda>s e. node_summary s = Inr (snd e)) (all_snapshots ?hub) snaps" by blast
    then show ?thesis unfolding n c by (auto simp: list_all2_map1 list_all2_conv_all_nth comp_def)
  qed
  with d show ?thesis unfolding n c Let_def by (intro exI [of _ d]) simp
qed

definition example_floats :: float_ops where
  "example_floats =
     \<lparr>fo_float = (\<lambda>v. case v of PFloat x \<Rightarrow> Inr x | PInt n \<Rightarrow> Inr (Fin (of_int n))
        | _ \<Rightarrow> Inl (TypeError ''float() argument must be a string or a real number'')),
      fo_sum = (\<lambda>xs. Fin (sum_list (map (\<lambda>x. case x of Fin r \<Rightarrow> r | _ \<Rightarrow> 0) xs))),
      fo_div = (\<lambda>x n. case x of Fin r \<Rightarrow> Fin (r / of_int n) | _ \<Rightarrow> x),
      fo_round = (\<lambda>x n. x),
      fo_greater = (\<lambda>a b. case (a, b) of (PFloat (Fin x), PFloat (Fin y)) \<Rightarrow> Inr (y < x)
        | _ \<Rightarrow> Inl (TypeError ''not supported between instances'')),
      fo_text = (\<lambda>x. ''0.0'')\<rparr>"

definition example_calls :: "push_call list" where
  "example_calls =
     [(Fin 10, ''iot-1'', [(''love_score'', PFloat (Fin (1 / 2)))]),
      (Fin 11, ''iot-2'', [(''love_score'', PStr ''high'')]),
      (Fin 12, ''iot-3'', []),
      (Fin 13, ''iot-1'', [(''timestamp'', PFloat (Fin 14)), (''observations'', PDict [(''t'', PInt 20)])])]"

theorem fleet_summary_complete_witness:
  "\<exists>d. fleet_summary example_floats (hub_run example_floats example_calls hub_init) = Inr d \<and>
     map_of d ''node_count'' = Some (PInt 2) \<and>
     map_of d ''nodes'' = Some (PList [PStr ''iot-1'', PStr ''iot-3''])"
proof -
  let ?hub = "hub_run example_floats example_calls hub_init"
  have h: "all_snapshots ?hub = [\<lparr>ps_node_id = ''iot-1'', ps_timestamp = PFloat (Fin 14),
        ps_observations = PDict [(''t'', PInt 20)], ps_energy = PDict [], ps_climate = PDict [],
        ps_biosphere = PDict [], ps_network = PDict [], ps_integrity = PDict [],
        ps_love_score = Fin 0, ps_metadata = PDict []\<rparr>,
      \<lparr>ps_node_id = ''iot-3'', ps_timestamp = PFloat (Fin 12), ps_observations = PDict [],
        ps_energy = PDict [], ps_climate = PDict [], ps_biosphere = PDict [], ps_network = PDict [],
        ps_integrity = PDict [], ps_love_score = Fin 0, ps_metadata = PDict []\<rparr>]"
    "pushed_nodes example_floats example_calls = [''iot-1'', ''iot-3'']"
    by code_simp+
  have "\<forall>s \<in> set (all_snapshots ?hub). sized s" "comparable example_floats (all_snapshots ?hub)"
    unfolding h by (auto simp: sized_def comparable_def example_floats_def)
  from fleet_summary_complete [OF this] show ?thesis unfolding h Let_def by auto
qed

text \<open>
  One malformed push breaks the fleet's summary. A push whose observations have no length
  raises, yet its snapshot is stored: from then on, whatever other nodes push, the summary of
  the whole fleet raises, until the same node pushes again or the hub is cleared.
\<close>

theorem malformed_push_breaks_summary:
  assumes "snapshot_of fo now node_id payload = Inr snap" and "py_len (ps_observations snap) = Inl e"
    and "\<forall>(t, n, p) \<in> set calls. n \<noteq> node_id"
  shows "fst (hub_push_dict fo now node_id payload hub) = Inl e \<and>
    (\<exists>e'. fleet_summary fo (hub_run fo calls (snd (hub_push_dict fo now node_id payload hub))) = Inl e')"
proof
  show "fst (hub_push_dict fo now node_id payload hub) = Inl e"
    using assms(1,2) by (simp add: hub_push_dict_def hub_push_def Let_def)
  let ?start = "snd (hub_push_dict fo now node_id payload hub)"
  let ?hub = "hub_run fo calls ?start"
  have h0: "?start = hub_store node_id snap hub"
    using assms(1) snapshot_of_node [OF assms(1)]
    by (simp add: hub_push_dict_def hub_store_def split: prod.split)
  have "map_of (rev (accepted fo calls)) node_id = None"
    using assms(3) by (auto simp: accepted_def map_of_eq_None_iff split: sum.splits)
  then have "hub_snapshot ?hub node_id = Some snap"
    unfolding hub_run_store hub_registry.find_store_all h0 hub_registry.find_store
    by (simp add: snapshot_of_node [OF assms(1)])
  then have s: "(node_id, snap) \<in> set (ph_snapshots ?hub)"
    unfolding hub_snapshot_def by (rule map_of_SomeD)
  then obtain p ps where ps: "dvalues (ph_snapshots ?hub) = p # ps" by (cases "ph_snapshots ?hub") auto
  have "\<exists>e'. emap (\<lambda>(nid, s). ebind (node_summary s) (\<lambda>v. Inr (nid, v))) (ph_snapshots ?hub) = Inl e'"
    by (rule emap_fails [OF s]) (simp add: node_summary_def assms(2))
  then show "\<exists>e'. fleet_summary fo ?hub = Inl e'"
    unfolding fleet_summary_def ps by (auto simp: Let_def ebind_def split: sum.splits)
qed

theorem malformed_push_breaks_summary_witness:
  "\<exists>e. fleet_summary example_floats (hub_run example_floats example_calls
     (snd (hub_push_dict example_floats (Fin 9) ''iot-0'' [(''observations'', PInt 3)] hub_init))) = Inl e"
proof -
  let ?p = "[(''observations'', PInt 3)]"
  obtain snap where s: "snapshot_of example_floats (Fin 9) ''iot-0'' ?p = Inr snap"
    "ps_observations snap = PInt 3"
    by (simp add: snapshot_of_def example_floats_def dget_def)
  then have "py_len (ps_observations snap) = Inl (TypeError (''object of type '' @ quoted ''int'' @ '' has no len()''))"
    by simp
  from malformed_push_breaks_summary [OF s(1) this, of example_calls hub_init] show ?thesis
    by (auto simp: example_calls_def)
qed

end
