(* ===== verification/Grpc_Server.thy ===== *)
theory Grpc_Server
  imports Planetary Server_Config
begin

text \<open>
  \<^verbatim>\<open>gaia_server/ipc/grpc_server.py\<close>: the service methods. The substrate belongs to \<^verbatim>\<open>gaia_core\<close> and is
  a record of the calls that the methods make. The threads of the serve loop are in
  \<^verbatim>\<open>Lifecycle\<close>. Shown: a snapshot that a node pushes is what the service
  returns for that node, and what \<open>memory_replay\<close> returns for each limit.
\<close>

section \<open>The substrate\<close>

record 'w substrate =
  su_dispatch :: "string \<Rightarrow> pydict \<Rightarrow> ('w, pyval) op"
  su_replay :: "('w, pyval list) op"
  su_consciousness_snapshot :: "('w, pyval) op"
  su_cores :: "('w, (string \<times> ('w, pyval) op) list) op"

section \<open>The server\<close>

record 'w grpc_server =
  gs_substrate :: "'w substrate"
  gs_config :: server_config
  gs_hub :: "planetary_hub option"
  gs_running :: bool
  gs_threads :: nat

definition grpc_init :: "'w substrate \<Rightarrow> server_config \<Rightarrow> planetary_hub option \<Rightarrow> 'w grpc_server" where
  "grpc_init su cfg hub =
     \<lparr>gs_substrate = su, gs_config = cfg, gs_hub = hub, gs_running = False, gs_threads = 0\<rparr>"

definition grpc_start :: "'w grpc_server \<Rightarrow> 'w grpc_server" where
  "grpc_start s = s\<lparr>gs_running := True, gs_threads := Suc (gs_threads s)\<rparr>"

definition grpc_stop :: "'w grpc_server \<Rightarrow> 'w grpc_server" where
  "grpc_stop s = s\<lparr>gs_running := False\<rparr>"

definition envelope :: "string \<Rightarrow> pydict \<Rightarrow> string \<Rightarrow> pydict" where
  "envelope kind payload trace_id =
     [(''kind'', PStr kind), (''payload'', PDict payload), (''trace_id'', PStr trace_id)]"

definition nexus_synchronize :: "'w grpc_server \<Rightarrow> string list \<Rightarrow> string \<Rightarrow> ('w, pyval) op" where
  "nexus_synchronize s targets trace_id =
     su_dispatch (gs_substrate s) ''NEXUS''
       (envelope ''synchronize'' [(''targets'', PList (map PStr targets))] trace_id)"

definition guardian_evaluate :: "'w grpc_server \<Rightarrow> pydict \<Rightarrow> string \<Rightarrow> ('w, pyval) op" where
  "guardian_evaluate s action trace_id =
     su_dispatch (gs_substrate s) ''GUARDIAN'' (envelope ''evaluate_action'' action trace_id)"

definition atlas_ingest :: "'w grpc_server \<Rightarrow> pydict \<Rightarrow> string \<Rightarrow> ('w, pyval) op" where
  "atlas_ingest s observation trace_id =
     su_dispatch (gs_substrate s) ''ATLAS'' (envelope ''ingest_observation'' observation trace_id)"

definition memory_replay :: "'w grpc_server \<Rightarrow> int \<Rightarrow> ('w, pyval list) op" where
  "memory_replay s limit =
     opbind (su_replay (gs_substrate s)) (\<lambda>events. opret (tail_slice events limit))"

definition metrics_of :: "pyval \<Rightarrow> py_exn + pydict" where
  "metrics_of snap =
     emap (\<lambda>(key, path). ebind (py_path snap path) (\<lambda>v. Inr (key, v)))
       [(''composite_cgi'', [''evidence'', ''composite_cgi'']),
        (''gnwt_score'', [''evidence'', ''gnwt_score'']),
        (''iit_proxy_score'', [''evidence'', ''iit_proxy_score'']),
        (''rpt_score'', [''evidence'', ''rpt_score'']),
        (''continuity_score'', [''evidence'', ''continuity_score'']),
        (''anti_theater_score'', [''evidence'', ''anti_theater_score'']),
        (''notes'', [''evidence'', ''notes'']),
        (''memory_event_count'', [''memory_event_count''])]"

definition consciousness_metrics :: "'w grpc_server \<Rightarrow> ('w, pydict) op" where
  "consciousness_metrics s =
     opbind (su_consciousness_snapshot (gs_substrate s)) (\<lambda>snap. oplift (metrics_of snap))"

fun tick_cores :: "(string \<times> ('w, pyval) op) list \<Rightarrow> pydict \<Rightarrow> ('w, pydict) op" where
  "tick_cores [] acc = opret acc"
| "tick_cores ((name, tick) # cores) acc = opbind tick (\<lambda>v. tick_cores cores (dset acc name v))"

definition core_health :: "'w grpc_server \<Rightarrow> ('w, pydict) op" where
  "core_health s = opbind (su_cores (gs_substrate s)) (\<lambda>cores. tick_cores cores [])"

section \<open>The planetary service\<close>

definition planetary_state_push :: "float_ops \<Rightarrow> pyfloat \<Rightarrow> string \<Rightarrow> pydict \<Rightarrow> 'w grpc_server
    \<Rightarrow> (py_exn + pydict) \<times> 'w grpc_server" where
  "planetary_state_push fo now node_id payload s =
     (case gs_hub s of
        None \<Rightarrow> (Inr [(''accepted'', PBool False), (''node_id'', PStr node_id),
           (''reason'', PStr ''hub_not_wired'')], s)
      | Some hub \<Rightarrow>
          (case hub_push_dict fo now node_id payload hub of (r, hub') \<Rightarrow>
             (ebind r (\<lambda>snap. Inr [(''accepted'', PBool True), (''node_id'', PStr node_id),
                (''timestamp'', ps_timestamp snap)]), s\<lparr>gs_hub := Some hub'\<rparr>)))"

definition snapshot_dict :: "planetary_snapshot \<Rightarrow> py_exn + pydict" where
  "snapshot_dict snap =
     ebind (py_len (ps_observations snap)) (\<lambda>n. Inr
       [(''node_id'', PStr (ps_node_id snap)), (''timestamp'', ps_timestamp snap),
        (''love_score'', PFloat (ps_love_score snap)), (''observation_count'', PInt (int n)),
        (''energy'', ps_energy snap), (''climate'', ps_climate snap), (''biosphere'', ps_biosphere snap),
        (''network'', ps_network snap), (''integrity'', ps_integrity snap), (''metadata'', ps_metadata snap)])"

definition planetary_state_snapshot :: "float_ops \<Rightarrow> string option \<Rightarrow> 'w grpc_server \<Rightarrow> py_exn + pydict" where
  "planetary_state_snapshot fo node_id s =
     (case gs_hub s of
        None \<Rightarrow> Inr [(''error'', PStr ''hub_not_wired'')]
      | Some hub \<Rightarrow>
          (case node_id of
             None \<Rightarrow> fleet_summary fo hub
           | Some n \<Rightarrow>
               (case hub_snapshot hub n of
                  None \<Rightarrow> Inr [(''error'', PStr ''not_found''), (''node_id'', PStr n)]
                | Some snap \<Rightarrow> snapshot_dict snap)))"

section \<open>Properties\<close>

lemma push_state:
  assumes "gs_hub s = Some hub" and "snapshot_of fo now node_id payload = Inr snap"
    and "py_len (ps_observations snap) = Inr n"
  shows "planetary_state_push fo now node_id payload s =
     (Inr [(''accepted'', PBool True), (''node_id'', PStr node_id), (''timestamp'', ps_timestamp snap)],
      s\<lparr>gs_hub := Some (hub_store node_id snap hub)\<rparr>)"
  using assms snapshot_of_node [OF assms(2)]
  by (simp add: planetary_state_push_def hub_push_dict_def hub_push_def hub_store_def Let_def)

text \<open>
  A pushed snapshot is what the service returns. With a hub wired, a push whose love score is
  a number and whose observations have a length is acknowledged; then the snapshot of
  that node has the pushed fields, the defaults for those left out, and the number of observations,
  and the answer for any other node is what it was before the push.
\<close>

theorem push_then_snapshot:
  assumes "gs_hub s = Some hub" and "snapshot_of fo now node_id payload = Inr snap"
    and "py_len (ps_observations snap) = Inr n"
  shows "\<exists>ack s'. planetary_state_push fo now node_id payload s = (Inr ack, s') \<and>
     map_of ack ''accepted'' = Some (PBool True) \<and>
     (\<exists>d. planetary_state_snapshot fo (Some node_id) s' = Inr d \<and>
        map_of d ''node_id'' = Some (PStr node_id) \<and>
        map_of d ''timestamp'' = Some (dget payload ''timestamp'' (PFloat now)) \<and>
        map_of d ''observation_count'' = Some (PInt (int n)) \<and>
        (\<forall>k \<in> {''energy'', ''climate'', ''biosphere'', ''network'', ''integrity'', ''metadata''}.
           map_of d k = Some (dget payload k (PDict [])))) \<and>
     (\<forall>other. other \<noteq> node_id \<longrightarrow>
        planetary_state_snapshot fo (Some other) s' = planetary_state_snapshot fo (Some other) s)"
proof -
  let ?s = "s\<lparr>gs_hub := Some (hub_store node_id snap hub)\<rparr>"
  note push = push_state [OF assms]
  have found: "hub_snapshot (hub_store node_id snap hub) j =
      (if j = node_id then Some snap else hub_snapshot hub j)" for j
    using hub_registry.find_store [of node_id snap hub j] by (simp add: snapshot_of_node [OF assms(2)])
  have f: "ps_node_id snap = node_id" "ps_timestamp snap = dget payload ''timestamp'' (PFloat now)"
    "ps_energy snap = dget payload ''energy'' (PDict [])" "ps_climate snap = dget payload ''climate'' (PDict [])"
    "ps_biosphere snap = dget payload ''biosphere'' (PDict [])" "ps_network snap = dget payload ''network'' (PDict [])"
    "ps_integrity snap = dget payload ''integrity'' (PDict [])" "ps_metadata snap = dget payload ''metadata'' (PDict [])"
    using assms(2) by (auto simp: snapshot_of_def ebind_eq_Inr)
  obtain d where d: "snapshot_dict snap = Inr d" "map_of d ''node_id'' = Some (PStr node_id)"
    "map_of d ''timestamp'' = Some (dget payload ''timestamp'' (PFloat now))"
    "map_of d ''observation_count'' = Some (PInt (int n))"
    "\<forall>k \<in> {''energy'', ''climate'', ''biosphere'', ''network'', ''integrity'', ''metadata''}.
       map_of d k = Some (dget payload k (PDict []))"
    using assms(3) f by (simp add: snapshot_dict_def)
  have "planetary_state_snapshot fo (Some node_id) ?s = Inr d"
    using d(1) found by (simp add: planetary_state_snapshot_def)
  moreover have "\<forall>other. other \<noteq> node_id \<longrightarrow>
      planetary_state_snapshot fo (Some other) ?s = planetary_state_snapshot fo (Some other) s"
    using found assms(1) by (simp add: planetary_state_snapshot_def)
  ultimately show ?thesis using push d(2-5) by auto
qed

definition idle_substrate :: "nat substrate" where
  "idle_substrate =
     \<lparr>su_dispatch = (\<lambda>core d. opret PNone), su_replay = opret (map (PInt \<circ> int) [0..<5]),
      su_consciousness_snapshot = opret (PDict []), su_cores = opret []\<rparr>"

theorem push_then_snapshot_witness:
  "\<exists>ack s' d. planetary_state_push example_floats (Fin 9) ''iot-1'' [(''energy'', PDict [(''kw'', PInt 3)])]
       (grpc_init idle_substrate DEFAULT_SERVER_CONFIG (Some hub_init)) = (Inr ack, s') \<and>
     planetary_state_snapshot example_floats (Some ''iot-1'') s' = Inr d \<and>
     map_of d ''energy'' = Some (PDict [(''kw'', PInt 3)])"
proof -
  let ?p = "[(''energy'', PDict [(''kw'', PInt 3)])]"
  obtain snap where s: "snapshot_of example_floats (Fin 9) ''iot-1'' ?p = Inr snap"
    "py_len (ps_observations snap) = Inr 0"
    by (simp add: snapshot_of_def example_floats_def dget_def)
  have "gs_hub (grpc_init idle_substrate DEFAULT_SERVER_CONFIG (Some hub_init)) = Some hub_init"
    by (simp add: grpc_init_def)
  from push_then_snapshot [OF this s] show ?thesis by (auto simp: dget_def)
qed

text \<open>
  The events a replay returns. For a positive limit \<open>memory_replay\<close> returns the last \<open>limit\<close>
  events in order, or all when there are fewer; for the limit 0 it returns all of them.
\<close>

theorem memory_replay_last_events:
  assumes "su_replay (gs_substrate s) w = (Inr events, w')"
  shows "memory_replay s 0 w = (Inr events, w') \<and>
     (0 < limit \<longrightarrow> (\<exists>older recent. events = older @ recent \<and>
        length recent = min (nat limit) (length events) \<and> memory_replay s limit w = (Inr recent, w')))"
proof -
  have "memory_replay s l w = (Inr (tail_slice events l), w')" for l
    using assms by (simp add: memory_replay_def opbind_def)
  moreover have "events = take (length events - nat limit) events @ tail_slice events limit" if "0 < limit"
    using that by (simp add: tail_slice_def)
  ultimately show ?thesis
    by (metis length_tail_slice min.commute tail_slice_0)
qed

theorem memory_replay_last_events_witness:
  "memory_replay (grpc_init idle_substrate DEFAULT_SERVER_CONFIG None) 0 7 = (Inr (map (PInt \<circ> int) [0..<5]), 7)"
proof -
  have "su_replay (gs_substrate (grpc_init idle_substrate DEFAULT_SERVER_CONFIG None)) 7 =
      (Inr (map (PInt \<circ> int) [0..<5]), 7)" by (simp add: grpc_init_def idle_substrate_def)
  from memory_replay_last_events [OF this] show ?thesis by blast
qed

end
