(* ===== verification/Telemetry.thy ===== *)
theory Telemetry
  imports Grpc_Server
begin

text \<open>
  \<^verbatim>\<open>gaia_server/observability/telemetry.py\<close>: the collector's loop and its history. The times of the
  collections are an input. Shown: whatever the substrate does, the history is the last thousand
  successful collections in order, so it is bounded and a failed collection changes nothing; and
  what \<open>latest\<close> and \<open>history\<close> return of it.
\<close>

section \<open>Collecting\<close>

record telemetry_snapshot =
  ts_timestamp :: pyfloat
  ts_node_id :: string
  ts_composite_cgi :: pyval
  ts_memory_event_count :: pyval
  ts_core_statuses :: pydict
  ts_grpc_latency_ms :: "(string, pyfloat) dict"
  ts_causal_holdback_depth :: int
  ts_checkpoint_epoch :: pyval
  ts_active_tenants :: int
  ts_warnings :: "string list"

definition HISTORY_LIMIT :: nat where
  "HISTORY_LIMIT = 1000"

record 'w collector =
  tc_substrate :: "'w substrate"
  tc_config :: server_config
  tc_running :: bool
  tc_history :: "telemetry_snapshot list"

definition collector_init :: "'w substrate \<Rightarrow> server_config \<Rightarrow> 'w collector" where
  "collector_init su cfg = \<lparr>tc_substrate = su, tc_config = cfg, tc_running = False, tc_history = []\<rparr>"

definition collector_start :: "'w collector \<Rightarrow> 'w collector" where
  "collector_start c = c\<lparr>tc_running := True\<rparr>"

definition collector_stop :: "'w collector \<Rightarrow> 'w collector" where
  "collector_stop c = c\<lparr>tc_running := False\<rparr>"

definition core_statuses :: "pyval \<Rightarrow> py_exn + pydict" where
  "core_statuses snap =
     ebind (py_getitem snap ''core_states'') (\<lambda>states.
     ebind (py_items states) (\<lambda>items.
       emap (\<lambda>(name, state). ebind (py_get state ''last_summary'' (PStr ''unknown'')) (\<lambda>v. Inr (name, v))) items))"

definition latency_stubs :: "(string, pyfloat) dict" where
  "latency_stubs = map (\<lambda>m. (m, Fin 0))
     [''NexusSyncService/Synchronize'', ''GuardianPolicyService/Evaluate'',
      ''AtlasObservationService/Ingest'', ''MemoryRetrievalService/Replay'',
      ''ConsciousnessMetricsService/Snapshot'', ''CoreHealthService/Health'']"

definition telemetry_of :: "server_config \<Rightarrow> pyfloat \<Rightarrow> pyval \<Rightarrow> py_exn + telemetry_snapshot" where
  "telemetry_of cfg now snap =
     ebind (core_statuses snap) (\<lambda>statuses.
     ebind (py_get snap ''workspace'' (PDict [])) (\<lambda>workspace.
     ebind (py_path snap [''evidence'', ''composite_cgi'']) (\<lambda>cgi.
     ebind (py_getitem snap ''memory_event_count'') (\<lambda>events.
     ebind (py_get workspace ''epoch'' (PInt 0)) (\<lambda>epoch. Inr
       \<lparr>ts_timestamp = now, ts_node_id = sv_node_id cfg, ts_composite_cgi = cgi,
        ts_memory_event_count = events, ts_core_statuses = statuses,
        ts_grpc_latency_ms = latency_stubs, ts_causal_holdback_depth = 0,
        ts_checkpoint_epoch = epoch, ts_active_tenants = 0, ts_warnings = []\<rparr>)))))"

definition collect :: "'w collector \<Rightarrow> pyfloat \<Rightarrow> ('w, telemetry_snapshot) op" where
  "collect c now =
     opbind (su_consciousness_snapshot (tc_substrate c))
       (\<lambda>snap. oplift (telemetry_of (tc_config c) now snap))"

definition remember :: "telemetry_snapshot \<Rightarrow> 'w collector \<Rightarrow> 'w collector" where
  "remember snap c =
     (let h = tc_history c @ [snap]
      in c\<lparr>tc_history := (if HISTORY_LIMIT < length h then tail_slice h (int HISTORY_LIMIT) else h)\<rparr>)"

text \<open>
  One turn of the loop: an exception is logged and the loop goes on; what is not an \<^verbatim>\<open>Exception\<close>
  ends the thread, which the Boolean says.
\<close>

definition collect_once :: "pyfloat \<Rightarrow> 'w collector \<times> 'w \<Rightarrow> bool \<times> 'w collector \<times> 'w" where
  "collect_once now = (\<lambda>(c, w). case collect c now w of
       (Inr snap, w') \<Rightarrow> (True, remember snap c, w')
     | (Inl e, w') \<Rightarrow> (is_Exception e, c, w'))"

fun collect_loop :: "pyfloat list \<Rightarrow> 'w collector \<times> 'w \<Rightarrow> 'w collector \<times> 'w" where
  "collect_loop [] cw = cw"
| "collect_loop (now # nows) cw =
     (if \<not> tc_running (fst cw) then cw
      else case collect_once now cw of (alive, cw') \<Rightarrow> if alive then collect_loop nows cw' else cw')"

definition latest :: "'w collector \<Rightarrow> telemetry_snapshot option" where
  "latest c = (if tc_history c \<noteq> [] then Some (last (tc_history c)) else None)"

definition telemetry_history :: "'w collector \<Rightarrow> int \<Rightarrow> telemetry_snapshot list" where
  "telemetry_history c limit = tail_slice (tc_history c) limit"

section \<open>The history\<close>

text \<open>The snapshots that the loop obtains, with no bound on their number.\<close>

fun collected :: "pyfloat list \<Rightarrow> 'w collector \<times> 'w \<Rightarrow> telemetry_snapshot list" where
  "collected [] cw = []"
| "collected (now # nows) cw =
     (if \<not> tc_running (fst cw) then []
      else case collect (fst cw) now (snd cw) of
        (Inr snap, w') \<Rightarrow> snap # collected nows (fst cw, w')
      | (Inl e, w') \<Rightarrow> (if is_Exception e then collected nows (fst cw, w') else []))"

definition last_n :: "nat \<Rightarrow> 'a list \<Rightarrow> 'a list" where
  "last_n n xs = drop (length xs - n) xs"

lemma last_n_snoc: "last_n n (last_n n xs @ [x]) = last_n n (xs @ [x])"
  by (cases "n = 0"; cases "length xs \<le> n") (auto simp: last_n_def Suc_diff_le)

lemma last_n_last_n: "last_n a (last_n b xs) = last_n (min a b) xs"
proof -
  have "(length xs - (length xs - b)) - a + (length xs - b) = length xs - min a b" by arith
  then show ?thesis by (simp add: last_n_def)
qed

lemma last_n_empty [simp]: "0 < n \<Longrightarrow> last_n n xs = [] \<longleftrightarrow> xs = []"
  by (cases xs) (auto simp: last_n_def)

lemma last_last_n: "0 < n \<Longrightarrow> xs \<noteq> [] \<Longrightarrow> last (last_n n xs) = last xs"
  by (cases xs) (auto simp: last_n_def intro: last_drop)

lemma length_last_n [simp]: "length (last_n n xs) = min n (length xs)"
  by (simp add: last_n_def)

lemma remember_last_n: "tc_history (remember snap c) = last_n HISTORY_LIMIT (tc_history c @ [snap])"
  by (simp add: remember_def Let_def tail_slice_def last_n_def HISTORY_LIMIT_def)

lemma remember_fields [simp]:
  "tc_running (remember snap c) = tc_running c" "tc_substrate (remember snap c) = tc_substrate c"
  "tc_config (remember snap c) = tc_config c"
  by (simp_all add: remember_def Let_def)

lemma collected_cong:
  "tc_running c' = tc_running c \<Longrightarrow> tc_substrate c' = tc_substrate c \<Longrightarrow> tc_config c' = tc_config c \<Longrightarrow>
     collected nows (c', w) = collected nows (c, w)"
proof (induction nows arbitrary: w)
  case Nil
  then show ?case by simp
next
  case (Cons now nows)
  then have "collect c' now = collect c now" by (simp add: collect_def)
  with Cons show ?case by (simp split: prod.split sum.split)
qed

lemma collect_loop_history:
  assumes "tc_history c = last_n HISTORY_LIMIT old"
  shows "tc_history (fst (collect_loop nows (c, w))) = last_n HISTORY_LIMIT (old @ collected nows (c, w))"
  using assms
proof (induction nows arbitrary: c w old)
  case Nil
  then show ?case by simp
next
  case (Cons now nows)
  show ?case
  proof (cases "tc_running c")
    case False
    with Cons.prems show ?thesis by simp
  next
    case True
    obtain r w' where r: "collect c now w = (r, w')" by fastforce
    show ?thesis
    proof (cases r)
      case (Inl e)
      with True r Cons show ?thesis by (simp add: collect_once_def)
    next
      case (Inr snap)
      have h: "tc_history (remember snap c) = last_n HISTORY_LIMIT (old @ [snap])"
        using Cons.prems by (simp add: remember_last_n last_n_snoc)
      have "collected nows (remember snap c, w') = collected nows (c, w')"
        by (rule collected_cong) simp_all
      with Cons.IH [OF h, of w'] True r Inr show ?thesis by (simp add: collect_once_def)
    qed
  qed
qed

text \<open>
  The history is the last thousand collections. After any number of turns of the loop of a
  new collector, whatever the substrate returns or raises, the history is the last 1000 of the
  snapshots collected so far, in order; \<open>latest\<close> is the newest of them, and \<open>history\<close> with a positive
  limit gives the newest ones up to that number.
\<close>

theorem history_last_collections:
  "let c = fst (collect_loop nows (collector_start (collector_init su cfg), w));
       snaps = collected nows (collector_start (collector_init su cfg), w)
   in tc_history c = last_n 1000 snaps \<and> length (tc_history c) \<le> 1000 \<and>
      latest c = (if snaps = [] then None else Some (last snaps)) \<and>
      (\<forall>limit > 0. telemetry_history c limit = last_n (min (nat limit) 1000) snaps)"
proof -
  let ?start = "collector_start (collector_init su cfg)"
  let ?c = "fst (collect_loop nows (?start, w))" and ?snaps = "collected nows (?start, w)"
  have "tc_history ?start = last_n HISTORY_LIMIT []"
    by (simp add: collector_start_def collector_init_def last_n_def)
  from collect_loop_history [OF this, of nows w] have h: "tc_history ?c = last_n 1000 ?snaps"
    by (simp add: HISTORY_LIMIT_def)
  have "tail_slice (last_n 1000 ?snaps) limit = last_n (min (nat limit) 1000) ?snaps" if "0 < limit" for limit
    using that last_n_last_n [of "nat limit" 1000 ?snaps]
    by (simp add: tail_slice_def last_n_def [of "nat limit" "last_n 1000 ?snaps"])
  with h show ?thesis
    by (simp add: Let_def latest_def telemetry_history_def last_last_n)
qed

definition example_telemetry :: "nat substrate" where
  "example_telemetry = idle_substrate\<lparr>su_consciousness_snapshot := (\<lambda>n.
     (if n = 1 then Inl (RuntimeError ''core offline'') else Inr (PDict
        [(''core_states'', PDict [(''NEXUS'', PDict [(''last_summary'', PStr ''ok'')])]),
         (''evidence'', PDict [(''composite_cgi'', PInt (int n))]),
         (''memory_event_count'', PInt 3)]), Suc n))\<rparr>"

theorem history_last_collections_witness:
  "let c = fst (collect_loop [Fin 1, Fin 2, Fin 3] (collector_start (collector_init example_telemetry DEFAULT_SERVER_CONFIG), 0))
   in map ts_composite_cgi (tc_history c) = [PInt 0, PInt 2] \<and>
      map ts_composite_cgi (telemetry_history c 1) = [PInt 2]"
proof -
  let ?cw = "(collector_start (collector_init example_telemetry DEFAULT_SERVER_CONFIG), 0)"
  have c: "map ts_composite_cgi (collected [Fin 1, Fin 2, Fin 3] ?cw) = [PInt 0, PInt 2]" by code_simp
  then have n: "length (collected [Fin 1, Fin 2, Fin 3] ?cw) = 2" by (metis length_map length_Cons list.size(3) numeral_2_eq_2)
  note h = history_last_collections [of "[Fin 1, Fin 2, Fin 3]" example_telemetry DEFAULT_SERVER_CONFIG 0,
      unfolded Let_def]
  have "tc_history (fst (collect_loop [Fin 1, Fin 2, Fin 3] ?cw)) = collected [Fin 1, Fin 2, Fin 3] ?cw"
    using h n by (simp only: last_n_def) simp
  moreover have "telemetry_history (fst (collect_loop [Fin 1, Fin 2, Fin 3] ?cw)) 1 =
      drop 1 (collected [Fin 1, Fin 2, Fin 3] ?cw)"
    using h n by (simp only: last_n_def) simp
  ultimately show ?thesis using c by (simp add: Let_def drop_map [symmetric])
qed

end
