(* ===== verification/Lifecycle.thy ===== *)
theory Lifecycle
  imports Telemetry "HOL-Library.Multiset"
begin

text \<open>
  The threads behind \<^verbatim>\<open>gaia_server/ipc/grpc_server.py\<close> (\<^verbatim>\<open>_serve\<close>) and
  \<^verbatim>\<open>gaia_server/observability/telemetry.py\<close> (\<^verbatim>\<open>_collect_loop\<close>): each \<^verbatim>\<open>start\<close> begins a thread that runs
  while the object's flag is up, and \<^verbatim>\<open>stop\<close> lowers the flag and does not wait. A schedule is a
  list of events, so a theorem about every list is one about every interleaving.

  Shown: a thread that gets its turns after \<^verbatim>\<open>stop\<close> ends; the history is right however the
  collecting threads interleave; and a thread that has not noticed \<^verbatim>\<open>stop\<close> when \<^verbatim>\<open>start\<close> is called
  again goes on beside the new one.
\<close>

section \<open>Loops that test a flag\<close>

text \<open>Where a thread stands: at the test of its loop, in the body with a value, asleep, or ended.\<close>

datatype 's loop_phase = AtTest | Storing 's | Logging 's | Asleep | Ended

text \<open>The turns a thread needs to end when the flag is down.\<close>

fun turns_left :: "'s loop_phase \<Rightarrow> nat" where
  "turns_left (Storing x) = 4"
| "turns_left (Logging x) = 3"
| "turns_left Asleep = 2"
| "turns_left AtTest = 1"
| "turns_left Ended = 0"

lemma turns_left_0 [simp]: "turns_left p = 0 \<longleftrightarrow> p = Ended"
  by (cases p) simp_all

definition turns_of :: "('e \<Rightarrow> nat option) \<Rightarrow> nat \<Rightarrow> 'e list \<Rightarrow> nat" where
  "turns_of turn_of i es = length (filter (\<lambda>e. turn_of e = Some i) es)"

lemma turns_of_simps [simp]:
  "turns_of turn_of i [] = 0"
  "turns_of turn_of i (e # es) = (if turn_of e = Some i then 1 else 0) + turns_of turn_of i es"
  by (simp_all add: turns_of_def)

text \<open>
  The contract of a thread that runs while a flag is up: with the flag down every turn brings it one
  step closer to its end, and nothing but its own turns changes where it stands.
\<close>

locale stoppable =
  fixes advance :: "'e \<Rightarrow> 'st \<Rightarrow> 'st"
    and loops :: "'st \<Rightarrow> 's loop_phase list"
    and running :: "'st \<Rightarrow> bool"
    and turn_of :: "'e \<Rightarrow> nat option"
    and starts :: "'e \<Rightarrow> bool"
  assumes stays_down: "\<not> running st \<Longrightarrow> \<not> starts e \<Longrightarrow> \<not> running (advance e st)"
    and turn_down: "\<not> running st \<Longrightarrow> turn_of e = Some i \<Longrightarrow> i < length (loops st) \<Longrightarrow>
      turns_left (loops (advance e st) ! i) = turns_left (loops st ! i) - 1"
    and not_its_turn: "turn_of e \<noteq> Some i \<Longrightarrow> i < length (loops st) \<Longrightarrow> loops (advance e st) ! i = loops st ! i"
    and loops_kept: "length (loops st) \<le> length (loops (advance e st))"
begin

lemma ends_when_down:
  assumes "\<not> running st" and "i < length (loops st)" and "list_all (\<lambda>e. \<not> starts e) es"
    and "turns_left (loops st ! i) \<le> turns_of turn_of i es"
  shows "loops (fold advance es st) ! i = Ended"
  using assms
proof (induction es arbitrary: st)
  case Nil
  then show ?case by simp
next
  case (Cons e es)
  have down: "\<not> running (advance e st)" and len: "i < length (loops (advance e st))"
    using Cons.prems stays_down [of st e] loops_kept [of st e] by auto
  have "turns_left (loops (advance e st) ! i) \<le> turns_of turn_of i es"
    using Cons.prems turn_down [of st e i] not_its_turn [of e i st] by (cases "turn_of e = Some i") auto
  from Cons.IH [OF down len _ this] Cons.prems(3) show ?case by simp
qed

end

section \<open>The serve loop\<close>

record 'w serving =
  sg_server :: "'w grpc_server"
  sg_loops :: "unit loop_phase list"

datatype serve_event = ServeStart | ServeStop | ServeTurn nat

definition serve_turn :: "bool \<Rightarrow> unit loop_phase \<Rightarrow> unit loop_phase" where
  "serve_turn running p =
     (case p of AtTest \<Rightarrow> if running then Asleep else Ended
      | Asleep \<Rightarrow> AtTest
      | Storing u \<Rightarrow> Logging u
      | Logging u \<Rightarrow> Asleep
      | Ended \<Rightarrow> Ended)"

fun serve_advance :: "serve_event \<Rightarrow> 'w serving \<Rightarrow> 'w serving" where
  "serve_advance ServeStart st =
     st\<lparr>sg_server := grpc_start (sg_server st), sg_loops := sg_loops st @ [AtTest]\<rparr>"
| "serve_advance ServeStop st = st\<lparr>sg_server := grpc_stop (sg_server st)\<rparr>"
| "serve_advance (ServeTurn i) st =
     (if i < length (sg_loops st)
      then st\<lparr>sg_loops := (sg_loops st)[i := serve_turn (gs_running (sg_server st)) (sg_loops st ! i)]\<rparr>
      else st)"

fun serve_turn_of :: "serve_event \<Rightarrow> nat option" where
  "serve_turn_of (ServeTurn i) = Some i"
| "serve_turn_of e = None"

lemma serve_turn_down: "turns_left (serve_turn False p) = turns_left p - 1"
  by (cases p) (simp_all add: serve_turn_def)

interpretation serve: stoppable serve_advance sg_loops "\<lambda>st. gs_running (sg_server st)" serve_turn_of
    "\<lambda>e. e = ServeStart"
proof
  fix st :: "'w serving" and e i
  show "\<not> gs_running (sg_server st) \<Longrightarrow> e \<noteq> ServeStart \<Longrightarrow> \<not> gs_running (sg_server (serve_advance e st))"
    by (cases e) (simp_all add: grpc_stop_def)
  show "\<not> gs_running (sg_server st) \<Longrightarrow> serve_turn_of e = Some i \<Longrightarrow> i < length (sg_loops st) \<Longrightarrow>
      turns_left (sg_loops (serve_advance e st) ! i) = turns_left (sg_loops st ! i) - 1"
    by (cases e) (simp_all add: serve_turn_down)
  show "serve_turn_of e \<noteq> Some i \<Longrightarrow> i < length (sg_loops st) \<Longrightarrow> sg_loops (serve_advance e st) ! i = sg_loops st ! i"
    by (cases e) (simp_all add: nth_append)
  show "length (sg_loops st) \<le> length (sg_loops (serve_advance e st))"
    by (cases e) simp_all
qed

section \<open>The collecting loop\<close>

text \<open>What \<^verbatim>\<open>_log_snapshot\<close> hands to the logger: level, format and arguments.\<close>

datatype log_record = LogRecord string string "pyval list"

definition log_snapshot :: "telemetry_snapshot \<Rightarrow> log_record list" where
  "log_snapshot snap =
     LogRecord ''INFO'' ''[telemetry] node=%s cgi=%.3f events=%d epoch=%d tenants=%d holdback=%d''
       [PStr (ts_node_id snap), ts_composite_cgi snap, ts_memory_event_count snap,
        ts_checkpoint_epoch snap, PInt (ts_active_tenants snap), PInt (ts_causal_holdback_depth snap)]
     # map (\<lambda>w. LogRecord ''WARNING'' ''[telemetry] %s'' [PStr w]) (ts_warnings snap)"

text \<open>
  The collector with its threads, the records logged, and two histories for the statements: the
  snapshots in the order in which they were taken and in the order in which they were stored.
\<close>

record 'w monitoring =
  mo_collector :: "'w collector"
  mo_loops :: "telemetry_snapshot loop_phase list"
  mo_log :: "log_record list"
  mo_taken :: "telemetry_snapshot list"
  mo_stored :: "telemetry_snapshot list"
  mo_world :: 'w

datatype monitor_event = MonStart | MonStop | MonTurn nat pyfloat

text \<open>
  One turn of a thread. Taking a snapshot, storing it under the lock, and logging it are separate
  steps: the lock is held for the second only.
\<close>

definition collect_turn :: "nat \<Rightarrow> pyfloat \<Rightarrow> 'w monitoring \<Rightarrow> 'w monitoring" where
  "collect_turn i now st =
     (case mo_loops st ! i of
        AtTest \<Rightarrow>
          if \<not> tc_running (mo_collector st) then st\<lparr>mo_loops := (mo_loops st)[i := Ended]\<rparr>
          else (case collect (mo_collector st) now (mo_world st) of
              (Inr snap, w') \<Rightarrow> st\<lparr>mo_loops := (mo_loops st)[i := Storing snap],
                 mo_taken := mo_taken st @ [snap], mo_world := w'\<rparr>
            | (Inl e, w') \<Rightarrow> st\<lparr>mo_loops := (mo_loops st)[i := if is_Exception e then Asleep else Ended],
                 mo_world := w'\<rparr>)
      | Storing snap \<Rightarrow> st\<lparr>mo_loops := (mo_loops st)[i := Logging snap],
           mo_collector := remember snap (mo_collector st), mo_stored := mo_stored st @ [snap]\<rparr>
      | Logging snap \<Rightarrow> st\<lparr>mo_loops := (mo_loops st)[i := Asleep], mo_log := mo_log st @ log_snapshot snap\<rparr>
      | Asleep \<Rightarrow> st\<lparr>mo_loops := (mo_loops st)[i := AtTest]\<rparr>
      | Ended \<Rightarrow> st)"

fun monitor_advance :: "monitor_event \<Rightarrow> 'w monitoring \<Rightarrow> 'w monitoring" where
  "monitor_advance MonStart st =
     st\<lparr>mo_collector := collector_start (mo_collector st), mo_loops := mo_loops st @ [AtTest]\<rparr>"
| "monitor_advance MonStop st = st\<lparr>mo_collector := collector_stop (mo_collector st)\<rparr>"
| "monitor_advance (MonTurn i now) st = (if i < length (mo_loops st) then collect_turn i now st else st)"

fun monitor_turn_of :: "monitor_event \<Rightarrow> nat option" where
  "monitor_turn_of (MonTurn i now) = Some i"
| "monitor_turn_of e = None"

definition monitoring_init :: "'w collector \<Rightarrow> 'w \<Rightarrow> 'w monitoring" where
  "monitoring_init c w =
     \<lparr>mo_collector = c, mo_loops = [], mo_log = [], mo_taken = [], mo_stored = [], mo_world = w\<rparr>"

lemma collect_turn_loops: "\<exists>p. mo_loops (collect_turn i now st) = (mo_loops st)[i := p]"
proof (cases "mo_loops st ! i")
  case Ended
  then have "mo_loops (collect_turn i now st) = mo_loops st" by (simp add: collect_turn_def)
  also have "\<dots> = (mo_loops st)[i := mo_loops st ! i]" by (rule list_update_id [symmetric])
  finally show ?thesis ..
qed (auto simp: collect_turn_def split: prod.split sum.split)

lemma collect_turn_flag [simp]:
  "tc_running (mo_collector (collect_turn i now st)) = tc_running (mo_collector st)"
  by (simp add: collect_turn_def split: loop_phase.split prod.split sum.split)

lemma collect_turn_down:
  "\<not> tc_running (mo_collector st) \<Longrightarrow> i < length (mo_loops st) \<Longrightarrow>
     turns_left (mo_loops (collect_turn i now st) ! i) = turns_left (mo_loops st ! i) - 1"
  by (simp add: collect_turn_def split: loop_phase.split)

lemma collect_turn_other: "j \<noteq> i \<Longrightarrow> mo_loops (collect_turn i now st) ! j = mo_loops st ! j"
  using collect_turn_loops [of i now st] by auto

lemma collect_turn_length [simp]: "length (mo_loops (collect_turn i now st)) = length (mo_loops st)"
  using collect_turn_loops [of i now st] by auto

interpretation monitor: stoppable monitor_advance mo_loops "\<lambda>st. tc_running (mo_collector st)" monitor_turn_of
    "\<lambda>e. e = MonStart"
proof
  fix st :: "'w monitoring" and e i
  show "\<not> tc_running (mo_collector st) \<Longrightarrow> e \<noteq> MonStart \<Longrightarrow> \<not> tc_running (mo_collector (monitor_advance e st))"
    by (cases e) (simp_all add: collector_stop_def)
  show "\<not> tc_running (mo_collector st) \<Longrightarrow> monitor_turn_of e = Some i \<Longrightarrow> i < length (mo_loops st) \<Longrightarrow>
      turns_left (mo_loops (monitor_advance e st) ! i) = turns_left (mo_loops st ! i) - 1"
    by (cases e) (simp_all add: collect_turn_down)
  show "monitor_turn_of e \<noteq> Some i \<Longrightarrow> i < length (mo_loops st) \<Longrightarrow> mo_loops (monitor_advance e st) ! i = mo_loops st ! i"
    by (cases e) (simp_all add: nth_append collect_turn_other)
  show "length (mo_loops st) \<le> length (mo_loops (monitor_advance e st))"
    by (cases e) simp_all
qed

section \<open>The threads end after stop\<close>

lemma turns_left_le: "turns_left p \<le> 4"
  by (cases p) simp_all

text \<open>
  C36: a thread ends after \<^verbatim>\<open>stop\<close>. Once the collector has been stopped, in any schedule in which it is
  not started again every collecting thread that gets four turns has ended.
\<close>

theorem collecting_ends_after_stop:
  assumes "i < length (mo_loops st)" and "list_all (\<lambda>e. e \<noteq> MonStart) es"
    and "4 \<le> turns_of monitor_turn_of i es"
  shows "mo_loops (fold monitor_advance (MonStop # es) st) ! i = Ended"
  using monitor.ends_when_down [of "monitor_advance MonStop st" i es] assms
    order_trans [OF turns_left_le [of "mo_loops st ! i"] assms(3)]
  by (simp add: collector_stop_def)

text \<open>The same for the serve loop, whose threads are never further than two turns from their end.\<close>

definition serving_init :: "'w grpc_server \<Rightarrow> 'w serving" where
  "serving_init s = \<lparr>sg_server = s, sg_loops = []\<rparr>"

lemma serve_phases:
  "list_all (\<lambda>p. turns_left p \<le> 2) (sg_loops sg) \<Longrightarrow> list_all (\<lambda>p. turns_left p \<le> 2) (sg_loops (serve_advance e sg))"
proof (induction e sg rule: serve_advance.induct)
  case (3 i st)
  have "turns_left (serve_turn b p) \<le> 2" if "turns_left p \<le> 2" for b p
    using that by (cases p) (simp_all add: serve_turn_def)
  with 3 show ?case by (auto simp: list_all_length nth_list_update)
qed simp_all

lemma serve_phases_run:
  "list_all (\<lambda>p. turns_left p \<le> 2) (sg_loops sg) \<Longrightarrow> list_all (\<lambda>p. turns_left p \<le> 2) (sg_loops (fold serve_advance es sg))"
  by (induction es arbitrary: sg) (simp_all add: serve_phases)

text \<open>
  A serve thread ends after \<^verbatim>\<open>stop\<close>. Whatever happened before it, in any schedule in which the
  server is not started again every thread that gets two turns has ended.
\<close>

theorem serving_ends_after_stop:
  assumes "sg = fold serve_advance before (serving_init (grpc_init su cfg hub))"
    and "j < length (sg_loops sg)" and "list_all (\<lambda>e. e \<noteq> ServeStart) es"
    and "2 \<le> turns_of serve_turn_of j es"
  shows "sg_loops (fold serve_advance (ServeStop # es) sg) ! j = Ended"
proof -
  have "turns_left (sg_loops sg ! j) \<le> 2"
    using serve_phases_run [of "serving_init (grpc_init su cfg hub)" before] assms(1,2)
    by (simp add: serving_init_def list_all_length)
  with serve.ends_when_down [of "serve_advance ServeStop sg" j es] assms(2-4) show ?thesis
    by (simp add: grpc_stop_def)
qed

section \<open>The history under any schedule\<close>

fun held :: "telemetry_snapshot loop_phase \<Rightarrow> telemetry_snapshot list" where
  "held (Storing snap) = [snap]"
| "held p = []"

definition held_by :: "telemetry_snapshot loop_phase list \<Rightarrow> telemetry_snapshot multiset" where
  "held_by ps = mset (concat (map held ps))"

lemma held_by_simps [simp]: "held_by [] = {#}" "held_by (ps @ [p]) = held_by ps + mset (held p)"
  by (simp_all add: held_by_def)

lemma held_by_update:
  "i < length ps \<Longrightarrow> held_by (ps[i := p]) + mset (held (ps ! i)) = held_by ps + mset (held p)"
proof (induction ps arbitrary: i)
  case Nil
  then show ?case by simp
next
  case (Cons q qs)
  then show ?case by (cases i) (simp_all add: held_by_def ac_simps)
qed

definition monitor_inv :: "'w monitoring \<Rightarrow> bool" where
  "monitor_inv st \<longleftrightarrow>
     tc_history (mo_collector st) = last_n 1000 (mo_stored st) \<and>
     mset (mo_taken st) = mset (mo_stored st) + held_by (mo_loops st)"

lemma monitor_inv_turn:
  assumes "monitor_inv st" and "i < length (mo_loops st)"
  shows "monitor_inv (collect_turn i now st)"
proof (cases "mo_loops st ! i")
  case AtTest
  with assms held_by_update [OF assms(2), of Ended] held_by_update [OF assms(2), of Asleep]
    held_by_update [OF assms(2), of "Storing snap" for snap] show ?thesis
    by (auto simp: collect_turn_def monitor_inv_def split: prod.split sum.split)
next
  case (Storing snap)
  with assms held_by_update [OF assms(2), of "Logging snap"] show ?thesis
    by (simp add: collect_turn_def monitor_inv_def remember_last_n HISTORY_LIMIT_def last_n_snoc)
next
  case (Logging snap)
  with assms held_by_update [OF assms(2), of Asleep] show ?thesis
    by (simp add: collect_turn_def monitor_inv_def)
next
  case Asleep
  with assms held_by_update [OF assms(2), of AtTest] show ?thesis
    by (simp add: collect_turn_def monitor_inv_def)
next
  case Ended
  with assms show ?thesis by (simp add: collect_turn_def)
qed

lemma monitor_inv_advance: "monitor_inv st \<Longrightarrow> monitor_inv (monitor_advance e st)"
  by (cases e) (simp_all add: monitor_inv_turn, simp_all add: monitor_inv_def collector_start_def collector_stop_def)

lemma monitor_inv_run: "monitor_inv st \<Longrightarrow> monitor_inv (fold monitor_advance es st)"
  by (induction es arbitrary: st) (simp_all add: monitor_inv_advance)

lemma monitor_inv_init: "monitor_inv (monitoring_init (collector_init su cfg) w)"
  by (simp add: monitor_inv_def monitoring_init_def collector_init_def last_n_def)

text \<open>
  C35: the history under any schedule. However \<^verbatim>\<open>start\<close>, \<^verbatim>\<open>stop\<close> and the turns of any number of
  collecting threads are interleaved, and whatever the substrate returns or raises, the history is
  the last 1000 snapshots in the order in which they were stored, and every snapshot that was taken
  has been stored once or is about to be stored by one thread: none is lost and none is stored
  twice.
\<close>

theorem history_any_schedule:
  "let st = fold monitor_advance es (monitoring_init (collector_init su cfg) w)
   in tc_history (mo_collector st) = last_n 1000 (mo_stored st) \<and>
      length (tc_history (mo_collector st)) \<le> 1000 \<and>
      mset (mo_taken st) = mset (mo_stored st) + held_by (mo_loops st)"
  using monitor_inv_run [OF monitor_inv_init, of es su cfg w]
  by (simp add: monitor_inv_def Let_def)

text \<open>A thread that is alone does what the loop of \<open>Telemetry\<close> does: its runs are among the schedules.\<close>

theorem lone_thread_is_the_loop:
  assumes "mo_loops st = [AtTest]"
  shows "\<exists>es. list_all (\<lambda>e. monitor_turn_of e = Some 0) es \<and>
     (mo_collector (fold monitor_advance es st), mo_world (fold monitor_advance es st)) =
       collect_loop nows (mo_collector st, mo_world st)"
  using assms
proof (induction nows arbitrary: st)
  case Nil
  show ?case by (intro exI [of _ "[]"]) simp
next
  case (Cons now nows)
  let ?c = "mo_collector st" and ?w = "mo_world st"
  obtain r w' where r: "collect ?c now ?w = (r, w')" by fastforce
  consider (down) "\<not> tc_running ?c" | (ends) e where "tc_running ?c" "r = Inl e" "\<not> is_Exception e"
    | (fails) e where "tc_running ?c" "r = Inl e" "is_Exception e" | (snap) x where "tc_running ?c" "r = Inr x"
    by (cases r) auto
  then show ?case
  proof cases
    case down
    then show ?thesis by (intro exI [of _ "[]"]) simp
  next
    case ends
    with r Cons.prems show ?thesis
      by (intro exI [of _ "[MonTurn 0 now]"]) (simp add: collect_turn_def collect_once_def)
  next
    case fails
    let ?st = "fold monitor_advance (replicate 2 (MonTurn 0 now)) st"
    have st: "mo_loops ?st = [AtTest]" "mo_collector ?st = ?c" "mo_world ?st = w'"
      using fails r Cons.prems by (simp_all add: numeral_2_eq_2 collect_turn_def)
    from Cons.IH [OF st(1)] obtain es where "list_all (\<lambda>e. monitor_turn_of e = Some 0) es"
      "(mo_collector (fold monitor_advance es ?st), mo_world (fold monitor_advance es ?st)) = collect_loop nows (?c, w')"
      unfolding st(2,3) by blast
    with fails r show ?thesis
      by (intro exI [of _ "replicate 2 (MonTurn 0 now) @ es"]) (simp add: collect_once_def list_all_iff)
  next
    case snap
    let ?st = "fold monitor_advance (replicate 4 (MonTurn 0 now)) st"
    have st: "mo_loops ?st = [AtTest]" "mo_collector ?st = remember x ?c" "mo_world ?st = w'"
      using snap r Cons.prems by (simp_all add: eval_nat_numeral collect_turn_def)
    from Cons.IH [OF st(1)] obtain es where "list_all (\<lambda>e. monitor_turn_of e = Some 0) es"
      "(mo_collector (fold monitor_advance es ?st), mo_world (fold monitor_advance es ?st)) =
         collect_loop nows (remember x ?c, w')"
      unfolding st(2,3) by blast
    with snap r show ?thesis
      by (intro exI [of _ "replicate 4 (MonTurn 0 now) @ es"]) (simp add: collect_once_def list_all_iff)
  qed
qed

section \<open>Starting again before the thread has noticed\<close>

lemma collect_turn_lives:
  assumes "tc_running (mo_collector st)" and "raises_Exceptions (collect (mo_collector st) now)"
    and "mo_loops st ! j \<noteq> Ended"
  shows "mo_loops (collect_turn i now st) ! j \<noteq> Ended"
proof (cases "j = i \<and> i < length (mo_loops st)")
  case True
  with assms show ?thesis
    by (auto simp: collect_turn_def raises_Exceptions_def split: loop_phase.split prod.split sum.split)
next
  case False
  obtain p where "mo_loops (collect_turn i now st) = (mo_loops st)[i := p]" using collect_turn_loops by blast
  with False assms(3) show ?thesis by (cases "i < length (mo_loops st)") (auto simp: list_update_beyond)
qed

lemma collect_turn_fixed [simp]:
  "tc_substrate (mo_collector (collect_turn i now st)) = tc_substrate (mo_collector st)"
  "tc_config (mo_collector (collect_turn i now st)) = tc_config (mo_collector st)"
  by (simp_all add: collect_turn_def split: loop_phase.split prod.split sum.split)

text \<open>Reading the fields of a snapshot raises only what the loop handles.\<close>

definition exceptions_only :: "py_exn + 'a \<Rightarrow> bool" where
  "exceptions_only r \<longleftrightarrow> (\<forall>e. r = Inl e \<longrightarrow> is_Exception e)"

lemma exceptions_only_Inr [simp]: "exceptions_only (Inr x)"
  by (simp add: exceptions_only_def)

lemma exceptions_only_ebind: "exceptions_only r \<Longrightarrow> (\<And>x. exceptions_only (k x)) \<Longrightarrow> exceptions_only (ebind r k)"
  by (cases r) (auto simp: exceptions_only_def ebind_def)

lemma exceptions_only_emap: "(\<And>x. exceptions_only (f x)) \<Longrightarrow> exceptions_only (emap f xs)"
  by (induction xs) (simp_all add: exceptions_only_ebind)

lemma exceptions_only_getitem: "exceptions_only (py_getitem v k)"
  by (cases v) (simp_all add: exceptions_only_def split: option.split)

lemma exceptions_only_path: "exceptions_only (py_path v ks)"
  by (induction ks arbitrary: v) (simp_all add: exceptions_only_ebind exceptions_only_getitem)

lemma exceptions_only_get: "exceptions_only (py_get v k d)"
  by (cases v) (simp_all add: exceptions_only_def)

lemma exceptions_only_items: "exceptions_only (py_items v)"
  by (cases v) (simp_all add: exceptions_only_def)

lemma telemetry_of_exceptions: "exceptions_only (telemetry_of cfg now snap)"
  unfolding telemetry_of_def core_statuses_def
  by (intro exceptions_only_ebind exceptions_only_emap exceptions_only_getitem exceptions_only_path
      exceptions_only_get exceptions_only_items) (auto intro!: exceptions_only_ebind exceptions_only_get)

lemma collect_exceptions:
  "raises_Exceptions (su_consciousness_snapshot (tc_substrate c)) \<Longrightarrow> raises_Exceptions (collect c now)"
  using telemetry_of_exceptions [of "tc_config c" now]
  by (auto simp: collect_def raises_Exceptions_def exceptions_only_def opbind_def split: prod.splits sum.splits)

lemma monitor_lives:
  assumes "tc_running (mo_collector st)" and "raises_Exceptions (su_consciousness_snapshot (tc_substrate (mo_collector st)))"
    and "j < length (mo_loops st)" and "mo_loops st ! j \<noteq> Ended" and "list_all (\<lambda>e. e \<noteq> MonStop) es"
  shows "mo_loops (fold monitor_advance es st) ! j \<noteq> Ended"
  using assms
proof (induction es arbitrary: st)
  case Nil
  then show ?case by simp
next
  case (Cons e es)
  have "mo_loops (monitor_advance e st) ! j \<noteq> Ended"
    using Cons.prems collect_turn_lives [OF Cons.prems(1) collect_exceptions [OF Cons.prems(2)] Cons.prems(4)]
    by (cases e) (simp_all add: nth_append)
  moreover have "tc_running (mo_collector (monitor_advance e st))"
    using Cons.prems by (cases e) (simp_all add: collector_start_def)
  moreover have "tc_substrate (mo_collector (monitor_advance e st)) = tc_substrate (mo_collector st)"
    using Cons.prems(5) by (cases e) (simp_all add: collector_start_def)
  moreover have "j < length (mo_loops (monitor_advance e st))"
    using Cons.prems(3) monitor.loops_kept [of st e] by simp
  ultimately show ?case using Cons by simp
qed

text \<open>
  A collecting thread that is not at an end when \<^verbatim>\<open>stop\<close> and then \<^verbatim>\<open>start\<close> are called, because it
  is asleep for its interval or at work, goes on: it and the new thread both run for as long as the
  collector is not stopped again, and every interval is collected twice.
\<close>

theorem restart_leaves_two_threads:
  assumes "raises_Exceptions (su_consciousness_snapshot (tc_substrate (mo_collector st)))"
    and "i < length (mo_loops st)" and "mo_loops st ! i \<noteq> Ended"
    and "list_all (\<lambda>e. e \<noteq> MonStop) es"
  shows "let st' = fold monitor_advance (MonStop # MonStart # es) st
     in mo_loops st' ! i \<noteq> Ended \<and> mo_loops st' ! length (mo_loops st) \<noteq> Ended"
proof -
  let ?st = "monitor_advance MonStart (monitor_advance MonStop st)"
  have c: "raises_Exceptions (su_consciousness_snapshot (tc_substrate (mo_collector ?st)))"
    using assms(1) by (simp add: collector_start_def collector_stop_def)
  have up: "tc_running (mo_collector ?st)" by (simp add: collector_start_def)
  have "mo_loops (fold monitor_advance es ?st) ! j \<noteq> Ended" if "j = i \<or> j = length (mo_loops st)" for j
    by (rule monitor_lives [OF up c]) (use that assms(2-4) in \<open>auto simp: nth_append\<close>)
  then show ?thesis by (simp add: Let_def del: monitor_advance.simps)
qed

section \<open>Examples\<close>

definition example_monitoring :: "nat monitoring" where
  "example_monitoring = monitoring_init (collector_init example_telemetry DEFAULT_SERVER_CONFIG) 0"

theorem collecting_ends_after_stop_witness:
  "mo_loops (fold monitor_advance (MonStop # map (MonTurn 0) [Fin 2, Fin 3, Fin 4, Fin 5])
     (fold monitor_advance [MonStart, MonTurn 0 (Fin 1)] example_monitoring)) ! 0 = Ended"
proof (rule collecting_ends_after_stop)
  show "0 < length (mo_loops (fold monitor_advance [MonStart, MonTurn 0 (Fin 1)] example_monitoring))"
    by (simp add: example_monitoring_def monitoring_init_def)
qed simp_all

theorem serving_ends_after_stop_witness:
  "sg_loops (fold serve_advance [ServeStop, ServeTurn 0, ServeTurn 0]
     (fold serve_advance [ServeStart, ServeTurn 0] (serving_init (grpc_init idle_substrate DEFAULT_SERVER_CONFIG None)))) ! 0 = Ended"
  by (rule serving_ends_after_stop [OF refl]) (simp_all add: serving_init_def)

theorem restart_leaves_two_threads_witness:
  "let st = fold monitor_advance [MonStart, MonTurn 0 (Fin 1), MonTurn 0 (Fin 1), MonTurn 0 (Fin 1),
       MonStop, MonStart, MonTurn 0 (Fin 2), MonTurn 1 (Fin 2), MonTurn 0 (Fin 3)] example_monitoring
   in mo_loops st ! 0 \<noteq> Ended \<and> mo_loops st ! 1 \<noteq> Ended"
proof -
  let ?st = "fold monitor_advance [MonStart, MonTurn 0 (Fin 1), MonTurn 0 (Fin 1), MonTurn 0 (Fin 1)] example_monitoring"
  have loops: "mo_loops ?st = [Asleep]" by code_simp
  have "tc_substrate (mo_collector ?st) = example_telemetry"
    by (simp add: collector_start_def example_monitoring_def monitoring_init_def collector_init_def)
  then have raises: "raises_Exceptions (su_consciousness_snapshot (tc_substrate (mo_collector ?st)))"
    by (simp only:) (auto simp: raises_Exceptions_def example_telemetry_def)
  show ?thesis
    using restart_leaves_two_threads [OF raises, of 0 "[MonTurn 0 (Fin 2), MonTurn 1 (Fin 2), MonTurn 0 (Fin 3)]"]
    unfolding loops by (simp del: monitor_advance.simps)
qed

end
