(* ===== verification/Pqc_Profile.thy ===== *)
theory Pqc_Profile
  imports Py_Value
begin

text \<open>
  \<^verbatim>\<open>gaia_server/security/pqc_profile.py\<close>: the profile, its two backends, and the stub's key
  encapsulation and signatures. The hash and the random source are the parameter \<open>crypto\<close>;
  \<^verbatim>\<open>hmac\<close> is written out over the hash. Shown: which OpenSSL versions the production backend
  accepts, that none of its operations is wired, and what the stub's primitives have in common
  with the contracts they stand for: the two sides of an encapsulation never agree on a secret.
\<close>

section \<open>Digests\<close>

record 'w crypto =
  cy_sha256 :: "bytes \<Rightarrow> bytes"
  cy_urandom :: "nat \<Rightarrow> ('w, bytes) op"

definition hexdigest :: "bytes \<Rightarrow> string" where
  "hexdigest bs = concat (map (\<lambda>b. [hex_digit (unat b div 16), hex_digit (unat b mod 16)]) bs)"

definition HMAC_BLOCK :: nat where
  "HMAC_BLOCK = 64"

definition hmac_key :: "(bytes \<Rightarrow> bytes) \<Rightarrow> bytes \<Rightarrow> bytes" where
  "hmac_key sha256 key =
     (let k = (if HMAC_BLOCK < length key then sha256 key else key)
      in k @ replicate (HMAC_BLOCK - length k) 0)"

definition xor_bytes :: "8 word \<Rightarrow> bytes \<Rightarrow> bytes" where
  "xor_bytes c bs = map (\<lambda>b. xor b c) bs"

definition hmac :: "(bytes \<Rightarrow> bytes) \<Rightarrow> bytes \<Rightarrow> bytes \<Rightarrow> bytes" where
  "hmac sha256 key msg =
     (let k = hmac_key sha256 key
      in sha256 (xor_bytes 0x5C k @ sha256 (xor_bytes 0x36 k @ msg)))"

lemma hex_digit_value: "n < 16 \<Longrightarrow> (of_char (hex_digit n) :: nat) = (if n < 10 then 48 + n else 87 + n)"
  by (simp add: hex_digit_def)

lemma hex_digit_inject:
  assumes "a < 16" and "b < 16"
  shows "hex_digit a = hex_digit b \<longleftrightarrow> a = b"
proof
  assume "hex_digit a = hex_digit b"
  then have "(if a < 10 then 48 + a else 87 + a) = (if b < 10 then 48 + b else 87 + b)"
    using hex_digit_value [OF assms(1)] hex_digit_value [OF assms(2)] by simp
  with assms show "a = b" by (simp split: if_splits)
qed simp

lemma hexdigest_inject [simp]: "hexdigest a = hexdigest b \<longleftrightarrow> a = b"
proof
  have d: "unat (x :: 8 word) div 16 < 16" for x
  proof -
    have "unat x < 2 ^ LENGTH(8)" by (rule unsigned_less)
    then show ?thesis by simp
  qed
  show "a = b" if "hexdigest a = hexdigest b" using that
  proof (induction a arbitrary: b)
    case Nil
    then show ?case by (cases b) (simp_all add: hexdigest_def)
  next
    case (Cons x a)
    then obtain y c where b: "b = y # c" by (cases b) (auto simp: hexdigest_def)
    with Cons.prems have "unat x div 16 = unat y div 16" "unat x mod 16 = unat y mod 16" "hexdigest a = hexdigest c"
      using d by (simp_all add: hexdigest_def hex_digit_inject)
    then have "x = y" by (metis div_mult_mod_eq unsigned_word_eqI)
    with Cons.IH [OF \<open>hexdigest a = hexdigest c\<close>] b show ?case by simp
  qed
qed simp

lemma length_xor_bytes [simp]: "length (xor_bytes c bs) = length bs"
  by (simp add: xor_bytes_def)

lemma xor_bytes_inject [simp]: "xor_bytes c a = xor_bytes c b \<longleftrightarrow> a = b"
proof
  have "map (\<lambda>b. xor b c) (xor_bytes c bs) = bs" for bs
    by (simp add: xor_bytes_def comp_def xor.assoc)
  then show "a = b" if "xor_bytes c a = xor_bytes c b" using that by metis
qed simp

lemma length_hmac_key:
  assumes "\<And>m. length (sha256 m) \<le> HMAC_BLOCK"
  shows "length (hmac_key sha256 key) = HMAC_BLOCK"
  using assms [of key] by (auto simp: hmac_key_def Let_def)

text \<open>What is hashed to make a tag, so that the absence of a collision can be said of it.\<close>

definition hmac_inputs :: "(bytes \<Rightarrow> bytes) \<Rightarrow> bytes \<Rightarrow> bytes \<Rightarrow> bytes set" where
  "hmac_inputs sha256 key msg =
     (let k = hmac_key sha256 key; inner = xor_bytes 0x36 k @ msg
      in {inner, xor_bytes 0x5C k @ sha256 inner})"

lemma hmac_inject:
  assumes "inj_on sha256 (hmac_inputs sha256 k m \<union> hmac_inputs sha256 k' m')"
    and "length (hmac_key sha256 k) = length (hmac_key sha256 k')"
    and "hmac sha256 k m = hmac sha256 k' m'"
  shows "hmac_key sha256 k = hmac_key sha256 k' \<and> m = m'"
proof -
  let ?k = "hmac_key sha256 k" and ?k' = "hmac_key sha256 k'"
  let ?i = "xor_bytes 0x36 ?k @ m" and ?i' = "xor_bytes 0x36 ?k' @ m'"
  have "xor_bytes 0x5C ?k @ sha256 ?i = xor_bytes 0x5C ?k' @ sha256 ?i'"
    by (rule inj_onD [OF assms(1)]) (use assms(3) in \<open>simp_all add: hmac_def hmac_inputs_def Let_def\<close>)
  moreover have "length (xor_bytes 0x5C ?k) = length (xor_bytes 0x5C ?k')" using assms(2) by simp
  ultimately have x: "xor_bytes 0x5C ?k = xor_bytes 0x5C ?k'" and i: "sha256 ?i = sha256 ?i'"
    by (blast dest: append_eq_append_conv [THEN iffD1, rotated])+
  from x have k: "?k = ?k'" by simp
  have "?i = ?i'" by (rule inj_onD [OF assms(1) i]) (simp_all add: hmac_inputs_def Let_def)
  with k show ?thesis by simp
qed

section \<open>The profile\<close>

record kem_result =
  km_ciphertext :: bytes
  km_shared_secret :: bytes
  km_algorithm :: string

record signature_result =
  sg_signature :: bytes
  sg_algorithm :: string
  sg_signer_id :: string

record verification_result =
  vr_verified :: bool
  vr_algorithm :: string
  vr_reason :: string

record pqc_profile =
  pq_backend :: string
  pq_signer_id :: string

text \<open>\<^verbatim>\<open>s.split(c)\<close> for a separator of one character: there is always at least one part.\<close>

fun split_char :: "char \<Rightarrow> string \<Rightarrow> string list" where
  "split_char sep [] = [[]]"
| "split_char sep (c # cs) =
     (if c = sep then [] # split_char sep cs
      else case split_char sep cs of p # ps \<Rightarrow> (c # p) # ps | [] \<Rightarrow> [[c]])"

definition nth_item :: "'a list \<Rightarrow> nat \<Rightarrow> py_exn + 'a" where
  "nth_item xs i = (if i < length xs then Inr (xs ! i) else Inl (ExternalError ''list index out of range''))"

definition openssl_version :: "string \<Rightarrow> py_exn + (int \<times> int)" where
  "openssl_version version =
     ebind (nth_item (split_char (CHR '' '') version) 1) (\<lambda>number.
     (let parts = split_char (CHR ''.'') number in
      ebind (nth_item parts 0) (\<lambda>a. ebind (int_of_text a) (\<lambda>major.
      ebind (nth_item parts 1) (\<lambda>b. ebind (int_of_text b) (\<lambda>minor. Inr (major, minor)))))))"

text \<open>The argument \<open>ssl_version\<close> is what \<^verbatim>\<open>import ssl\<close> and \<^verbatim>\<open>ssl.OPENSSL_VERSION\<close> give.\<close>

definition init_openssl35 :: "py_exn + string \<Rightarrow> py_exn + unit" where
  "init_openssl35 ssl_version =
     (case ebind ssl_version (\<lambda>version. ebind (openssl_version version) (\<lambda>(major, minor).
        if major < 3 \<or> major = 3 \<and> minor < 5
        then Inl (RuntimeError (''OpenSSL 3.5+ required for production PQC. Found: '' @ version))
        else Inr ())) of
        Inr u \<Rightarrow> Inr u
      | Inl exc \<Rightarrow>
          Inl (if is_Exception exc then RuntimeError (''PQCProfile openssl35 init failed: '' @ exn_str exc) else exc))"

definition pqc_init :: "py_exn + string \<Rightarrow> string \<Rightarrow> string \<Rightarrow> py_exn + pqc_profile" where
  "pqc_init ssl_version backend signer_id =
     (let profile = \<lparr>pq_backend = backend, pq_signer_id = signer_id\<rparr> in
      if backend = ''software-stub'' then Inr profile
      else if backend = ''openssl35'' then ebind (init_openssl35 ssl_version) (\<lambda>_. Inr profile)
      else Inl (ValueError (''Unknown PQC backend: '' @ backend)))"

definition generate_kem_keypair :: "'w crypto \<Rightarrow> pqc_profile \<Rightarrow> ('w, bytes \<times> bytes) op" where
  "generate_kem_keypair cy p =
     (if pq_backend p = ''software-stub''
      then opbind (cy_urandom cy 32) (\<lambda>pub. opbind (cy_urandom cy 32) (\<lambda>priv. opret (pub, priv)))
      else opraise (NotImplementedError
        ''openssl35 KEM keygen not yet wired - use EVP_PKEY_keygen with ML-KEM-768''))"

definition kem_encapsulate :: "'w crypto \<Rightarrow> pqc_profile \<Rightarrow> bytes \<Rightarrow> ('w, kem_result) op" where
  "kem_encapsulate cy p peer_public_key =
     (if pq_backend p = ''software-stub''
      then opbind (cy_urandom cy 16) (\<lambda>nonce. opbind (cy_urandom cy 48) (\<lambda>ciphertext.
        opret \<lparr>km_ciphertext = ciphertext, km_shared_secret = cy_sha256 cy (peer_public_key @ nonce),
          km_algorithm = ''ML-KEM-768''\<rparr>))
      else opraise (NotImplementedError ''openssl35 KEM encapsulate not yet wired''))"

definition kem_decapsulate :: "'w crypto \<Rightarrow> pqc_profile \<Rightarrow> bytes \<Rightarrow> bytes \<Rightarrow> py_exn + bytes" where
  "kem_decapsulate cy p private_key ciphertext =
     (if pq_backend p = ''software-stub'' then Inr (cy_sha256 cy (private_key @ ciphertext))
      else Inl (NotImplementedError ''openssl35 KEM decapsulate not yet wired''))"

definition generate_sig_keypair :: "'w crypto \<Rightarrow> pqc_profile \<Rightarrow> ('w, bytes \<times> bytes) op" where
  "generate_sig_keypair cy p =
     (if pq_backend p = ''software-stub''
      then opbind (cy_urandom cy 32) (\<lambda>pub. opbind (cy_urandom cy 64) (\<lambda>priv. opret (pub, priv)))
      else opraise (NotImplementedError ''openssl35 DSA keygen not yet wired''))"

definition sign_artifact :: "'w crypto \<Rightarrow> pqc_profile \<Rightarrow> bytes \<Rightarrow> bytes \<Rightarrow> py_exn + signature_result" where
  "sign_artifact cy p private_key payload =
     (if pq_backend p = ''software-stub''
      then Inr \<lparr>sg_signature = hmac (cy_sha256 cy) private_key payload, sg_algorithm = ''ML-DSA-65'',
        sg_signer_id = pq_signer_id p\<rparr>
      else Inl (NotImplementedError ''openssl35 DSA signing not yet wired''))"

definition verify_artifact :: "'w crypto \<Rightarrow> pqc_profile \<Rightarrow> bytes \<Rightarrow> bytes \<Rightarrow> bytes
    \<Rightarrow> py_exn + verification_result" where
  "verify_artifact cy p public_key payload signature =
     (if pq_backend p = ''software-stub''
      then let expected = hmac (cy_sha256 cy) public_key payload;
               verified = (signature = expected)
        in Inr \<lparr>vr_verified = verified, vr_algorithm = ''ML-DSA-65-stub'',
             vr_reason = (if verified then [] else ''signature mismatch (stub)'')\<rparr>
      else Inl (NotImplementedError ''openssl35 DSA verification not yet wired''))"

definition negotiate_tls_profile :: pydict where
  "negotiate_tls_profile =
     [(''min_protocol'', PStr ''TLSv1.3''), (''max_protocol'', PStr ''TLSv1.3''),
      (''group_preference'', PStr ''X25519MLKEM768:X25519:SecP256r1MLKEM768''),
      (''cipher_suites'', PList [PStr ''TLS_AES_256_GCM_SHA384'', PStr ''TLS_AES_128_GCM_SHA256'']),
      (''compliance_policy'', PStr ''pqc''), (''istio_min_version'', PStr ''1.29.x'')]"

section \<open>Signatures as tags\<close>

text \<open>
  What the signer relies on: a signature is the tag of the message under the signing key, and it
  is verified by comparing it with the tag under the verifying key. Either call may refuse.
\<close>

locale tag_scheme =
  fixes sign :: "'k \<Rightarrow> 'm \<Rightarrow> 'e + 's"
    and verify :: "'k \<Rightarrow> 'm \<Rightarrow> 's \<Rightarrow> 'e + bool"
    and tag :: "'k \<Rightarrow> 'm \<Rightarrow> 's"
  assumes sign_tag: "sign k m = Inr s \<Longrightarrow> s = tag k m"
    and verify_tag: "verify k m s = Inr b \<Longrightarrow> b \<longleftrightarrow> s = tag k m"
begin

lemma verify_signed: "sign sk m = Inr s \<Longrightarrow> verify vk m' s = Inr b \<Longrightarrow> b \<longleftrightarrow> tag sk m = tag vk m'"
  using sign_tag verify_tag by blast

lemma verify_own: "sign k m = Inr s \<Longrightarrow> verify k m s = Inr b \<Longrightarrow> b"
  using verify_signed by blast

lemma sign_deterministic: "sign k m = Inr s \<Longrightarrow> sign k m = Inr s' \<Longrightarrow> s = s'"
  by simp

text \<open>A verified signature is the only one that verifies.\<close>

lemma verified_unique: "verify k m s = Inr True \<Longrightarrow> verify k m s' = Inr True \<Longrightarrow> s = s'"
  using verify_tag by blast

end

interpretation stub_tag: tag_scheme
  "\<lambda>k m. map_sum id sg_signature (sign_artifact cy p k m)"
  "\<lambda>k m s. map_sum id vr_verified (verify_artifact cy p k m s)"
  "hmac (cy_sha256 cy)"
  for cy :: "'w crypto" and p
  by unfold_locales (auto simp: sign_artifact_def verify_artifact_def Let_def split: if_splits)

lemma verify_artifact_iff:
  assumes "verify_artifact cy p k m s = Inr r"
  shows "vr_verified r \<longleftrightarrow> s = hmac (cy_sha256 cy) k m"
  using stub_tag.verify_tag [of cy p k m s "vr_verified r"] assms by simp

lemma sign_artifact_tag:
  assumes "sign_artifact cy p k m = Inr r"
  shows "sg_signature r = hmac (cy_sha256 cy) k m"
  using stub_tag.sign_tag [of cy p k m "sg_signature r"] assms by simp

section \<open>The production backend\<close>

lemma split_char_join: "c \<notin> set a \<Longrightarrow> split_char c (a @ c # b) = a # split_char c b"
  by (induction a) auto

lemma split_char_hd: "\<exists>ps. split_char c s = takeWhile (\<lambda>x. x \<noteq> c) s # ps"
  by (induction s) (auto split: list.split)

lemma split_char_absent: "c \<notin> set a \<Longrightarrow> split_char c a = [a]"
  by (induction a) auto

lemma digits_free: "\<not> is_digit_char c \<Longrightarrow> c \<notin> set (str_nat n)"
  using str_nat_digits [of n] by blast

lemma int_of_str_nat: "n < 10 ^ INT_DIGIT_LIMIT \<Longrightarrow> int_of_text (str_nat n) = Inr (int n)"
  by (simp add: int_of_text_def py_int_str_nat)

lemma openssl_version_text:
  assumes "major < 10 ^ INT_DIGIT_LIMIT" and "minor < 10 ^ INT_DIGIT_LIMIT"
  shows "openssl_version (''OpenSSL '' @ str_nat major @ ''.'' @ str_nat minor @ ''.'' @ patch) = Inr (int major, int minor)"
proof -
  let ?v = "str_nat major @ CHR ''.'' # str_nat minor @ CHR ''.'' # patch"
  have sp: "CHR '' '' \<notin> set (str_nat n)" and dot: "CHR ''.'' \<notin> set (str_nat n)" for n
    by (rule digits_free, simp)+
  obtain ps where ps: "split_char (CHR '' '') ?v = takeWhile (\<lambda>x. x \<noteq> CHR '' '') ?v # ps"
    using split_char_hd by blast
  have tw: "takeWhile (\<lambda>x. x \<noteq> CHR '' '') (str_nat n @ z) = str_nat n @ takeWhile (\<lambda>x. x \<noteq> CHR '' '') z" for n z
    by (rule takeWhile_append2) (use sp [of n] in auto)
  have v: "takeWhile (\<lambda>x. x \<noteq> CHR '' '') ?v =
      str_nat major @ CHR ''.'' # str_nat minor @ CHR ''.'' # takeWhile (\<lambda>x. x \<noteq> CHR '' '') patch"
    by (simp add: tw)
  have "split_char (CHR '' '') (''OpenSSL '' @ ?v) = ''OpenSSL'' # split_char (CHR '' '') ?v"
    using split_char_join [of "CHR '' ''" "''OpenSSL''" ?v] by simp
  then have "nth_item (split_char (CHR '' '') (''OpenSSL '' @ ?v)) 1 = Inr (takeWhile (\<lambda>x. x \<noteq> CHR '' '') ?v)"
    by (simp add: ps nth_item_def)
  moreover have "split_char (CHR ''.'') (takeWhile (\<lambda>x. x \<noteq> CHR '' '') ?v) =
      str_nat major # str_nat minor # split_char (CHR ''.'') (takeWhile (\<lambda>x. x \<noteq> CHR '' '') patch)"
    unfolding v by (simp add: split_char_join dot)
  ultimately show ?thesis
    using assms by (simp add: openssl_version_def nth_item_def int_of_str_nat)
qed

text \<open>
  The production backend is selected exactly when the version of OpenSSL is at least 3.5,
  compared number by number, whatever follows the first two numbers; an older version is
  refused with the reason.
\<close>

theorem openssl_version_gate:
  assumes "major < 10 ^ INT_DIGIT_LIMIT" and "minor < 10 ^ INT_DIGIT_LIMIT"
    and "version = ''OpenSSL '' @ str_nat major @ ''.'' @ str_nat minor @ ''.'' @ patch"
  shows "pqc_init (Inr version) ''openssl35'' signer_id =
     (if 3 < major \<or> major = 3 \<and> 5 \<le> minor
      then Inr \<lparr>pq_backend = ''openssl35'', pq_signer_id = signer_id\<rparr>
      else Inl (RuntimeError (''PQCProfile openssl35 init failed: OpenSSL 3.5+ required for production PQC. Found: ''
        @ version)))"
proof -
  have v: "openssl_version version = Inr (int major, int minor)"
    unfolding assms(3) by (rule openssl_version_text) (use assms(1,2) in simp_all)
  show ?thesis by (auto simp: pqc_init_def init_openssl35_def v)
qed

lemma small_number: "n < 10 \<Longrightarrow> (n :: nat) < 10 ^ INT_DIGIT_LIMIT"
  using power_increasing [of 1 INT_DIGIT_LIMIT "10 :: nat"] INT_DIGIT_LIMIT_pos by simp

lemma str_3_5: "str_nat 3 = ''3''" "str_nat 5 = ''5''"
  by code_simp+

theorem openssl_version_gate_witness:
  "pqc_init (Inr ''OpenSSL 3.5.0 8 Apr 2025'') ''openssl35'' ''n'' =
     Inr \<lparr>pq_backend = ''openssl35'', pq_signer_id = ''n''\<rparr>"
proof -
  have "''OpenSSL 3.5.0 8 Apr 2025'' = ''OpenSSL '' @ str_nat 3 @ ''.'' @ str_nat 5 @ ''.'' @ ''0 8 Apr 2025''"
    by (simp add: str_3_5)
  from openssl_version_gate [OF small_number small_number this] show ?thesis by simp
qed

text \<open>
  A profile that is not the stub performs no cryptographic operation: whatever its version
  test says, each of the six operations raises an error.
\<close>

theorem production_backend_unwired:
  assumes "pqc_init ssl_version backend signer_id = Inr p" and "backend \<noteq> ''software-stub''"
  shows "\<exists>e1 e2 e3 e4 e5 e6.
     generate_kem_keypair cy p w = (Inl (NotImplementedError e1), w) \<and>
     kem_encapsulate cy p peer w = (Inl (NotImplementedError e2), w) \<and>
     kem_decapsulate cy p priv ciphertext = Inl (NotImplementedError e3) \<and>
     generate_sig_keypair cy p w = (Inl (NotImplementedError e4), w) \<and>
     sign_artifact cy p priv payload = Inl (NotImplementedError e5) \<and>
     verify_artifact cy p pub payload signature = Inl (NotImplementedError e6)"
proof -
  have "pq_backend p \<noteq> ''software-stub''"
    using assms by (auto simp: pqc_init_def Let_def ebind_eq_Inr split: if_splits)
  then show ?thesis
    by (simp add: generate_kem_keypair_def kem_encapsulate_def kem_decapsulate_def generate_sig_keypair_def
      sign_artifact_def verify_artifact_def)
qed

definition example_crypto :: "nat crypto" where
  "example_crypto = \<lparr>cy_sha256 = (\<lambda>m. take 32 m), cy_urandom = (\<lambda>n w. (Inr (replicate n (of_nat w)), Suc w))\<rparr>"

theorem production_backend_unwired_witness:
  "\<exists>e. sign_artifact example_crypto \<lparr>pq_backend = ''openssl35'', pq_signer_id = ''n''\<rparr> [1] [2] =
     Inl (NotImplementedError e)"
proof -
  have "openssl_version ''OpenSSL 3.5.0'' = Inr (3, 5)"
    using openssl_version_text [OF small_number small_number, of 3 5 "''0''"] by (simp add: str_3_5)
  then have "pqc_init (Inr ''OpenSSL 3.5.0'') ''openssl35'' ''n'' =
      Inr \<lparr>pq_backend = ''openssl35'', pq_signer_id = ''n''\<rparr>"
    by (simp add: pqc_init_def init_openssl35_def)
  from production_backend_unwired [OF this, of example_crypto 0 "[]" "[1]" "[]" "[2]" "[]" "[]"] show ?thesis
    by auto
qed

section \<open>Key encapsulation\<close>

definition crypto_ok :: "'w crypto \<Rightarrow> bool" where
  "crypto_ok cy \<longleftrightarrow>
     (\<forall>m. length (cy_sha256 cy m) \<le> HMAC_BLOCK) \<and>
     (\<forall>n w bs w'. cy_urandom cy n w = (Inr bs, w') \<longrightarrow> length bs = n)"

lemma urandom_length: "crypto_ok cy \<Longrightarrow> cy_urandom cy n w = (Inr bs, w') \<Longrightarrow> length bs = n"
  unfolding crypto_ok_def by blast

text \<open>
  The two sides of the stub's key encapsulation do not agree. The sender's secret hashes 48
  bytes and the receiver's hashes 80 bytes, so equal secrets are a collision of the hash,
  whatever the random source gives.
\<close>

theorem kem_sides_disagree:
  assumes "crypto_ok cy"
    and "generate_kem_keypair cy p w = (Inr (pub, priv), w1)"
    and "kem_encapsulate cy p pub w2 = (Inr sealed, w3)"
    and "kem_decapsulate cy p priv (km_ciphertext sealed) = Inr secret"
  shows "\<exists>a b. length a = 48 \<and> length b = 80 \<and> km_shared_secret sealed = cy_sha256 cy a \<and> secret = cy_sha256 cy b"
proof -
  note u = urandom_length [OF assms(1)]
  have stub: "pq_backend p = ''software-stub''"
    using assms(4) by (simp add: kem_decapsulate_def split: if_splits)
  from assms(2) stub obtain w' where "cy_urandom cy 32 w = (Inr pub, w')" "cy_urandom cy 32 w' = (Inr priv, w1)"
    by (auto simp: generate_kem_keypair_def elim!: opbind_InrE)
  then have len: "length pub = 32" "length priv = 32" using u by blast+
  from assms(3) stub obtain nonce w4 where n: "cy_urandom cy 16 w2 = (Inr nonce, w4)"
    "cy_urandom cy 48 w4 = (Inr (km_ciphertext sealed), w3)" "km_shared_secret sealed = cy_sha256 cy (pub @ nonce)"
    by (auto simp: kem_encapsulate_def elim!: opbind_InrE)
  have "length nonce = 16" "length (km_ciphertext sealed) = 48" using n(1,2) u by blast+
  moreover have "secret = cy_sha256 cy (priv @ km_ciphertext sealed)"
    using assms(4) stub by (simp add: kem_decapsulate_def)
  ultimately have "length (pub @ nonce) = 48 \<and> length (priv @ km_ciphertext sealed) = 80 \<and>
      km_shared_secret sealed = cy_sha256 cy (pub @ nonce) \<and> secret = cy_sha256 cy (priv @ km_ciphertext sealed)"
    using len n(3) by simp
  then show ?thesis by blast
qed

theorem kem_sides_disagree_witness:
  "\<exists>a b. length a = 48 \<and> length b = 80 \<and> km_shared_secret
        \<lparr>km_ciphertext = replicate 48 3, km_shared_secret = take 32 (replicate 32 0 @ replicate 16 2), km_algorithm = ''ML-KEM-768''\<rparr> =
      cy_sha256 example_crypto a \<and> replicate 32 1 = cy_sha256 example_crypto b"
proof -
  let ?p = "\<lparr>pq_backend = ''software-stub'', pq_signer_id = ''n''\<rparr>"
  have ok: "crypto_ok example_crypto" by (auto simp: crypto_ok_def example_crypto_def HMAC_BLOCK_def)
  have g: "generate_kem_keypair example_crypto ?p 0 = (Inr (replicate 32 0, replicate 32 1), 2)"
    by (simp add: generate_kem_keypair_def example_crypto_def opbind_def)
  have e: "kem_encapsulate example_crypto ?p (replicate 32 0) 2 = (Inr \<lparr>km_ciphertext = replicate 48 3,
      km_shared_secret = take 32 (replicate 32 0 @ replicate 16 2), km_algorithm = ''ML-KEM-768''\<rparr>, 4)"
    by (simp add: kem_encapsulate_def example_crypto_def opbind_def del: take_append)
  have d: "kem_decapsulate example_crypto ?p (replicate 32 1) (km_ciphertext
      \<lparr>km_ciphertext = replicate 48 3, km_shared_secret = take 32 (replicate 32 0 @ replicate 16 2),
       km_algorithm = ''ML-KEM-768''\<rparr>) = Inr (replicate 32 1)"
    by (simp add: kem_decapsulate_def example_crypto_def)
  from kem_sides_disagree [OF ok g e d] show ?thesis .
qed

end
