(* ===== verification/Json_Payload.thy ===== *)
theory Json_Payload
  imports Json_Text Py_Value "HOL-Library.Product_Lexorder"
begin

text \<open>
  \<^verbatim>\<open>json.dumps(payload, sort_keys=True, default=str)\<close>, as the artifact signer calls it on a dictionary with
  values of any kind. Keys are strings, integers, truth values or \<^verbatim>\<open>None\<close>; the items of a dictionary are
  sorted before anything is written, which raises a \<^verbatim>\<open>TypeError\<close> when two keys cannot be compared. A
  value that JSON has no form for is written as the string that \<^verbatim>\<open>str\<close> gives for it, or \<^verbatim>\<open>str\<close> raises.
  Shown: which payloads have a text, that the text is printable ASCII, and that it does not depend on the
  insertion order of the dictionaries. Keys that are floats or of other classes are left out.
\<close>

section \<open>Payloads\<close>

datatype json_key = KStr string | KInt int | KBool bool | KNone

text \<open>\<open>YList\<close> is a list or a tuple. \<open>YObject\<close> is a value of any other class, by what \<^verbatim>\<open>str\<close> does on it.\<close>

datatype payload =
    YNone
  | YBool bool
  | YInt int
  | YFloat pyfloat
  | YStr string
  | YList "payload list"
  | YDict "(json_key \<times> payload) list"
  | YObject "py_exn + string"

type_synonym payload_dict = "(json_key \<times> payload) list"

section \<open>The order of keys\<close>

text \<open>
  The order is total, so that \<open>sort_key\<close> applies. On strings, and on integers and truth values, it is the order
  of Python: \<^verbatim>\<open>False\<close> and \<^verbatim>\<open>True\<close> are 0 and 1, which a dictionary does not hold beside them.
\<close>

fun key_rank :: "json_key \<Rightarrow> nat \<times> int \<times> nat \<times> string" where
  "key_rank KNone = (0, 0, 0, [])"
| "key_rank (KBool b) = (1, of_bool b, 0, [])"
| "key_rank (KInt n) = (1, n, 1, [])"
| "key_rank (KStr s) = (2, 0, 0, s)"

lemma key_rank_inject: "key_rank j = key_rank k \<longleftrightarrow> j = k"
  by (cases j; cases k) (auto split: if_splits)

instantiation json_key :: linorder
begin

definition less_eq_json_key :: "json_key \<Rightarrow> json_key \<Rightarrow> bool" where
  "less_eq_json_key j k \<longleftrightarrow> key_rank j \<le> key_rank k"

definition less_json_key :: "json_key \<Rightarrow> json_key \<Rightarrow> bool" where
  "less_json_key j k \<longleftrightarrow> key_rank j < key_rank k"

instance
  by standard (auto simp: less_eq_json_key_def less_json_key_def simp flip: key_rank_inject)

end

fun is_text_key :: "json_key \<Rightarrow> bool" where
  "is_text_key (KStr s) = True"
| "is_text_key k = False"

fun is_number_key :: "json_key \<Rightarrow> bool" where
  "is_number_key (KInt n) = True"
| "is_number_key (KBool b) = True"
| "is_number_key k = False"

text \<open>\<^verbatim>\<open>sorted(d.items())\<close>. The message of the error also names the two types, which depend on the sort.\<close>

definition sortable :: "json_key list \<Rightarrow> bool" where
  "sortable ks \<longleftrightarrow> length ks \<le> 1 \<or> list_all is_text_key ks \<or> list_all is_number_key ks"

definition not_sortable :: py_exn where
  "not_sortable = TypeError (quoted ''<'' @ '' not supported between instances'')"

definition sort_items :: "(json_key \<times> 'a) list \<Rightarrow> py_exn + (json_key \<times> 'a) list" where
  "sort_items d = (if sortable (map fst d) then Inr (sort_key fst d) else Inl not_sortable)"

section \<open>The text\<close>

fun key_text :: "json_key \<Rightarrow> string" where
  "key_text (KStr s) = s"
| "key_text (KInt n) = str_int n"
| "key_text (KBool b) = (if b then ''true'' else ''false'')"
| "key_text KNone = ''null''"

definition object_text :: "(json_key \<times> (py_exn + string)) list \<Rightarrow> py_exn + string" where
  "object_text d =
     ebind (sort_items d) (\<lambda>items.
     ebind (emap (\<lambda>(k, r). ebind r (\<lambda>t. Inr (json_string (key_text k) @ '': '' @ t))) items) (\<lambda>ts.
       Inr (''{'' @ join '', '' ts @ ''}'')))"

primrec json_text :: "(rat \<Rightarrow> string) \<Rightarrow> payload \<Rightarrow> py_exn + string" where
  "json_text ft YNone = Inr ''null''"
| "json_text ft (YBool b) = Inr (if b then ''true'' else ''false'')"
| "json_text ft (YInt n) = Inr (str_int n)"
| "json_text ft (YFloat x) = Inr (json_float ft x)"
| "json_text ft (YStr s) = Inr (json_string s)"
| "json_text ft (YList xs) =
     ebind (emap (\<lambda>r. r) (map (json_text ft) xs)) (\<lambda>ts. Inr (''['' @ join '', '' ts @ '']''))"
| "json_text ft (YDict d) = object_text (map (map_prod id (json_text ft)) d)"
| "json_text ft (YObject r) = ebind r (\<lambda>s. Inr (json_string s))"

section \<open>Which payloads have a text\<close>

primrec encodable :: "payload \<Rightarrow> bool" where
  "encodable YNone = True"
| "encodable (YBool b) = True"
| "encodable (YInt n) = True"
| "encodable (YFloat x) = True"
| "encodable (YStr s) = True"
| "encodable (YList xs) = list_all (\<lambda>b. b) (map encodable xs)"
| "encodable (YDict d) = (sortable (map fst d) \<and> list_all snd (map (map_prod id encodable) d))"
| "encodable (YObject r) = (case r of Inl e \<Rightarrow> False | Inr s \<Rightarrow> True)"

text \<open>What \<^verbatim>\<open>str\<close> raises on the objects in a payload.\<close>

primrec str_errors :: "payload \<Rightarrow> py_exn list" where
  "str_errors YNone = []"
| "str_errors (YBool b) = []"
| "str_errors (YInt n) = []"
| "str_errors (YFloat x) = []"
| "str_errors (YStr s) = []"
| "str_errors (YList xs) = concat (map str_errors xs)"
| "str_errors (YDict d) = concat (map snd (map (map_prod id str_errors) d))"
| "str_errors (YObject r) = (case r of Inl e \<Rightarrow> [e] | Inr s \<Rightarrow> [])"

definition text_outcome :: "payload \<Rightarrow> py_exn + string \<Rightarrow> bool" where
  "text_outcome v r \<longleftrightarrow> (case r of
     Inl e \<Rightarrow> \<not> encodable v \<and> e \<in> insert not_sortable (set (str_errors v))
   | Inr t \<Rightarrow> encodable v \<and> printable t)"

lemma emap_outcome:
  "emap f xs = Inl e \<Longrightarrow> \<exists>x \<in> set xs. f x = Inl e"
  "emap f xs = Inr ys \<Longrightarrow> x \<in> set xs \<Longrightarrow> \<exists>y. f x = Inr y"
  "emap f xs = Inr ys \<Longrightarrow> y \<in> set ys \<Longrightarrow> \<exists>x \<in> set xs. f x = Inr y"
  by (induction xs arbitrary: ys) (auto simp: ebind_eq_Inr ebind_eq_Inl)

lemma list_outcome:
  assumes "\<And>x. x \<in> set xs \<Longrightarrow> text_outcome x (json_text ft x)"
  shows "text_outcome (YList xs) (json_text ft (YList xs))"
proof (cases "emap (\<lambda>r. r) (map (json_text ft) xs)")
  case (Inl e)
  from emap_outcome(1) [OF this] obtain x where "x \<in> set xs" "json_text ft x = Inl e" by auto
  with assms [of x] Inl show ?thesis by (auto simp: text_outcome_def list_all_iff)
next
  case (Inr ts)
  have "printable t" if "t \<in> set ts" for t
  proof -
    from emap_outcome(3) [OF Inr that] obtain x where "x \<in> set xs" "json_text ft x = Inr t" by auto
    with assms [of x] show ?thesis by (simp add: text_outcome_def)
  qed
  then have "printable (join '', '' ts)" by (intro printable_join) simp_all
  moreover have "encodable x" if "x \<in> set xs" for x
    using emap_outcome(2) [OF Inr, of "json_text ft x"] that assms [OF that] by (auto simp: text_outcome_def)
  ultimately show ?thesis using Inr by (auto simp: text_outcome_def list_all_iff)
qed

lemma dict_outcome:
  assumes "\<And>k x. (k, x) \<in> set d \<Longrightarrow> text_outcome x (json_text ft x)"
  shows "text_outcome (YDict d) (json_text ft (YDict d))"
proof (cases "sortable (map fst d)")
  case False
  then show ?thesis by (simp add: text_outcome_def object_text_def sort_items_def comp_def)
next
  case True
  let ?d = "sort_key fst (map (map_prod id (json_text ft)) d)"
  let ?f = "\<lambda>(k, r). ebind r (\<lambda>t. Inr (json_string (key_text k) @ '': '' @ t))"
  have j: "json_text ft (YDict d) = ebind (emap ?f ?d) (\<lambda>ts. Inr (''{'' @ join '', '' ts @ ''}''))"
    using True by (simp add: object_text_def sort_items_def comp_def)
  have el: "\<exists>k x. (k, x) \<in> set d \<and> p = (k, json_text ft x)" if "p \<in> set ?d" for p using that by auto
  show ?thesis
  proof (cases "emap ?f ?d")
    case (Inl e)
    from emap_outcome(1) [OF this] obtain p where "p \<in> set ?d" "?f p = Inl e" by blast
    with el obtain k x where x: "(k, x) \<in> set d" "json_text ft x = Inl e" by (fastforce simp: ebind_eq_Inl)
    with assms [of k x] have "\<not> encodable x" "e \<in> insert not_sortable (set (str_errors x))"
      by (simp_all add: text_outcome_def)
    with x(1) Inl show ?thesis unfolding j by (force simp: text_outcome_def list_all_iff)
  next
    case (Inr ts)
    have "encodable x" if "(k, x) \<in> set d" for k x
    proof -
      have "(k, json_text ft x) \<in> set ?d" using that by force
      from emap_outcome(2) [OF Inr this] assms [OF that] show ?thesis
        by (auto simp: text_outcome_def ebind_eq_Inr)
    qed
    moreover have "printable t" if "t \<in> set ts" for t
    proof -
      from emap_outcome(3) [OF Inr that] obtain p where "p \<in> set ?d" "?f p = Inr t" by blast
      with el obtain k x u where "(k, x) \<in> set d" "json_text ft x = Inr u" "t = json_string (key_text k) @ '': '' @ u"
        by (fastforce simp: ebind_eq_Inr)
      with assms [of k x] show ?thesis by (simp add: text_outcome_def)
    qed
    then have "printable (join '', '' ts)" by (intro printable_join) simp_all
    ultimately show ?thesis using Inr True unfolding j by (auto simp: text_outcome_def list_all_iff)
  qed
qed

text \<open>A payload has a text exactly when it is encodable, and the text is printable.\<close>

lemma json_text_outcome:
  assumes "\<And>r. printable (ft r)"
  shows "text_outcome v (json_text ft v)"
proof (induction v)
  case (YFloat x)
  then show ?case using assms by (cases x) (simp_all add: text_outcome_def)
next
  case (YList xs)
  then show ?case by (rule list_outcome)
next
  case (YDict d)
  show ?case by (rule dict_outcome) (use YDict in \<open>fastforce\<close>)
next
  case (YObject r)
  then show ?case by (cases r) (simp_all add: text_outcome_def)
qed (simp_all add: text_outcome_def)

section \<open>The order of insertion\<close>

text \<open>The payload with its dictionaries sorted at every depth; objects are left as they are.\<close>

primrec sorted_payload :: "payload \<Rightarrow> payload" where
  "sorted_payload YNone = YNone"
| "sorted_payload (YBool b) = YBool b"
| "sorted_payload (YInt n) = YInt n"
| "sorted_payload (YFloat x) = YFloat x"
| "sorted_payload (YStr s) = YStr s"
| "sorted_payload (YList xs) = YList (map sorted_payload xs)"
| "sorted_payload (YDict d) = YDict (sort_key fst (map (map_prod id sorted_payload) d))"
| "sorted_payload (YObject r) = YObject r"

lemma insort_key_map_prod:
  "insort_key fst (map_prod id f x) (map (map_prod id f) xs) = map (map_prod id f) (insort_key fst x xs)"
  by (induction xs) auto

lemma sort_key_map_prod: "sort_key fst (map (map_prod id f) xs) = map (map_prod id f) (sort_key fst xs)"
  by (induction xs) (simp_all only: list.map sort_key_simps insort_key_map_prod)

lemma sort_sort_key: "sort_key fst (sort_key fst d) = sort_key fst d"
  by (rule sort_key_id_if_sorted) simp

lemma sortable_mset: "mset ks = mset ks' \<Longrightarrow> sortable ks = sortable ks'"
  unfolding sortable_def list_all_iff by (metis mset_eq_length mset_eq_setD)

lemma sort_items_sorted: "sort_items (sort_key fst d) = sort_items d"
proof -
  have "mset (map fst (sort_key fst d)) = mset (map fst d)" by simp
  then have "sortable (map fst (sort_key fst d)) = sortable (map fst d)" by (rule sortable_mset)
  then show ?thesis by (simp add: sort_items_def sort_sort_key)
qed

lemma json_text_sorted_payload [simp]: "json_text ft (sorted_payload v) = json_text ft v"
proof (induction v)
  case (YList xs)
  then have "map (json_text ft) (map sorted_payload xs) = map (json_text ft) xs" by simp
  then show ?case by (simp del: map_map)
next
  case (YDict d)
  let ?j = "map_prod id (json_text ft)" and ?s = "map_prod id sorted_payload"
  have "map ?j (map ?s d) = map ?j d" using YDict by (fastforce simp: map_prod_def)
  then have "map ?j (sort_key fst (map ?s d)) = sort_key fst (map ?j d)" by (metis sort_key_map_prod)
  then show ?case by (simp add: object_text_def sort_items_sorted)
qed simp_all

lemma json_text_same_payload: "sorted_payload v = sorted_payload v' \<Longrightarrow> json_text ft v = json_text ft v'"
  by (metis json_text_sorted_payload)

end
