(* ===== verification/Artifact_Signer.thy ===== *)
theory Artifact_Signer
  imports Pqc_Profile Json_Payload
begin

text \<open>
  \<^verbatim>\<open>gaia_server/security/artifact_signer.py\<close>: signed artifacts and the signer with its sequence
  counter. The time of signing is an argument, and so is \<open>ft\<close>, the text of a float. A payload is a
  dictionary with values of any kind, and its text, which is hashed and signed, is that of \<open>Json_Payload\<close>.
  Shown: what signing does for every payload; exactly which artifacts verify; that the keys the profile generates make a signer that rejects its own
  artifacts; that a changed payload is found out; what verification does not look at; and that
  sequence numbers have no gaps.
\<close>

section \<open>Artifacts\<close>

record signed_artifact =
  sa_artifact_kind :: string
  sa_payload_digest :: string
  sa_payload :: payload_dict
  sa_signature :: bytes
  sa_algorithm :: string
  sa_signer_id :: string
  sa_signed_at :: pyfloat
  sa_manifest_version :: int
  sa_sequence :: int
  sa_kem_metadata :: string
  sa_notes :: "string list"

definition MANDATORY_KINDS :: "string list" where
  "MANDATORY_KINDS =
     [''consciousness_snapshot'', ''policy_update'', ''emergency_override'', ''deployment_manifest'',
      ''model_lineage'', ''memory_compaction_manifest'', ''backup_manifest'', ''audit_checkpoint'',
      ''adr_security'', ''root_key_rotation'']"

record artifact_signer =
  as_pqc :: pqc_profile
  as_private_key :: bytes
  as_public_key :: bytes
  as_sequence :: int

definition signer_init :: "pqc_profile \<Rightarrow> bytes \<Rightarrow> bytes \<Rightarrow> artifact_signer" where
  "signer_init pqc private_key public_key =
     \<lparr>as_pqc = pqc, as_private_key = private_key, as_public_key = public_key, as_sequence = 0\<rparr>"

definition warns_of_kind :: "string \<Rightarrow> bool" where
  "warns_of_kind artifact_kind \<longleftrightarrow> artifact_kind \<notin> set MANDATORY_KINDS"

definition canonical :: "(rat \<Rightarrow> string) \<Rightarrow> payload_dict \<Rightarrow> py_exn + bytes" where
  "canonical ft payload = ebind (json_text ft (YDict payload)) (\<lambda>text. Inr (encode text))"

definition artifact_sign :: "'w crypto \<Rightarrow> (rat \<Rightarrow> string) \<Rightarrow> pyfloat \<Rightarrow> string \<Rightarrow> payload_dict
    \<Rightarrow> artifact_signer \<Rightarrow> (py_exn + signed_artifact) \<times> artifact_signer" where
  "artifact_sign cy ft now artifact_kind payload s =
     (case canonical ft payload of
        Inl e \<Rightarrow> (Inl e, s)
      | Inr text \<Rightarrow>
          (let digest = hexdigest (cy_sha256 cy text)
           in case sign_artifact cy (as_pqc s) (as_private_key s) text of
             Inl e \<Rightarrow> (Inl e, s)
           | Inr sig_result \<Rightarrow>
               (let s' = s\<lparr>as_sequence := as_sequence s + 1\<rparr>
                in (Inr \<lparr>sa_artifact_kind = artifact_kind, sa_payload_digest = digest, sa_payload = payload,
                      sa_signature = sg_signature sig_result, sa_algorithm = sg_algorithm sig_result,
                      sa_signer_id = (if sg_signer_id sig_result \<noteq> [] then sg_signer_id sig_result
                        else pq_signer_id (as_pqc s)),
                      sa_signed_at = now, sa_manifest_version = 1, sa_sequence = as_sequence s',
                      sa_kem_metadata = ''ML-KEM-768'', sa_notes = []\<rparr>, s'))))"

definition artifact_verify :: "'w crypto \<Rightarrow> (rat \<Rightarrow> string) \<Rightarrow> artifact_signer \<Rightarrow> signed_artifact
    \<Rightarrow> py_exn + verification_result" where
  "artifact_verify cy ft s artifact =
     ebind (canonical ft (sa_payload artifact)) (\<lambda>text.
       let recomputed = hexdigest (cy_sha256 cy text)
       in if recomputed \<noteq> sa_payload_digest artifact
          then Inr \<lparr>vr_verified = False, vr_algorithm = sa_algorithm artifact,
                 vr_reason = ''payload digest mismatch''\<rparr>
          else verify_artifact cy (as_pqc s) (as_public_key s) text (sa_signature artifact))"

definition sign_consciousness_snapshot :: "'w crypto \<Rightarrow> (rat \<Rightarrow> string) \<Rightarrow> pyfloat \<Rightarrow> payload_dict
    \<Rightarrow> artifact_signer \<Rightarrow> (py_exn + signed_artifact) \<times> artifact_signer" where
  "sign_consciousness_snapshot cy ft now snapshot = artifact_sign cy ft now ''consciousness_snapshot'' snapshot"

definition sign_checkpoint :: "'w crypto \<Rightarrow> (rat \<Rightarrow> string) \<Rightarrow> pyfloat \<Rightarrow> payload_dict
    \<Rightarrow> artifact_signer \<Rightarrow> (py_exn + signed_artifact) \<times> artifact_signer" where
  "sign_checkpoint cy ft now checkpoint = artifact_sign cy ft now ''audit_checkpoint'' checkpoint"

lemma convenience_kinds_mandatory:
  "\<not> warns_of_kind ''consciousness_snapshot''" "\<not> warns_of_kind ''audit_checkpoint''"
  by (simp_all add: warns_of_kind_def MANDATORY_KINDS_def)

abbreviation software_stub :: "artifact_signer \<Rightarrow> bool" where
  "software_stub s \<equiv> pq_backend (as_pqc s) = ''software-stub''"

lemma artifact_sign_cases:
  assumes "artifact_sign cy ft now kind payload s = (Inr a, s')"
  obtains ctext where "software_stub s" "canonical ft payload = Inr ctext" "sa_payload a = payload"
    "sa_payload_digest a = hexdigest (cy_sha256 cy ctext)"
    "sa_signature a = hmac (cy_sha256 cy) (as_private_key s) ctext"
    "sa_sequence a = as_sequence s + 1" "s' = s\<lparr>as_sequence := as_sequence s + 1\<rparr>" "sa_artifact_kind a = kind"
    "sa_signer_id a = pq_signer_id (as_pqc s)"
  using assms by (auto simp: artifact_sign_def sign_artifact_def Let_def split: if_splits sum.splits)

lemma artifact_sign_stub:
  assumes "software_stub s" and "canonical ft payload = Inr ctext"
  shows "\<exists>a. artifact_sign cy ft now kind payload s = (Inr a, s\<lparr>as_sequence := as_sequence s + 1\<rparr>)"
  using assms by (simp add: artifact_sign_def sign_artifact_def Let_def)

lemma artifact_sign_unwired:
  assumes "\<not> software_stub s" and "canonical ft payload = Inr ctext"
  shows "artifact_sign cy ft now kind payload s =
     (Inl (NotImplementedError ''openssl35 DSA signing not yet wired''), s)"
  using assms by (simp add: artifact_sign_def sign_artifact_def Let_def)

section \<open>What signing does\<close>

lemma canonical_outcome:
  assumes "\<And>r. printable (ft r)"
  shows "case canonical ft payload of
     Inl e \<Rightarrow> \<not> encodable (YDict payload) \<and> e \<in> insert not_sortable (set (str_errors (YDict payload)))
   | Inr ctext \<Rightarrow> encodable (YDict payload) \<and> list_all (\<lambda>b. 32 \<le> unat b \<and> unat b \<le> 126) ctext"
proof -
  have "text_outcome (YDict payload) (json_text ft (YDict payload))" by (rule json_text_outcome [OF assms])
  then show ?thesis
    by (cases "json_text ft (YDict payload)")
      (simp_all add: text_outcome_def canonical_def encode_def printable_def list_all_iff del: json_text.simps)
qed

text \<open>
  C39: what signing does, for a payload of any kind. It returns exactly when the payload is encodable, which
  means that in every dictionary in it the keys can be sorted and that \<^verbatim>\<open>str\<close> returns on every value
  that JSON has no form for, and the backend is the stub; then the text that was hashed and signed is
  printable ASCII, when the texts of floats are. Otherwise it raises the \<^verbatim>\<open>TypeError\<close> of the sort, what \<^verbatim>\<open>str\<close>
  raised, or \<^verbatim>\<open>NotImplementedError\<close>, and the counter is as before.
\<close>

theorem sign_outcome:
  assumes "\<And>r. printable (ft r)"
  shows "case artifact_sign cy ft now kind payload s of
     (Inr a, s') \<Rightarrow> encodable (YDict payload) \<and> software_stub s \<and> as_sequence s' = as_sequence s + 1 \<and>
       (\<exists>ctext. canonical ft payload = Inr ctext \<and> list_all (\<lambda>b. 32 \<le> unat b \<and> unat b \<le> 126) ctext \<and>
          sa_payload_digest a = hexdigest (cy_sha256 cy ctext) \<and>
          sa_signature a = hmac (cy_sha256 cy) (as_private_key s) ctext)
   | (Inl e, s') \<Rightarrow> s' = s \<and>
       (if encodable (YDict payload) then \<not> software_stub s \<and> e = NotImplementedError ''openssl35 DSA signing not yet wired''
        else e = not_sortable \<or> e \<in> set (str_errors (YDict payload)))"
proof (cases "canonical ft payload")
  case (Inl e)
  with canonical_outcome [where ft = ft and payload = payload, OF assms] show ?thesis
    by (simp add: artifact_sign_def del: encodable.simps str_errors.simps)
next
  case (Inr ctext)
  with canonical_outcome [where ft = ft and payload = payload, OF assms] show ?thesis
    by (simp add: artifact_sign_def sign_artifact_def Let_def del: encodable.simps)
qed

text \<open>Two payloads: one with a value that is no JSON, and one whose keys cannot be sorted.\<close>

definition example_payload :: payload_dict where
  "example_payload = [(KStr ''when'', YObject (Inr ''2025-01-01'')), (KStr ''ranks'', YDict [(KInt 2, YNone), (KBool True, YInt 1)])]"

definition unsorted_payload :: payload_dict where
  "unsorted_payload = [(KStr ''ranks'', YDict [(KInt 2, YNone), (KStr ''a'', YNone)])]"

lemma example_payload_text:
  "canonical (\<lambda>_. []) example_payload = Inr (encode
     (''{'' @ json_string ''ranks'' @ '': {'' @ json_string ''true'' @ '': 1, '' @ json_string ''2'' @ '': null}, '' @
      json_string ''when'' @ '': '' @ json_string ''2025-01-01'' @ ''}''))"
  by code_simp

definition example_profile :: pqc_profile where
  "example_profile = \<lparr>pq_backend = ''software-stub'', pq_signer_id = ''n''\<rparr>"

theorem sign_outcome_witness:
  "(\<exists>a s'. artifact_sign example_crypto (\<lambda>_. []) NaN ''policy_update'' example_payload (signer_init example_profile [7] [7]) = (Inr a, s') \<and>
      encodable (YDict example_payload)) \<and>
   artifact_sign example_crypto (\<lambda>_. []) NaN ''policy_update'' unsorted_payload (signer_init example_profile [7] [7]) =
     (Inl not_sortable, signer_init example_profile [7] [7])"
proof -
  let ?s = "signer_init example_profile [7] [7]"
  have p: "printable ((\<lambda>_. []) r)" for r :: rat by simp
  have stub: "software_stub ?s" by (simp add: signer_init_def example_profile_def)
  obtain a where a: "artifact_sign example_crypto (\<lambda>_. []) NaN ''policy_update'' example_payload ?s =
      (Inr a, ?s\<lparr>as_sequence := as_sequence ?s + 1\<rparr>)" using artifact_sign_stub [OF stub example_payload_text] by blast
  have "encodable (YDict example_payload)"
    using sign_outcome [where ft = "\<lambda>_. []" and cy = example_crypto and now = NaN and kind = "''policy_update''" and payload = example_payload and s = ?s, OF p] a
    by (simp del: encodable.simps)
  moreover have no: "\<not> encodable (YDict unsorted_payload)" "str_errors (YDict unsorted_payload) = []" by code_simp+
  obtain r s' where r: "artifact_sign example_crypto (\<lambda>_. []) NaN ''policy_update'' unsorted_payload ?s = (r, s')" by fastforce
  from sign_outcome [where ft = "\<lambda>_. []" and cy = example_crypto and now = NaN and kind = "''policy_update''" and payload = unsorted_payload and s = ?s, OF p] no
  have "r = Inl not_sortable \<and> s' = ?s" unfolding r by (cases r) (simp_all del: encodable.simps str_errors.simps)
  ultimately show ?thesis using a r by blast
qed

section \<open>What verifies\<close>

text \<open>
  C29: verification of a signed artifact. A signer of the stub answers, and accepts the artifact exactly when the
  tag of its text under the private key of the signer is the tag under the public key of the verifier, and
  gives the reason when it does not; a signer of the other backend raises \<^verbatim>\<open>NotImplementedError\<close>.
\<close>

theorem sign_then_verify:
  assumes "artifact_sign cy ft now kind payload s = (Inr a, s')"
  shows "\<exists>ctext. canonical ft payload = Inr ctext \<and>
     artifact_verify cy ft v a =
       (if software_stub v
        then Inr (if hmac (cy_sha256 cy) (as_private_key s) ctext = hmac (cy_sha256 cy) (as_public_key v) ctext
          then \<lparr>vr_verified = True, vr_algorithm = ''ML-DSA-65-stub'', vr_reason = []\<rparr>
          else \<lparr>vr_verified = False, vr_algorithm = ''ML-DSA-65-stub'', vr_reason = ''signature mismatch (stub)''\<rparr>)
        else Inl (NotImplementedError ''openssl35 DSA verification not yet wired''))"
  by (rule artifact_sign_cases [OF assms]) (simp add: artifact_verify_def verify_artifact_def Let_def)

theorem sign_then_verify_witness:
  "\<exists>a s'. artifact_sign example_crypto (\<lambda>_. []) NaN ''policy_update'' example_payload (signer_init example_profile [7] [7]) =
       (Inr a, s') \<and> (\<exists>r. artifact_verify example_crypto (\<lambda>_. []) s' a = Inr r \<and> vr_verified r)"
proof -
  let ?s = "signer_init example_profile [7] [7]"
  have s: "software_stub ?s" by (simp add: signer_init_def example_profile_def)
  from artifact_sign_stub [OF this example_payload_text] obtain a where
    a: "artifact_sign example_crypto (\<lambda>_. []) NaN ''policy_update'' example_payload ?s =
      (Inr a, ?s\<lparr>as_sequence := as_sequence ?s + 1\<rparr>)" by blast
  from sign_then_verify [OF a, of "?s\<lparr>as_sequence := as_sequence ?s + 1\<rparr>"] a s show ?thesis
    by (auto simp: signer_init_def)
qed

section \<open>Keys that the profile generates\<close>

lemma generated_key_lengths:
  assumes "crypto_ok cy" and "generate_sig_keypair cy p w = (Inr (pub, priv), w')"
  shows "length pub = 32" "length priv = 64" "pq_backend p = ''software-stub''"
proof -
  show stub: "pq_backend p = ''software-stub''"
    using assms(2) by (auto simp: generate_sig_keypair_def split: if_splits)
  from assms(2) stub obtain w1 where "cy_urandom cy 32 w = (Inr pub, w1)" "cy_urandom cy 64 w1 = (Inr priv, w')"
    by (auto simp: generate_sig_keypair_def elim!: opbind_InrE)
  then show "length pub = 32" "length priv = 64" using urandom_length [OF assms(1)] by blast+
qed

text \<open>
  C30: a signer made of a key pair that the profile generates rejects every artifact that it
  signs, unless the hash has a collision among the four texts it is applied to, or the private
  key is the public key followed by 32 zero bytes. The stub signs with the private key, but
  verifies with the public one.
\<close>

theorem fresh_signer_rejects_own:
  assumes "crypto_ok cy" and "generate_sig_keypair cy p w = (Inr (pub, priv), w')"
    and "priv \<noteq> pub @ replicate 32 0"
    and "canonical ft payload = Inr ctext"
    and "inj_on (cy_sha256 cy) (hmac_inputs (cy_sha256 cy) priv ctext \<union> hmac_inputs (cy_sha256 cy) pub ctext)"
    and "artifact_sign cy ft now kind payload (signer_init p priv pub) = (Inr a, s)"
  shows "artifact_verify cy ft s a =
     Inr \<lparr>vr_verified = False, vr_algorithm = ''ML-DSA-65-stub'', vr_reason = ''signature mismatch (stub)''\<rparr>"
proof -
  note len = generated_key_lengths [OF assms(1,2)]
  have key: "hmac_key (cy_sha256 cy) priv = priv" "hmac_key (cy_sha256 cy) pub = pub @ replicate 32 0"
    using len by (simp_all add: hmac_key_def HMAC_BLOCK_def)
  have "hmac (cy_sha256 cy) priv ctext \<noteq> hmac (cy_sha256 cy) pub ctext"
  proof
    assume "hmac (cy_sha256 cy) priv ctext = hmac (cy_sha256 cy) pub ctext"
    from hmac_inject [OF assms(5) _ this] key len assms(3) show False by simp
  qed
  with assms(4) show ?thesis
    by (rule_tac artifact_sign_cases [OF assms(6)])
      (simp add: artifact_verify_def verify_artifact_def signer_init_def Let_def)
qed

theorem fresh_signer_rejects_own_witness:
  "\<exists>r. artifact_verify example_crypto (\<lambda>_. []) (signer_init example_profile (replicate 64 1) (replicate 32 0)\<lparr>as_sequence := 1\<rparr>)
      (projr (fst (artifact_sign example_crypto (\<lambda>_. []) NaN ''audit_checkpoint'' [(KStr ''epoch'', YInt 5)]
         (signer_init example_profile (replicate 64 1) (replicate 32 0))))) = Inr r \<and> \<not> vr_verified r"
proof -
  let ?s = "signer_init example_profile (replicate 64 1) (replicate 32 0)" and ?p = "[(KStr ''epoch'', YInt 5)]"
  let ?sha = "cy_sha256 example_crypto"
  have ok: "crypto_ok example_crypto" by (auto simp: crypto_ok_def example_crypto_def HMAC_BLOCK_def)
  have g: "generate_sig_keypair example_crypto example_profile 0 = (Inr (replicate 32 0, replicate 64 1), 2)"
    by (simp add: generate_sig_keypair_def example_profile_def example_crypto_def opbind_def)
  have ne: "replicate 64 1 \<noteq> replicate 32 (0 :: 8 word) @ replicate 32 0"
    by (simp add: numeral_eq_Suc)
  have sha: "?sha m = take 32 m" for m by (simp add: example_crypto_def)
  have k: "hmac_key ?sha (replicate 64 1) = replicate 64 1"
    "hmac_key ?sha (replicate 32 0) = replicate 64 0"
    by (simp_all add: hmac_key_def HMAC_BLOCK_def flip: replicate_add)
  have x: "xor_bytes c (replicate n b) = replicate n (xor b c)" for c n b by (simp add: xor_bytes_def)
  have inj: "inj_on ?sha (hmac_inputs ?sha (replicate 64 1) m \<union> hmac_inputs ?sha (replicate 32 0) m)" for m
    unfolding inj_on_def hmac_inputs_def Let_def k x sha by simp
  have stub: "software_stub ?s" by (simp add: signer_init_def example_profile_def)
  have "\<exists>ctext. canonical (\<lambda>_. []) ?p = Inr ctext"
    by (simp add: canonical_def object_text_def sort_items_def sortable_def)
  then obtain ctext where ctext: "canonical (\<lambda>_. []) ?p = Inr ctext" ..
  from artifact_sign_stub [OF stub ctext] obtain a where
    a: "artifact_sign example_crypto (\<lambda>_. []) NaN ''audit_checkpoint'' ?p ?s =
      (Inr a, ?s\<lparr>as_sequence := as_sequence ?s + 1\<rparr>)" by blast
  from fresh_signer_rejects_own [OF ok g ne ctext inj a] a show ?thesis by (simp add: signer_init_def)
qed

section \<open>Changed artifacts\<close>

text \<open>
  C8: an artifact whose payload is replaced after signing by one with another canonical text is
  rejected with the reason, by every verifier, unless the hash collides on the two texts.
\<close>

theorem changed_payload_rejected:
  assumes "artifact_sign cy ft now kind payload s = (Inr a, s')" and "canonical ft payload = Inr ctext"
    and "canonical ft payload' = Inr ctext'" and "ctext' \<noteq> ctext" and "inj_on (cy_sha256 cy) {ctext, ctext'}"
  shows "artifact_verify cy ft v (a\<lparr>sa_payload := payload'\<rparr>) =
     Inr \<lparr>vr_verified = False, vr_algorithm = sa_algorithm a, vr_reason = ''payload digest mismatch''\<rparr>"
proof -
  have "cy_sha256 cy ctext' \<noteq> cy_sha256 cy ctext" using assms(4) inj_onD [OF assms(5)] by blast
  with assms(2,3) show ?thesis
    by (rule_tac artifact_sign_cases [OF assms(1)]) (simp add: artifact_verify_def Let_def)
qed

theorem changed_payload_rejected_witness:
  "\<exists>r. artifact_verify example_crypto (\<lambda>_. []) (signer_init example_profile [7] [7])
      (projr (fst (artifact_sign example_crypto (\<lambda>_. []) NaN ''policy_update'' [(KStr ''a'', YBool True)]
         (signer_init example_profile [7] [7])))\<lparr>sa_payload := [(KStr ''a'', YBool False)]\<rparr>) = Inr r \<and>
      vr_reason r = ''payload digest mismatch''"
proof -
  let ?s = "signer_init example_profile [7] [7]" and ?p = "[(KStr ''a'', YBool True)]" and ?q = "[(KStr ''a'', YBool False)]"
  let ?ctext = "\<lambda>b. encode (''{'' @ json_string ''a'' @ '': '' @ (if b then ''true'' else ''false'') @ ''}'')"
  have stub: "software_stub ?s" by (simp add: signer_init_def example_profile_def)
  have c: "canonical (\<lambda>_. []) [(KStr ''a'', YBool b)] = Inr (?ctext b)" for b
    by (simp add: canonical_def object_text_def sort_items_def sortable_def)
  from artifact_sign_stub [OF stub c] obtain a where
    a: "artifact_sign example_crypto (\<lambda>_. []) NaN ''policy_update'' ?p ?s =
      (Inr a, ?s\<lparr>as_sequence := as_sequence ?s + 1\<rparr>)" by blast
  have j: "json_string ''a'' = [double_quote, CHR ''a'', double_quote]" by code_simp
  have ne: "?ctext False \<noteq> ?ctext True" "take 32 (?ctext False) \<noteq> take 32 (?ctext True)" by (simp_all add: j encode_def)
  then have "inj_on (cy_sha256 example_crypto) {?ctext True, ?ctext False}"
    by (auto simp: inj_on_def example_crypto_def)
  from changed_payload_rejected [OF a c c ne(1) this] a show ?thesis by simp
qed

text \<open>
  Verification looks at the payload, its digest and the signature only. An artifact with
  another kind, signer, time, version or sequence number verifies as the original does, so a
  signature made for one kind of artifact is accepted for every other, and an old artifact is
  accepted at any later time.
\<close>

theorem verify_ignores_metadata:
  "artifact_verify cy ft v (a\<lparr>sa_artifact_kind := kind', sa_signer_id := signer_id', sa_signed_at := now',
        sa_manifest_version := version', sa_sequence := sequence', sa_notes := notes'\<rparr>) =
     artifact_verify cy ft v a"
  by (simp add: artifact_verify_def Let_def cong: if_cong)

section \<open>Order and numbering\<close>

text \<open>
  C38: the digest and the signature of an artifact do not depend on the insertion order of the dictionaries in its
  payload: a payload with the same entries in every dictionary that JSON writes as one, in whatever order they were
  inserted, and with objects that have the same \<^verbatim>\<open>str\<close>, has the same digest and signature, and an artifact
  that carries it verifies as the original does.
\<close>

theorem signature_order_independent:
  assumes "sorted_payload (YDict payload) = sorted_payload (YDict payload')"
    and "artifact_sign cy ft now kind payload s = (Inr a, s')"
  shows "artifact_sign cy ft now kind payload' s = (Inr (a\<lparr>sa_payload := payload'\<rparr>), s') \<and>
     artifact_verify cy ft v (a\<lparr>sa_payload := payload'\<rparr>) = artifact_verify cy ft v a"
proof -
  have c: "canonical ft payload' = canonical ft payload"
    unfolding canonical_def using json_text_same_payload [OF assms(1)] by simp
  have "artifact_sign cy ft now kind payload' s = (Inr (a\<lparr>sa_payload := payload'\<rparr>), s')"
    using assms(2) by (auto simp: artifact_sign_def c Let_def split: sum.splits)
  moreover have "artifact_verify cy ft v (a\<lparr>sa_payload := payload'\<rparr>) = artifact_verify cy ft v a"
    by (rule artifact_sign_cases [OF assms(2)]) (simp add: artifact_verify_def c)
  ultimately show ?thesis ..
qed

theorem signature_order_independent_witness:
  "snd (artifact_sign example_crypto (\<lambda>_. []) NaN ''policy_update'' (rev example_payload) (signer_init example_profile [7] [7])) =
   snd (artifact_sign example_crypto (\<lambda>_. []) NaN ''policy_update'' example_payload (signer_init example_profile [7] [7]))"
proof -
  let ?s = "signer_init example_profile [7] [7]"
  have eq: "sorted_payload (YDict example_payload) = sorted_payload (YDict (rev example_payload))" by code_simp
  have stub: "software_stub ?s" by (simp add: signer_init_def example_profile_def)
  from artifact_sign_stub [OF this example_payload_text] obtain a where
    a: "artifact_sign example_crypto (\<lambda>_. []) NaN ''policy_update'' example_payload ?s =
      (Inr a, ?s\<lparr>as_sequence := as_sequence ?s + 1\<rparr>)" by blast
  from signature_order_independent [OF eq a] a show ?thesis by simp
qed

text \<open>
  Of an object the text under \<^verbatim>\<open>str\<close> is signed, with whatever order it shows: an object that holds a dictionary
  has another digest when the dictionary was filled in another order.
\<close>

theorem object_order_signed:
  "canonical ft [(KStr ''state'', YObject (Inr ''Box(a=1, b=2)''))] \<noteq>
   canonical ft [(KStr ''state'', YObject (Inr ''Box(b=2, a=1)''))]"
proof -
  let ?ctext = "\<lambda>shown. encode (''{'' @ json_string ''state'' @ '': '' @ json_string shown @ ''}'')"
  have "canonical ft [(KStr ''state'', YObject (Inr shown))] = Inr (?ctext shown)" for shown
    by (simp add: canonical_def object_text_def sort_items_def sortable_def)
  moreover have "?ctext ''Box(a=1, b=2)'' \<noteq> ?ctext ''Box(b=2, a=1)''" by code_simp
  ultimately show ?thesis by simp
qed

fun sign_all :: "'w crypto \<Rightarrow> (rat \<Rightarrow> string) \<Rightarrow> (pyfloat \<times> string \<times> payload_dict) list \<Rightarrow> artifact_signer
    \<Rightarrow> (py_exn + signed_artifact) list \<times> artifact_signer" where
  "sign_all cy ft [] s = ([], s)"
| "sign_all cy ft ((now, kind, payload) # calls) s =
     (let (r, s1) = artifact_sign cy ft now kind payload s; (rs, s2) = sign_all cy ft calls s1
      in (r # rs, s2))"

lemma sign_all_numbers:
  "\<forall>(now, kind, payload) \<in> set calls. \<exists>ctext. canonical ft payload = Inr ctext \<Longrightarrow> sign_all cy ft calls s = (rs, s') \<Longrightarrow>
     (if software_stub s
      then (\<exists>as. rs = map Inr as \<and> map sa_sequence as = map (\<lambda>i. as_sequence s + int i) [1..<Suc (length calls)] \<and>
        s' = s\<lparr>as_sequence := as_sequence s + int (length calls)\<rparr>)
      else rs = replicate (length calls) (Inl (NotImplementedError ''openssl35 DSA signing not yet wired'')) \<and> s' = s)"
proof (induction calls arbitrary: s rs s')
  case Nil
  then show ?case by auto
next
  case (Cons c calls)
  obtain now kind payload where c: "c = (now, kind, payload)" by (cases c)
  with Cons.prems(1) obtain ctext where ctext: "canonical ft payload = Inr ctext" by auto
  have calls: "\<forall>(now, kind, payload) \<in> set calls. \<exists>ctext. canonical ft payload = Inr ctext" using Cons.prems(1) by simp
  show ?case
  proof (cases "software_stub s")
    case False
    obtain rs1 s1 where r: "sign_all cy ft calls s = (rs1, s1)" by fastforce
    from Cons.IH [OF calls r] False r Cons.prems(2) artifact_sign_unwired [OF False ctext, of cy now kind] show ?thesis
      by (auto simp: c Let_def)
  next
    case True
    let ?t = "s\<lparr>as_sequence := as_sequence s + 1\<rparr>"
    from artifact_sign_stub [OF True ctext] obtain a where a: "artifact_sign cy ft now kind payload s = (Inr a, ?t)" by blast
    obtain rs1 s1 where r: "sign_all cy ft calls ?t = (rs1, s1)" by fastforce
    with Cons.IH [OF calls r] True obtain as where as: "rs1 = map Inr as"
      "map sa_sequence as = map (\<lambda>i. as_sequence s + 1 + int i) [1..<Suc (length calls)]"
      "s1 = s\<lparr>as_sequence := as_sequence s + 1 + int (length calls)\<rparr>" by auto
    have "map (\<lambda>i. as_sequence s + int i) [1..<Suc (length (c # calls))] =
        (as_sequence s + 1) # map (\<lambda>i. as_sequence s + int i) (map Suc [1..<Suc (length calls)])"
      by (simp add: upt_conv_Cons map_Suc_upt del: upt_Suc)
    moreover have "sa_sequence a = as_sequence s + 1" by (rule artifact_sign_cases [OF a])
    ultimately have "map sa_sequence (a # as) = map (\<lambda>i. as_sequence s + int i) [1..<Suc (length (c # calls))]"
      using as(2) by (simp add: comp_def algebra_simps del: upt_Suc)
    with True a r as Cons.prems(2) show ?thesis
      by (auto simp: c intro!: exI [of _ "a # as"])
  qed
qed

text \<open>
  Over any sequence of signings of encodable payloads a signer of the stub succeeds each time and numbers its
  artifacts one by one, without gap or repetition; a signer of another backend never succeeds and
  uses up no number.
\<close>

theorem signer_numbers_artifacts:
  assumes "\<forall>(now, kind, payload) \<in> set calls. \<exists>ctext. canonical ft payload = Inr ctext"
  shows "\<exists>rs s'. sign_all cy ft calls s = (rs, s') \<and>
     (if software_stub s
      then (\<exists>as. rs = map Inr as \<and> map sa_sequence as = map (\<lambda>i. as_sequence s + int i) [1..<Suc (length calls)] \<and>
        s' = s\<lparr>as_sequence := as_sequence s + int (length calls)\<rparr>)
      else rs = replicate (length calls) (Inl (NotImplementedError ''openssl35 DSA signing not yet wired'')) \<and> s' = s)"
proof -
  obtain rs s' where r: "sign_all cy ft calls s = (rs, s')" by fastforce
  from sign_all_numbers [OF assms r] r show ?thesis by blast
qed

theorem signer_numbers_artifacts_witness:
  "\<exists>a b s'. sign_all example_crypto (\<lambda>_. []) [(NaN, ''policy_update'', example_payload), (NaN, ''policy_update'', example_payload)]
     (signer_init example_profile [7] [7]) = ([Inr a, Inr b], s') \<and> sa_sequence a = 1 \<and> sa_sequence b = 2"
proof -
  let ?calls = "[(NaN, ''policy_update'', example_payload), (NaN, ''policy_update'', example_payload)]"
  let ?s = "signer_init example_profile [7] [7]"
  have c: "\<forall>(now, kind, payload) \<in> set ?calls. \<exists>ctext. canonical (\<lambda>_. []) payload = Inr ctext"
    using example_payload_text by simp
  have "software_stub ?s" "as_sequence ?s = 0" by (simp_all add: signer_init_def example_profile_def)
  with signer_numbers_artifacts [OF c, of example_crypto ?s] show ?thesis
    by (auto simp del: sign_all.simps)
qed

end
