(* ===== verification/Concurrent_Signer.thy ===== *)
theory Concurrent_Signer
  imports Artifact_Signer Coroutine
begin

text \<open>
  \<^verbatim>\<open>gaia_server/security/artifact_signer.py\<close>, \<^verbatim>\<open>sign\<close> called by several threads on one signer. The
  counter is read, incremented and stored again by one statement, and read once more in the next, after the
  call of the clock; nothing keeps another thread out between these steps. Shown: a signature that is made
  alone is the one of \<open>Artifact_Signer\<close>; whatever the interleaving, the counter and the numbers stay above the
  old count and within the number of signatures; but signatures made at the same time can carry the
  same number, and increments can be lost, after which numbers are given a second time.
\<close>

section \<open>Signing in steps\<close>

definition make_signature :: "'w crypto \<Rightarrow> (rat \<Rightarrow> string) \<Rightarrow> payload_dict \<Rightarrow> (artifact_signer, string \<times> signature_result) op" where
  "make_signature cy ft payload = (\<lambda>s.
     (ebind (canonical ft payload) (\<lambda>text.
      ebind (sign_artifact cy (as_pqc s) (as_private_key s) text) (\<lambda>sig_result.
        Inr (hexdigest (cy_sha256 cy text), sig_result))), s))"

definition read_sequence :: "(artifact_signer, int) op" where
  "read_sequence = (\<lambda>s. (Inr (as_sequence s), s))"

definition store_sequence :: "int \<Rightarrow> (artifact_signer, unit) op" where
  "store_sequence n = (\<lambda>s. (Inr (), s\<lparr>as_sequence := n\<rparr>))"

definition make_artifact :: "pyfloat \<Rightarrow> string \<Rightarrow> payload_dict \<Rightarrow> string \<times> signature_result
    \<Rightarrow> (artifact_signer, signed_artifact) op" where
  "make_artifact now artifact_kind payload = (\<lambda>(digest, sig_result) s. (Inr
     \<lparr>sa_artifact_kind = artifact_kind, sa_payload_digest = digest,
      sa_payload = payload, sa_signature = sg_signature sig_result, sa_algorithm = sg_algorithm sig_result,
      sa_signer_id = (if sg_signer_id sig_result \<noteq> [] then sg_signer_id sig_result else pq_signer_id (as_pqc s)),
      sa_signed_at = now, sa_manifest_version = 1, sa_sequence = as_sequence s,
      sa_kem_metadata = ''ML-KEM-768'', sa_notes = []\<rparr>, s))"

definition co_sign :: "'w crypto \<Rightarrow> (rat \<Rightarrow> string) \<Rightarrow> pyfloat \<Rightarrow> string \<Rightarrow> payload_dict
    \<Rightarrow> (artifact_signer, signed_artifact) task" where
  "co_sign cy ft now artifact_kind payload =
     cobind (cocall (make_signature cy ft payload)) (\<lambda>signature.
     cobind (cocall read_sequence) (\<lambda>n.
     cobind (cocall (store_sequence (n + 1))) (\<lambda>_.
     cocall (make_artifact now artifact_kind payload signature))))"

text \<open>A signature that is made alone.\<close>

lemma co_sign_alone: "run_coro (co_sign cy ft now kind payload) = artifact_sign cy ft now kind payload"
  by (rule ext) (simp add: co_sign_def coro_runs opbind_def make_signature_def read_sequence_def store_sequence_def
      make_artifact_def artifact_sign_def Let_def ebind_def split: sum.split)

section \<open>The steps of a pool of signatures\<close>

text \<open>
  Where a thread is: before its signature, before it reads the counter, before it stores the number above the one
  it has read, before it reads the counter again, or at its end, with the number it got or an error.
\<close>

datatype phase = Begins | Counts | Stores int | Reads | Ends "int option"

inductive in_phase :: "'w crypto \<Rightarrow> (rat \<Rightarrow> string) \<Rightarrow> (artifact_signer, py_exn + signed_artifact) coro \<Rightarrow> phase \<Rightarrow> bool"
  for cy ft where
  begins: "in_phase cy ft (co_sign cy ft now kind payload) Begins"
| counts: "in_phase cy ft (cobind (cocall read_sequence) (\<lambda>n.
     cobind (cocall (store_sequence (n + 1))) (\<lambda>_. cocall (make_artifact now kind payload sig)))) Counts"
| stores: "in_phase cy ft (cobind (cocall (store_sequence (n + 1))) (\<lambda>_. cocall (make_artifact now kind payload sig))) (Stores n)"
| reads: "in_phase cy ft (cocall (make_artifact now kind payload sig)) Reads"
| ends: "in_phase cy ft (Done r) (Ends (case r of Inl e \<Rightarrow> None | Inr a \<Rightarrow> Some (sa_sequence a)))"

inductive_cases in_phase_DoneE: "in_phase cy ft (Done r) p"

text \<open>Whether a thread has stored its number.\<close>

definition counted :: "phase \<Rightarrow> bool" where
  "counted p = (case p of Reads \<Rightarrow> True | Ends (Some n) \<Rightarrow> True | _ \<Rightarrow> False)"

text \<open>How a step of a thread changes the counter.\<close>

inductive phase_next :: "int \<Rightarrow> phase \<Rightarrow> phase \<Rightarrow> int \<Rightarrow> bool" where
  signing: "phase_next n Begins Counts n"
| failing: "phase_next n Begins (Ends None) n"
| reading: "phase_next n Counts (Stores n) n"
| storing: "phase_next n (Stores m) Reads (m + 1)"
| ending: "phase_next n Reads (Ends (Some n)) n"

lemma cocall_bind_step: "cobind (cocall m) k = Step (\<lambda>w. map_prod (\<lambda>r. case r of Inl e \<Rightarrow> Done (Inl e) | Inr x \<Rightarrow> k x) id (m w))"
  by (simp add: cobind_def cocall_def cothen_Step fun_eq_iff map_prod_def case_prod_unfold)

lemma phase_step:
  assumes "in_phase cy ft (Step f) p" and "f s = (c, s')"
  shows "\<exists>q. in_phase cy ft c q \<and> phase_next (as_sequence s) p q (as_sequence s')"
  using assms(1)
proof cases
  case (begins now kind payload)
  let ?sig = "fst (make_signature cy ft payload s)"
  let ?rest = "\<lambda>sig. cobind (cocall read_sequence) (\<lambda>n.
     cobind (cocall (store_sequence (n + 1))) (\<lambda>_. cocall (make_artifact now kind payload sig)))"
  have f: "f s = (case ?sig of Inl e \<Rightarrow> Done (Inl e) | Inr sig \<Rightarrow> ?rest sig, s)"
  proof -
    have "Step f = cobind (cocall (make_signature cy ft payload)) ?rest" using begins(1) by (simp only: co_sign_def)
    then have "f = (\<lambda>w. map_prod (\<lambda>r. case r of Inl e \<Rightarrow> Done (Inl e) | Inr x \<Rightarrow> ?rest x) id (make_signature cy ft payload w))"
      unfolding cocall_bind_step [of "make_signature cy ft payload" ?rest] by (rule coro.inject(2) [THEN iffD1])
    then show ?thesis by (simp add: make_signature_def)
  qed
  show ?thesis
  proof (cases ?sig)
    case (Inl e)
    with f assms(2) have "c = Done (Inl e)" "s' = s" by simp_all
    with in_phase.ends [of cy ft "Inl e"] begins(2) show ?thesis by (auto intro: phase_next.failing)
  next
    case (Inr sig)
    with f assms(2) in_phase.counts have "in_phase cy ft c Counts" "s' = s" by simp_all
    with begins(2) show ?thesis by (auto intro: phase_next.signing)
  qed
next
  case (counts now kind payload sig)
  then have "c = cobind (cocall (store_sequence (as_sequence s + 1))) (\<lambda>_. cocall (make_artifact now kind payload sig))" "s' = s"
    using assms(2) by (auto simp: cocall_bind_step read_sequence_def)
  with counts(2) show ?thesis by (metis in_phase.stores phase_next.reading)
next
  case (stores n now kind payload sig)
  then have "c = cocall (make_artifact now kind payload sig)" "as_sequence s' = n + 1"
    using assms(2) by (auto simp: cocall_bind_step store_sequence_def)
  with stores(2) show ?thesis by (metis in_phase.reads phase_next.storing)
next
  case (reads now kind payload sig)
  then have c: "c = Done (fst (make_artifact now kind payload sig s))" "s' = s"
    using assms(2) by (auto simp: cocall_def make_artifact_def split: prod.splits)
  moreover have "\<exists>a. fst (make_artifact now kind payload sig s) = Inr a \<and> sa_sequence a = as_sequence s"
    by (simp add: make_artifact_def split: prod.split)
  ultimately have "in_phase cy ft c (Ends (Some (as_sequence s)))"
    using in_phase.ends [of cy ft "fst (make_artifact now kind payload sig s)"] by auto
  with reads(2) c(2) show ?thesis by (auto intro: phase_next.ending)
qed


text \<open>Every number in the pool, and the counter, are at most the old count and the number of stores.\<close>

definition in_range :: "int \<Rightarrow> int \<Rightarrow> phase \<Rightarrow> bool" where
  "in_range start k p = (case p of
     Stores n \<Rightarrow> start \<le> n \<and> n \<le> start + k
   | Ends (Some n) \<Rightarrow> start < n \<and> n \<le> start + k
   | _ \<Rightarrow> True)"

definition phases_of :: "'w crypto \<Rightarrow> (rat \<Rightarrow> string) \<Rightarrow> int \<Rightarrow> (artifact_signer, py_exn + signed_artifact) pool
    \<Rightarrow> phase list \<Rightarrow> bool" where
  "phases_of cy ft start pool ps \<longleftrightarrow> list_all2 (in_phase cy ft) (fst pool) ps \<and>
     (let k = int (length (filter counted ps)); n = as_sequence (snd pool)
      in start \<le> n \<and> n \<le> start + k \<and> (0 < k \<longrightarrow> start < n) \<and> list_all (in_range start k) ps)"

lemma in_range_mono: "in_range start k p \<Longrightarrow> k \<le> k' \<Longrightarrow> in_range start k' p"
  by (auto simp: in_range_def split: phase.splits option.splits)

lemma phase_next_range:
  assumes "phase_next n p q n'" and "in_range start k p" and "start \<le> n" "n \<le> start + k"
    and "0 < k \<longrightarrow> start < n" and "counted p \<longrightarrow> 0 < k"
  shows "(counted p \<longrightarrow> counted q) \<and> in_range start (k + of_bool (counted q \<and> \<not> counted p)) q \<and>
     start \<le> n' \<and> n' \<le> start + k + of_bool (counted q \<and> \<not> counted p) \<and>
     (0 < k + of_bool (counted q \<and> \<not> counted p) \<longrightarrow> start < n')"
  using assms by (cases rule: phase_next.cases) (auto simp: counted_def in_range_def)

lemma filter_counted_update:
  assumes "i < length ps" and "counted (ps ! i) \<longrightarrow> counted q"
  shows "length (filter counted (ps[i := q])) =
    length (filter counted ps) + of_bool (counted q \<and> \<not> counted (ps ! i))"
  using assms by (induction ps arbitrary: i) (auto split: nat.split simp: nth_Cons less_Suc_eq_0_disj)

lemma phases_step:
  assumes "pool_step (cs, s) (cs', s')" and "phases_of cy ft start (cs, s) ps"
  shows "\<exists>ps'. phases_of cy ft start (cs', s') ps'"
  using assms(1)
proof (rule pool_stepE)
  fix i f c s''
  assume st: "(cs', s') = (cs[i := c], s'')" "i < length cs" "cs ! i = Step f" "f s = (c, s'')"
  let ?k = "int (length (filter counted ps))" and ?p = "ps ! i"
  have l: "i < length ps" and ph: "in_phase cy ft (Step f) ?p"
    using assms(2) st(2,3) by (auto simp: phases_of_def list_all2_conv_all_nth)
  from phase_step [OF ph st(4)] obtain q where
    q: "in_phase cy ft c q" "phase_next (as_sequence s) ?p q (as_sequence s'')" by blast
  let ?k' = "?k + of_bool (counted q \<and> \<not> counted ?p)"
  have "counted ?p \<longrightarrow> 0 < ?k"
  proof
    assume "counted ?p"
    then have "?p \<in> set (filter counted ps)" using l by simp
    then show "0 < ?k" by (metis length_pos_if_in_set of_nat_0_less_iff)
  qed
  with assms(2) l have r: "(counted ?p \<longrightarrow> counted q) \<and> in_range start ?k' q \<and>
     start \<le> as_sequence s'' \<and> as_sequence s'' \<le> start + ?k' \<and> (0 < ?k' \<longrightarrow> start < as_sequence s'')"
    using phase_next_range [OF q(2), of start ?k] by (simp add: phases_of_def Let_def list_all_length)
  have "list_all2 (in_phase cy ft) (cs[i := c]) (ps[i := q])"
    using assms(2) q(1) by (intro list_all2_update_cong) (simp_all add: phases_of_def)
  moreover have "int (length (filter counted (ps[i := q]))) = ?k'"
    using filter_counted_update [OF l] r by simp
  moreover have "list_all (in_range start ?k') (ps[i := q])"
  proof -
    have "in_range start ?k p" if "p \<in> set ps" for p
      using assms(2) that by (simp add: phases_of_def Let_def list_all_iff)
    then have "in_range start ?k' p" if "p \<in> set ps" for p using that in_range_mono by fastforce
    with r show ?thesis using set_update_subset_insert [of ps i q] by (auto simp: list_all_iff)
  qed
  ultimately have "phases_of cy ft start (cs', s') (ps[i := q])"
    using st(1) r by (simp add: phases_of_def Let_def)
  then show ?thesis ..
qed

definition sign_tasks :: "'w crypto \<Rightarrow> (rat \<Rightarrow> string) \<Rightarrow> (pyfloat \<times> string \<times> payload_dict) list
    \<Rightarrow> (artifact_signer, py_exn + signed_artifact) coro list" where
  "sign_tasks cy ft calls = map (\<lambda>(now, kind, payload). co_sign cy ft now kind payload) calls"

lemma phases_run:
  assumes "pool_run (sign_tasks cy ft calls, s) (cs, s')"
  shows "\<exists>ps. phases_of cy ft (as_sequence s) (cs, s') ps"
  using assms
proof (induction rule: rtranclp_induct2)
  case refl
  have "phases_of cy ft (as_sequence s) (sign_tasks cy ft calls, s) (replicate (length calls) Begins)"
    by (auto simp: phases_of_def sign_tasks_def list_all2_conv_all_nth list_all_length counted_def in_range_def Let_def
        in_phase.intros split: prod.split)
  then show ?case ..
next
  case (step ds t es u)
  from step.IH obtain ps where "phases_of cy ft (as_sequence s) (ds, t) ps" ..
  with step.hyps(2) show ?case by (rule phases_step)
qed


section \<open>Properties\<close>

definition signed :: "('w, py_exn + 'a) coro \<Rightarrow> bool" where
  "signed c = (case c of Done (Inr a) \<Rightarrow> True | _ \<Rightarrow> False)"

lemma in_phase_signed: "in_phase cy ft (Done r) p \<Longrightarrow> counted p = signed (Done r :: (artifact_signer, _) coro)"
  by (erule in_phase_DoneE) (auto simp: counted_def signed_def co_sign_def cocall_def cobind_def split: sum.splits)

lemma settled_counted:
  assumes "list_all2 (in_phase cy ft) cs ps" and "settled cs"
  shows "length (filter counted ps) = length (filter signed cs)"
  using assms
proof (induction rule: list_all2_induct)
  case (Cons c cs p ps)
  then obtain r where "c = Done r" by (auto simp: settled_def)
  with Cons in_phase_signed [of cy ft r p] show ?case by (simp add: settled_def)
qed simp

text \<open>
  C31: the counter and the numbers under any interleaving. When any number of threads sign with one signer, the
  counter never falls below the old count, and it and the number of every artifact stay within the old count
  and the number of threads; the numbers are above the old count. When all have ended, they are
  within the number of artifacts that were signed, and the counter is above the old count if there is one.
\<close>

theorem signatures_bounded:
  assumes "pool_run (sign_tasks cy ft calls, s) (cs, s')"
  shows "as_sequence s \<le> as_sequence s' \<and> as_sequence s' \<le> as_sequence s + int (length calls) \<and>
     (\<forall>a. Done (Inr a) \<in> set cs \<longrightarrow> as_sequence s < sa_sequence a \<and> sa_sequence a \<le> as_sequence s + int (length calls)) \<and>
     (settled cs \<longrightarrow> as_sequence s' \<le> as_sequence s + int (length (filter signed cs)) \<and>
        (filter signed cs \<noteq> [] \<longrightarrow> as_sequence s < as_sequence s') \<and>
        (\<forall>a. Done (Inr a) \<in> set cs \<longrightarrow> sa_sequence a \<le> as_sequence s + int (length (filter signed cs))))"
proof -
  from phases_run [OF assms] obtain ps where l: "list_all2 (in_phase cy ft) cs ps"
    and k: "as_sequence s \<le> as_sequence s'" "as_sequence s' \<le> as_sequence s + int (length (filter counted ps))"
      "0 < length (filter counted ps) \<Longrightarrow> as_sequence s < as_sequence s'"
    and r: "\<And>p. p \<in> set ps \<Longrightarrow> in_range (as_sequence s) (int (length (filter counted ps))) p"
    by (auto simp: phases_of_def Let_def list_all_iff)
  have num: "as_sequence s < sa_sequence a \<and> sa_sequence a \<le> as_sequence s + int (length (filter counted ps))"
    if "Done (Inr a) \<in> set cs" for a
  proof -
    from that obtain i where i: "i < length cs" "cs ! i = Done (Inr a)" by (auto simp: in_set_conv_nth)
    with l have "in_phase cy ft (Done (Inr a)) (ps ! i)" "i < length ps"
      by (metis list_all2_nthD list_all2_lengthD)+
    then have "ps ! i = Ends (Some (sa_sequence a))"
      by (elim in_phase_DoneE) (auto simp: co_sign_def cocall_def cobind_def)
    with r [OF nth_mem [OF \<open>i < length ps\<close>]] show ?thesis by (simp add: in_range_def)
  qed
  have "length (filter counted ps) \<le> length calls"
    using list_all2_lengthD [OF l] pool_run_length [OF assms] length_filter_le [of counted ps]
    by (simp add: sign_tasks_def)
  with k num settled_counted [OF l] show ?thesis by fastforce
qed

lemmas sign_steps = sign_tasks_def co_sign_def cocall_bind_step make_signature_def read_sequence_def store_sequence_def

text \<open>
  C32: numbers repeat. Two threads that sign at the same time can get artifacts with the same
  number: both count before either reads the counter.
\<close>

theorem sequence_numbers_repeat:
  assumes "software_stub s" and "canonical ft payload1 = Inr text1" and "canonical ft payload2 = Inr text2"
  shows "\<exists>a b s'. pool_run (sign_tasks cy ft [(now1, kind1, payload1), (now2, kind2, payload2)], s)
       ([Done (Inr a), Done (Inr b)], s') \<and>
     sa_payload a = payload1 \<and> sa_payload b = payload2 \<and> sa_sequence a = sa_sequence b"
proof -
  let ?pool = "(sign_tasks cy ft [(now1, kind1, payload1), (now2, kind2, payload2)], s)"
  have "pool_run ?pool (fold turn [0, 1, 0, 0, 1, 1, 0, 1] ?pool)"
    by (rule turns_run) (simp add: sign_tasks_def)
  moreover obtain a b s' where "fold turn [0, 1, 0, 0, 1, 1, 0, 1] ?pool = ([Done (Inr a), Done (Inr b)], s')"
      "sa_payload a = payload1" "sa_payload b = payload2" "sa_sequence a = sa_sequence b"
    using assms by (simp add: sign_steps sign_artifact_def) (simp add: cocall_def make_artifact_def)
  ultimately show ?thesis
    by (rule_tac exI [of _ a], rule_tac exI [of _ b], rule_tac exI [of _ s']) simp
qed

text \<open>
  C28: increments are lost. A thread that has read the counter before two others have signed, and stores after them, puts it
  back: three artifacts have been signed, the counter has grown by one, and the next
  signature, made when all three have ended, gets the number of one of them.
\<close>

theorem increments_lost:
  assumes "software_stub s" and "canonical ft payload1 = Inr text1" and "canonical ft payload2 = Inr text2"
    and "canonical ft payload3 = Inr text3"
  shows "\<exists>a b c s'. pool_run (sign_tasks cy ft [(now1, kind1, payload1), (now2, kind2, payload2), (now3, kind3, payload3)], s)
       ([Done (Inr a), Done (Inr b), Done (Inr c)], s') \<and>
     as_sequence s' = as_sequence s + 1 \<and> sa_sequence c = as_sequence s + 2 \<and>
     (\<forall>now kind payload d s''. artifact_sign cy ft now kind payload s' = (Inr d, s'') \<longrightarrow> sa_sequence d = sa_sequence c)"
proof -
  let ?pool = "(sign_tasks cy ft [(now1, kind1, payload1), (now2, kind2, payload2), (now3, kind3, payload3)], s)"
  let ?turns = "[0, 0, 1, 1, 1, 1, 2, 2, 2, 2, 0, 0]"
  have "pool_run ?pool (fold turn ?turns ?pool)"
    by (rule turns_run) (simp add: sign_tasks_def)
  moreover obtain a b c s' where e: "fold turn ?turns ?pool = ([Done (Inr a), Done (Inr b), Done (Inr c)], s')"
      "as_sequence s' = as_sequence s + 1" "sa_sequence c = as_sequence s + 2"
    using assms by (simp add: sign_steps sign_artifact_def) (simp add: cocall_def make_artifact_def)
  moreover have "sa_sequence d = sa_sequence c" if "artifact_sign cy ft now kind payload s' = (Inr d, s'')" for now kind payload d s''
    by (rule artifact_sign_cases [OF that]) (simp add: e)
  ultimately show ?thesis
    by (rule_tac exI [of _ a], rule_tac exI [of _ b], rule_tac exI [of _ c], rule_tac exI [of _ s']) simp
qed


abbreviation fresh_signer :: artifact_signer where
  "fresh_signer \<equiv> signer_init example_profile [7] [7]"

lemma fresh_signer_stub: "software_stub fresh_signer"
  by (simp add: signer_init_def example_profile_def)

abbreviation example_call :: "pyfloat \<times> string \<times> payload_dict" where
  "example_call \<equiv> (NaN, ''policy_update'', example_payload)"

theorem signatures_bounded_witness:
  "\<exists>a s'. pool_run (sign_tasks example_crypto (\<lambda>_. []) [example_call], fresh_signer) ([Done (Inr a)], s') \<and>
     sa_sequence a = as_sequence fresh_signer + 1 \<and> as_sequence s' = as_sequence fresh_signer + 1"
proof -
  let ?cs = "sign_tasks example_crypto (\<lambda>_. []) [example_call]"
  obtain a s' where "artifact_sign example_crypto (\<lambda>_. []) NaN ''policy_update'' example_payload fresh_signer = (Inr a, s')"
    using artifact_sign_stub [OF fresh_signer_stub example_payload_text] by blast
  then have "run_coro (?cs ! 0) fresh_signer = (Inr a, s')" by (simp add: sign_tasks_def co_sign_alone)
  from pool_run_alone [OF _ refl this] have r: "pool_run (?cs, fresh_signer) ([Done (Inr a)], s')"
    by (simp add: sign_tasks_def)
  from signatures_bounded [OF r] have "sa_sequence a = as_sequence fresh_signer + 1"
    "as_sequence s' = as_sequence fresh_signer + 1" by (auto simp: settled_def signed_def)
  with r show ?thesis by blast
qed

theorem sequence_numbers_repeat_witness:
  "\<exists>a b s'. pool_run (sign_tasks example_crypto (\<lambda>_. []) [example_call, example_call], fresh_signer)
       ([Done (Inr a), Done (Inr b)], s') \<and> sa_sequence a = sa_sequence b"
  using sequence_numbers_repeat [OF fresh_signer_stub example_payload_text example_payload_text,
      of example_crypto NaN "''policy_update''" NaN "''policy_update''"] by blast

theorem increments_lost_witness:
  "\<exists>a b c s'. pool_run (sign_tasks example_crypto (\<lambda>_. []) [example_call, example_call, example_call], fresh_signer)
       ([Done (Inr a), Done (Inr b), Done (Inr c)], s') \<and> as_sequence s' = as_sequence fresh_signer + 1"
  using increments_lost [OF fresh_signer_stub example_payload_text example_payload_text example_payload_text,
      of example_crypto NaN "''policy_update''" NaN "''policy_update''" NaN "''policy_update''"] by blast

end
