(* ===== verification/Guest_Sandbox.thy ===== *)
theory Guest_Sandbox
  imports Py_Value Keyed_Registry
begin

text \<open>
  \<^verbatim>\<open>gaia_server/sandbox/guest_sandbox.py\<close>: admission, termination and listing of the guests of one
  tenant on one node. The hypervisor, the codex and the environmental monitor belong to
  \<^verbatim>\<open>gaia_hypervisor\<close> and \<^verbatim>\<open>gaia_core\<close>: each call the sandbox makes there, with its import, is a
  field of \<open>guest_platform\<close>. Shown: a guest that the gate or the launch refuses is never
  registered, in which situations an admission returns, what remains registered when it raises,
  and what holds of the registry after every sequence of calls.
\<close>

section \<open>The sandbox\<close>

record 'w codex =
  cx_invoke_stage :: "string \<Rightarrow> ('w, bool) op"
  cx_invoke_higher_order :: "string \<Rightarrow> ('w, bool) op"

record 'w guest_platform =
  gp_install_gate :: "pydict \<Rightarrow> ('w, unit) op"
  gp_launch_app :: "string \<Rightarrow> string \<Rightarrow> ('w, pyval) op"
  gp_codex_runtime :: "('w, 'w codex) op"
  gp_report :: "string \<Rightarrow> pydict \<Rightarrow> string \<Rightarrow> string \<Rightarrow> ('w, unit) op"

record guest_info =
  gi_package_url :: string
  gi_intent :: string
  gi_result :: pyval
  gi_resource_profile :: pydict

record 'w guest_sandbox =
  sb_tenant_id :: string
  sb_node_id :: string
  sb_codex :: "'w codex option"
  sb_active_guests :: "(string, guest_info) dict"

definition sandbox_init :: "string \<Rightarrow> string \<Rightarrow> 'w codex option \<Rightarrow> 'w guest_sandbox" where
  "sandbox_init tenant_id node_id codex =
     \<lparr>sb_tenant_id = tenant_id, sb_node_id = node_id, sb_codex = codex, sb_active_guests = []\<rparr>"

text \<open>An operation of the sandbox acts on the sandbox and on the world outside it.\<close>

type_synonym ('w, 'a) sandbox_op = "('w guest_sandbox \<times> 'w, 'a) op"

definition outside :: "('w, 'a) op \<Rightarrow> ('s \<times> 'w, 'a) op" where
  "outside m = (\<lambda>(s, w). case m w of (r, w') \<Rightarrow> (r, s, w'))"

definition update_sandbox :: "('s \<Rightarrow> 's) \<Rightarrow> ('s \<times> 'w, unit) op" where
  "update_sandbox f = (\<lambda>(s, w). (Inr (), f s, w))"

lemma outside_apply [op_simps]: "m w = (r, w') \<Longrightarrow> outside m (s, w) = (r, s, w')"
  by (simp add: outside_def)

lemma update_sandbox_apply [simp, op_simps]: "update_sandbox f (s, w) = (Inr (), f s, w)"
  by (simp add: update_sandbox_def)

definition stub_codex :: "'w codex" where
  "stub_codex = \<lparr>cx_invoke_stage = (\<lambda>stage. opret True), cx_invoke_higher_order = (\<lambda>order. opret True)\<rparr>"

definition sandbox_codex :: "'w guest_platform \<Rightarrow> ('w, 'w codex) sandbox_op" where
  "sandbox_codex gp = (\<lambda>(s, w).
     case sb_codex s of
       Some c \<Rightarrow> (Inr c, s, w)
     | None \<Rightarrow>
         opbind (outside (opcatch is_ImportError (gp_codex_runtime gp) (\<lambda>_. opret stub_codex)))
           (\<lambda>c. opbind (update_sandbox (sb_codex_update (\<lambda>_. Some c))) (\<lambda>_. opret c)) (s, w))"

definition viriditas_defaults :: pydict where
  "viriditas_defaults =
     [(''cpu_cores'', PInt 2), (''memory_mib'', PInt 2048), (''gpu'', PNone),
      (''energy_budget'', PStr ''viriditas-balanced''), (''priority'', PStr ''normal'')]"

definition report_energy_draw :: "'w guest_platform \<Rightarrow> string \<Rightarrow> pydict \<Rightarrow> ('w, unit) sandbox_op" where
  "report_energy_draw gp guest_id resource_profile = (\<lambda>(s, w).
     outside (opcatch is_ImportError
       (gp_report gp guest_id resource_profile (sb_tenant_id s) (sb_node_id s)) (\<lambda>_. opret ())) (s, w))"

text \<open>Steps 1 and 2 of an admission: the install gate and the launch.\<close>

definition install_gate :: "'w guest_platform \<Rightarrow> string \<Rightarrow> string \<Rightarrow> ('w, unit) op" where
  "install_gate gp package_url tenant_id =
     optry (gp_install_gate gp [(''url'', PStr package_url), (''tenant'', PStr tenant_id)])
       (\<lambda>exc. if is_ImportError exc then opret ()
         else opraise (SandboxAdmissionError ''Guest rejected at Codex install gate: '' exc))"

definition stub_launch :: "string \<Rightarrow> pyval" where
  "stub_launch package_url =
     PDict [(''status'', PStr ''stub-running''), (''guest_type'', PStr ''unknown''),
       (''package_url'', PStr package_url), (''codex_aligned'', PBool False)]"

definition launch_guest :: "'w guest_platform \<Rightarrow> string \<Rightarrow> string \<Rightarrow> ('w, pyval) op" where
  "launch_guest gp package_url intent =
     optry (gp_launch_app gp package_url intent)
       (\<lambda>exc. if is_ImportError exc then opret (stub_launch package_url)
         else opraise (SandboxAdmissionError ''UNIVERSE.launch_app failed: '' exc))"

definition guest_key :: "string \<Rightarrow> string \<Rightarrow> string" where
  "guest_key tenant_id package_url = tenant_id @ '':'' @ package_url"

definition profile_or_default :: "pydict option \<Rightarrow> pydict" where
  "profile_or_default resource_profile =
     (case resource_profile of Some (e # es) \<Rightarrow> e # es | _ \<Rightarrow> viriditas_defaults)"

definition register_guest :: "string \<Rightarrow> guest_info \<Rightarrow> 'w guest_sandbox \<Rightarrow> 'w guest_sandbox" where
  "register_guest guest_id info s = s\<lparr>sb_active_guests := dset (sb_active_guests s) guest_id info\<rparr>"

interpretation guest_registry: keyed_registry register_guest "\<lambda>s. map_of (sb_active_guests s)"
    "\<lambda>s. dkeys (sb_active_guests s)" "\<lambda>guest_id info. info"
  by unfold_locales (auto simp: register_guest_def dkeys_dset map_of_eq_None_iff)

definition admission_answer :: "'w guest_sandbox \<Rightarrow> string \<Rightarrow> pydict \<Rightarrow> pyval \<Rightarrow> py_exn + pydict" where
  "admission_answer s guest_id profile result =
     ebind (py_get result ''status'' (PStr ''unknown'')) (\<lambda>status.
     ebind (py_get result ''codex_aligned'' (PBool False)) (\<lambda>aligned.
       Inr [(''guest_id'', PStr guest_id), (''status'', status), (''tenant_id'', PStr (sb_tenant_id s)),
         (''node_id'', PStr (sb_node_id s)), (''codex_aligned'', aligned), (''resource_profile'', PDict profile)]))"

definition admit_guest :: "'w guest_platform \<Rightarrow> string \<Rightarrow> string \<Rightarrow> pydict option \<Rightarrow> ('w, pydict) sandbox_op" where
  "admit_guest gp package_url intent resource_profile = (\<lambda>(s, w).
     opbind (outside (install_gate gp package_url (sb_tenant_id s))) (\<lambda>_.
     opbind (outside (launch_guest gp package_url intent)) (\<lambda>result.
     (let guest_id = guest_key (sb_tenant_id s) package_url;
          profile = profile_or_default resource_profile
      in opbind (update_sandbox (register_guest guest_id
             \<lparr>gi_package_url = package_url, gi_intent = intent, gi_result = result, gi_resource_profile = profile\<rparr>)) (\<lambda>_.
         opbind (report_energy_draw gp guest_id profile) (\<lambda>_.
         oplift (admission_answer s guest_id profile result)))))) (s, w))"

definition terminate_guest :: "'w guest_platform \<Rightarrow> string \<Rightarrow> ('w, pydict) sandbox_op" where
  "terminate_guest gp guest_id = (\<lambda>(s, w).
     if guest_id \<notin> set (dkeys (sb_active_guests s))
     then (Inr [(''guest_id'', PStr guest_id), (''status'', PStr ''not_found''), (''codex_aligned'', PBool True)], s, w)
     else opbind (update_sandbox (sb_active_guests_update (\<lambda>g. ddel g guest_id))) (\<lambda>_.
       opbind (sandbox_codex gp) (\<lambda>codex.
       opbind (outside (cx_invoke_stage codex ''Joyful Rejoicing of Celebration'')) (\<lambda>_.
       opret [(''guest_id'', PStr guest_id), (''status'', PStr ''terminated''), (''codex_aligned'', PBool True)]))) (s, w))"

definition list_guests :: "'w guest_sandbox \<Rightarrow> pydict list" where
  "list_guests s = map (\<lambda>(gid, info).
     [(''guest_id'', PStr gid), (''package_url'', PStr (gi_package_url info)), (''intent'', PStr (gi_intent info)),
      (''resource_profile'', PDict (gi_resource_profile info))]) (sb_active_guests s)"

section \<open>How an admission goes\<close>

abbreviation new_guest :: "string \<Rightarrow> string \<Rightarrow> pyval \<Rightarrow> pydict option \<Rightarrow> guest_info" where
  "new_guest package_url intent result resource_profile \<equiv>
     \<lparr>gi_package_url = package_url, gi_intent = intent, gi_result = result,
      gi_resource_profile = profile_or_default resource_profile\<rparr>"

abbreviation energy_report :: "'w guest_platform \<Rightarrow> 'w guest_sandbox \<Rightarrow> string \<Rightarrow> pydict option \<Rightarrow> ('w, unit) op" where
  "energy_report gp s package_url resource_profile \<equiv>
     opcatch is_ImportError (gp_report gp (guest_key (sb_tenant_id s) package_url)
       (profile_or_default resource_profile) (sb_tenant_id s) (sb_node_id s)) (\<lambda>_. opret ())"

lemma admit_gate_failed:
  "install_gate gp url (sb_tenant_id s) w = (Inl e, w1) \<Longrightarrow>
     admit_guest gp url intent profile (s, w) = (Inl e, s, w1)"
  by (simp add: admit_guest_def opbind_def outside_def)

lemma admit_launch_failed:
  "install_gate gp url (sb_tenant_id s) w = (Inr (), w1) \<Longrightarrow> launch_guest gp url intent w1 = (Inl e, w2) \<Longrightarrow>
     admit_guest gp url intent profile (s, w) = (Inl e, s, w2)"
  by (simp add: admit_guest_def opbind_def outside_def)

lemma admit_registered:
  assumes "install_gate gp url (sb_tenant_id s) w = (Inr (), w1)" and "launch_guest gp url intent w1 = (Inr result, w2)"
    and "energy_report gp s url profile w2 = (r, w3)"
  shows "admit_guest gp url intent profile (s, w) =
     (ebind r (\<lambda>_. admission_answer s (guest_key (sb_tenant_id s) url) (profile_or_default profile) result),
      register_guest (guest_key (sb_tenant_id s) url) (new_guest url intent result profile) s, w3)"
proof -
  have "report_energy_draw gp (guest_key (sb_tenant_id s) url) (profile_or_default profile)
      (register_guest (guest_key (sb_tenant_id s) url) (new_guest url intent result profile) s, w2) =
      (r, register_guest (guest_key (sb_tenant_id s) url) (new_guest url intent result profile) s, w3)"
    using assms(3) by (simp add: report_energy_draw_def outside_def register_guest_def)
  with assms(1,2) show ?thesis
    by (cases r) (simp_all add: admit_guest_def opbind_def outside_def update_sandbox_def Let_def)
qed

lemma admit_guest_exhaust:
  obtains (gate) e w1 where "install_gate gp url (sb_tenant_id s) w = (Inl e, w1)"
    | (launch) w1 e w2 where "install_gate gp url (sb_tenant_id s) w = (Inr (), w1)"
        "launch_guest gp url intent w1 = (Inl e, w2)"
    | (registered) w1 result w2 r w3 where "install_gate gp url (sb_tenant_id s) w = (Inr (), w1)"
        "launch_guest gp url intent w1 = (Inr result, w2)" "energy_report gp s url profile w2 = (r, w3)"
proof -
  obtain g w1 where g: "install_gate gp url (sb_tenant_id s) w = (g, w1)" by fastforce
  show thesis
  proof (cases g)
    case (Inl e)
    with g show thesis by (blast intro: gate)
  next
    case (Inr u)
    obtain l w2 where l: "launch_guest gp url intent w1 = (l, w2)" by fastforce
    obtain r w3 where r: "energy_report gp s url profile w2 = (r, w3)" by fastforce
    from g l r Inr show thesis by (cases l) (auto intro: launch registered)
  qed
qed

text \<open>
  A guest that the install gate refuses is neither launched nor registered: the admission
  raises the refusal, the sandbox is as before, and the world is as the gate left it. A guest
  whose launch fails is not registered either.
\<close>

theorem refused_guest_not_registered:
  assumes "gp_install_gate gp [(''url'', PStr url), (''tenant'', PStr (sb_tenant_id s))] w = (Inl e, w1)"
    and "\<not> is_ImportError e"
  shows "admit_guest gp url intent profile (s, w) =
     (Inl (if is_Exception e then SandboxAdmissionError ''Guest rejected at Codex install gate: '' e else e), s, w1)"
  by (rule admit_gate_failed) (use assms in \<open>simp add: install_gate_def opcatch_def\<close>)

text \<open>
  C21: an admission that returns a value registered the guest under its tenant and address,
  with the profile it was given or the defaults, and left every other entry alone; one that raises
  has changed nothing in the sandbox, or else has registered the guest, and then the report
  of its energy draw or the result of the launch is to blame.
\<close>

theorem admission_outcome:
  assumes "admit_guest gp url intent profile (s, w) = (r, s', w')"
  shows "(\<exists>e. r = Inl e \<and> s' = s) \<or>
     (\<exists>result. map_of (sb_active_guests s') = (map_of (sb_active_guests s))
          (guest_key (sb_tenant_id s) url \<mapsto> new_guest url intent result profile) \<and>
        sb_tenant_id s' = sb_tenant_id s \<and> sb_node_id s' = sb_node_id s \<and> sb_codex s' = sb_codex s \<and>
        (r = admission_answer s (guest_key (sb_tenant_id s) url) (profile_or_default profile) result \<or>
         (\<exists>w2 e. r = Inl e \<and> \<not> is_ImportError e \<and>
            gp_report gp (guest_key (sb_tenant_id s) url) (profile_or_default profile) (sb_tenant_id s) (sb_node_id s) w2 =
              (Inl e, w'))))"
proof (cases rule: admit_guest_exhaust [where gp = gp and url = url and s = s and w = w and intent = intent and profile = profile])
  case (gate e w1)
  from admit_gate_failed [OF this] assms show ?thesis by auto
next
  case (launch w1 e w2)
  from admit_launch_failed [OF this] assms show ?thesis by auto
next
  case (registered w1 result w2 q w3)
  from admit_registered [OF this] assms have
    r: "r = ebind q (\<lambda>_. admission_answer s (guest_key (sb_tenant_id s) url) (profile_or_default profile) result)"
    and s': "s' = register_guest (guest_key (sb_tenant_id s) url) (new_guest url intent result profile) s"
    and w': "w' = w3" by simp_all
  have m: "map_of (sb_active_guests s') = (map_of (sb_active_guests s))
      (guest_key (sb_tenant_id s) url \<mapsto> new_guest url intent result profile)"
    by (rule ext) (simp add: s' guest_registry.find_store)
  have f: "sb_tenant_id s' = sb_tenant_id s \<and> sb_node_id s' = sb_node_id s \<and> sb_codex s' = sb_codex s"
    by (simp add: s' register_guest_def)
  show ?thesis
  proof (cases q)
    case (Inr u)
    with r m f show ?thesis by auto
  next
    case (Inl e)
    with registered(3) have "\<not> is_ImportError e \<and>
        gp_report gp (guest_key (sb_tenant_id s) url) (profile_or_default profile) (sb_tenant_id s) (sb_node_id s) w2 = (Inl e, w3)"
      by (auto simp: opcatch_def split: prod.splits sum.splits if_splits)
    with Inl r m f w' show ?thesis by fastforce
  qed
qed

section \<open>Platforms for examples\<close>

text \<open>
  A world that counts the calls made to the platform, and three platforms: one that is not
  installed, one that refuses every guest, and one whose monitor fails.
\<close>

definition missing_platform :: "nat guest_platform" where
  "missing_platform =
     \<lparr>gp_install_gate = (\<lambda>d. opraise (ImportError ''gaia_hypervisor'')),
      gp_launch_app = (\<lambda>url intent. opraise (ImportError ''gaia_hypervisor'')),
      gp_codex_runtime = opraise (ImportError ''gaia_core''),
      gp_report = (\<lambda>gid profile tenant node. opraise (ImportError ''gaia_core''))\<rparr>"

definition refusing_platform :: "nat guest_platform" where
  "refusing_platform = missing_platform\<lparr>gp_install_gate := (\<lambda>d w. (Inl (ValueError ''misaligned''), Suc w))\<rparr>"

definition unmonitored_platform :: "nat guest_platform" where
  "unmonitored_platform = missing_platform
     \<lparr>gp_launch_app := (\<lambda>url intent w. (Inr (PDict [(''status'', PStr ''running'')]), Suc w)),
      gp_report := (\<lambda>gid profile tenant node. opraise (RuntimeError ''monitor offline''))\<rparr>"

lemmas platform_eval = install_gate_def launch_guest_def missing_platform_def unmonitored_platform_def
  opcatch_def is_ImportError_def

abbreviation example_sandbox :: "nat guest_sandbox" where
  "example_sandbox \<equiv> sandbox_init ''t'' ''node'' None"

theorem refused_guest_not_registered_witness:
  "admit_guest refusing_platform ''app.gaia'' ''test'' None (example_sandbox, 0) =
     (Inl (SandboxAdmissionError ''Guest rejected at Codex install gate: '' (ValueError ''misaligned'')), example_sandbox, 1)"
  using refused_guest_not_registered [of refusing_platform "''app.gaia''" example_sandbox 0 "ValueError ''misaligned''" 1]
  by (simp add: refusing_platform_def is_ImportError_def)

theorem admission_outcome_witness:
  "\<exists>result. map_of (sb_active_guests (fst (snd (admit_guest unmonitored_platform ''a'' ''i'' None (example_sandbox, 0))))) =
     (map_of (sb_active_guests example_sandbox)) (guest_key (sb_tenant_id example_sandbox) ''a'' \<mapsto> new_guest ''a'' ''i'' result None)"
proof -
  obtain r s' w' where r: "admit_guest unmonitored_platform ''a'' ''i'' None (example_sandbox, 0) = (r, s', w')"
    by (metis prod_cases3)
  have "s' \<noteq> example_sandbox"
    using r by (auto simp: admit_guest_def report_energy_draw_def platform_eval opbind_def outside_def register_guest_def sandbox_init_def Let_def
      update_sandbox_def dset_def)
  with admission_outcome [OF r] r show ?thesis by auto
qed

text \<open>
  Without the hypervisor, the codex and the monitor every guest is admitted: nothing is
  asked of any gate, and the guest is registered and reported as running, although not aligned.
\<close>

theorem missing_platform_admits:
  assumes "\<And>d w. \<exists>m. gp_install_gate gp d w = (Inl (ImportError m), w)"
    and "\<And>url intent w. \<exists>m. gp_launch_app gp url intent w = (Inl (ImportError m), w)"
    and "\<And>gid profile tenant node w. \<exists>m. gp_report gp gid profile tenant node w = (Inl (ImportError m), w)"
  shows "admit_guest gp url intent profile (s, w) =
     (Inr [(''guest_id'', PStr (guest_key (sb_tenant_id s) url)), (''status'', PStr ''stub-running''),
        (''tenant_id'', PStr (sb_tenant_id s)), (''node_id'', PStr (sb_node_id s)), (''codex_aligned'', PBool False),
        (''resource_profile'', PDict (profile_or_default profile))],
      register_guest (guest_key (sb_tenant_id s) url) (new_guest url intent (stub_launch url) profile) s, w)"
proof -
  have g: "install_gate gp url (sb_tenant_id s) w = (Inr (), w)"
    using assms(1) [of "[(''url'', PStr url), (''tenant'', PStr (sb_tenant_id s))]" w]
    by (auto simp: install_gate_def opcatch_def is_ImportError_def)
  have l: "launch_guest gp url intent w = (Inr (stub_launch url), w)"
    using assms(2) [of url intent w] by (auto simp: launch_guest_def opcatch_def is_ImportError_def)
  have r: "energy_report gp s url profile w = (Inr (), w)"
    using assms(3) [of "guest_key (sb_tenant_id s) url" "profile_or_default profile" "sb_tenant_id s" "sb_node_id s" w]
    by (auto simp: opcatch_def is_ImportError_def)
  from admit_registered [OF g l r] show ?thesis
    by (simp add: admission_answer_def stub_launch_def dget_def)
qed

theorem missing_platform_admits_witness:
  "\<exists>d s'. admit_guest missing_platform ''evil.gaia'' ''anything'' None (example_sandbox, 0) = (Inr d, s', 0) \<and>
     map_of d ''status'' = Some (PStr ''stub-running'')"
proof -
  have "\<exists>m. gp_install_gate missing_platform d w = (Inl (ImportError m), w)"
    "\<exists>m. gp_launch_app missing_platform u i w = (Inl (ImportError m), w)"
    "\<exists>m. gp_report missing_platform gid profile tenant node w = (Inl (ImportError m), w)"
    for d w u i gid profile tenant node by (simp_all add: missing_platform_def)
  from missing_platform_admits [of missing_platform "''evil.gaia''" "''anything''" None example_sandbox 0, OF this]
  show ?thesis by simp
qed

text \<open>
  When the energy report fails with anything but a missing module, the caller gets the
  failure and no identifier, but the guest has been launched and stays registered.
\<close>

theorem failed_report_leaves_guest:
  assumes "install_gate gp url (sb_tenant_id s) w = (Inr (), w1)" and "launch_guest gp url intent w1 = (Inr result, w2)"
    and "gp_report gp (guest_key (sb_tenant_id s) url) (profile_or_default profile) (sb_tenant_id s) (sb_node_id s) w2 = (Inl e, w3)"
    and "\<not> is_ImportError e"
  shows "\<exists>s'. admit_guest gp url intent profile (s, w) = (Inl e, s', w3) \<and>
     map_of (sb_active_guests s') (guest_key (sb_tenant_id s) url) = Some (new_guest url intent result profile)"
proof -
  have r: "energy_report gp s url profile w2 = (Inl e, w3)" using assms(3,4) by (simp add: opcatch_def)
  from admit_registered [OF assms(1,2) r] show ?thesis by (simp add: guest_registry.find_store)
qed

theorem failed_report_leaves_guest_witness:
  "\<exists>s'. admit_guest unmonitored_platform ''a'' ''i'' None (example_sandbox, 0) = (Inl (RuntimeError ''monitor offline''), s', 1) \<and>
     list_guests s' \<noteq> []"
proof -
  have g: "install_gate unmonitored_platform ''a'' (sb_tenant_id example_sandbox) 0 = (Inr (), 0)"
    by (simp add: platform_eval)
  have l: "launch_guest unmonitored_platform ''a'' ''i'' 0 = (Inr (PDict [(''status'', PStr ''running'')]), 1)"
    by (simp add: platform_eval)
  have r: "gp_report unmonitored_platform (guest_key (sb_tenant_id example_sandbox) ''a'') (profile_or_default None)
      (sb_tenant_id example_sandbox) (sb_node_id example_sandbox) 1 = (Inl (RuntimeError ''monitor offline''), 1)"
    by (simp add: unmonitored_platform_def missing_platform_def)
  from failed_report_leaves_guest [OF g l r] show ?thesis by (auto simp: is_ImportError_def list_guests_def)
qed

text \<open>
  A second admission of the same address launches the package again, but the registry has one
  entry for both: the identifiers and their order stay, and the first guest's entry is gone.
\<close>

theorem readmission_replaces:
  assumes "guest_key (sb_tenant_id s) url \<in> set (dkeys (sb_active_guests s))"
    and "install_gate gp url (sb_tenant_id s) w = (Inr (), w1)" and "launch_guest gp url intent w1 = (Inr result, w2)"
    and "admit_guest gp url intent profile (s, w) = (r, s', w')"
  shows "dkeys (sb_active_guests s') = dkeys (sb_active_guests s) \<and>
     map_of (sb_active_guests s') (guest_key (sb_tenant_id s) url) = Some (new_guest url intent result profile)"
proof -
  obtain q w3 where q: "energy_report gp s url profile w2 = (q, w3)" by fastforce
  from admit_registered [OF assms(2,3) q] assms(4)
  have "s' = register_guest (guest_key (sb_tenant_id s) url) (new_guest url intent result profile) s" by simp
  then show ?thesis using assms(1) by (simp add: guest_registry.find_store guest_registry.keys_store)
qed

definition busy_sandbox :: "nat guest_sandbox" where
  "busy_sandbox = register_guest (guest_key ''t'' ''a'') (new_guest ''a'' ''first'' PNone None) example_sandbox"

theorem readmission_replaces_witness:
  "\<exists>r s' w'. admit_guest missing_platform ''a'' ''second'' None (busy_sandbox, 0) = (r, s', w') \<and>
     dkeys (sb_active_guests s') = [''t:a''] \<and>
     map_option gi_intent (map_of (sb_active_guests s') ''t:a'') = Some ''second''"
proof -
  obtain r s' w' where a: "admit_guest missing_platform ''a'' ''second'' None (busy_sandbox, 0) = (r, s', w')"
    by (metis prod_cases3)
  have k: "guest_key (sb_tenant_id busy_sandbox) ''a'' = ''t:a''" "dkeys (sb_active_guests busy_sandbox) = [''t:a'']"
    by (simp_all add: busy_sandbox_def register_guest_def sandbox_init_def guest_key_def dset_def)
  have g: "install_gate missing_platform ''a'' (sb_tenant_id busy_sandbox) 0 = (Inr (), 0)"
    by (simp add: platform_eval)
  have l: "launch_guest missing_platform ''a'' ''second'' 0 = (Inr (stub_launch ''a''), 0)"
    by (simp add: platform_eval)
  have "guest_key (sb_tenant_id busy_sandbox) ''a'' \<in> set (dkeys (sb_active_guests busy_sandbox))" by (simp add: k)
  from readmission_replaces [OF this g l a] a k show ?thesis by auto
qed

section \<open>Termination and sequences of calls\<close>

lemma sandbox_codex_frame:
  "sandbox_codex gp (s, w) = (r, s', w') \<Longrightarrow> sb_active_guests s' = sb_active_guests s \<and>
     sb_tenant_id s' = sb_tenant_id s \<and> sb_node_id s' = sb_node_id s"
  by (auto simp: sandbox_codex_def opbind_def outside_def update_sandbox_def split: option.splits prod.splits sum.splits)

text \<open>The codex is obtained once: afterwards it is at hand, and asking for it does nothing.\<close>

lemma sandbox_codex_once:
  "sandbox_codex gp (s, w) = (Inr c, s', w') \<Longrightarrow> sandbox_codex gp (s', w'') = (Inr c, s', w'')"
  by (auto simp: sandbox_codex_def opbind_def outside_def update_sandbox_def split: option.splits prod.splits sum.splits)

text \<open>The hypervisor has no part in a termination: only the codex is called.\<close>

lemma terminate_calls_codex_only:
  "terminate_guest (gp\<lparr>gp_install_gate := gate, gp_launch_app := launch, gp_report := report\<rparr>) gid = terminate_guest gp gid"
proof -
  have "gp_codex_runtime (gp\<lparr>gp_install_gate := gate, gp_launch_app := launch, gp_report := report\<rparr>) = gp_codex_runtime gp"
    by simp
  then show ?thesis by (simp only: terminate_guest_def sandbox_codex_def)
qed

lemma terminate_frame:
  assumes "terminate_guest gp gid (s, w) = (r, s', w')"
  shows "sb_active_guests s' = ddel (sb_active_guests s) gid" "sb_tenant_id s' = sb_tenant_id s"
proof -
  have "sb_active_guests s' = ddel (sb_active_guests s) gid \<and> sb_tenant_id s' = sb_tenant_id s"
  proof (cases "gid \<in> set (dkeys (sb_active_guests s))")
    case False
    then have "ddel (sb_active_guests s) gid = sb_active_guests s"
      by (simp add: ddel_def delete_id)
    with assms False show ?thesis by (simp add: terminate_guest_def)
  next
    case True
    let ?t = "sb_active_guests_update (\<lambda>g. ddel g gid) s"
    obtain c s1 w1 where c: "sandbox_codex gp (?t, w) = (c, s1, w1)" by (metis prod_cases3)
    have "s' = s1" using assms True c
      by (cases c) (auto simp: terminate_guest_def opbind_def outside_def update_sandbox_def split: prod.splits sum.splits)
    with sandbox_codex_frame [OF c] show ?thesis by simp
  qed
  then show "sb_active_guests s' = ddel (sb_active_guests s) gid" "sb_tenant_id s' = sb_tenant_id s" by simp_all
qed

text \<open>
  Termination removes the guest and no other, also when the closing stage of the codex
  raises; a guest that has been terminated is not found again, and asking for it changes nothing.
\<close>

theorem terminate_once:
  assumes "terminate_guest gp gid (s, w) = (r, s', w')"
  shows "map_of (sb_active_guests s') = (map_of (sb_active_guests s))(gid := None) \<and>
     terminate_guest gp gid (s', w'') =
       (Inr [(''guest_id'', PStr gid), (''status'', PStr ''not_found''), (''codex_aligned'', PBool True)], s', w'')"
proof -
  have m: "map_of (sb_active_guests s') = (map_of (sb_active_guests s))(gid := None)"
    by (simp add: terminate_frame(1) [OF assms])
  then have "gid \<notin> set (dkeys (sb_active_guests s'))" by (simp only: map_of_dkeys) simp
  with m show ?thesis by (simp add: terminate_guest_def)
qed

theorem terminate_once_witness:
  "\<exists>r s' w'. terminate_guest missing_platform ''t:a'' (busy_sandbox, 0) = (r, s', w') \<and>
     map_of (sb_active_guests s') ''t:a'' = None"
proof -
  obtain r s' w' where t: "terminate_guest missing_platform ''t:a'' (busy_sandbox, 0) = (r, s', w')"
    by (metis prod_cases3)
  from terminate_once [OF t] t show ?thesis by auto
qed

datatype guest_call =
    Admit string string "pydict option"
  | Terminate string

fun guest_step :: "'w guest_platform \<Rightarrow> guest_call \<Rightarrow> 'w guest_sandbox \<times> 'w \<Rightarrow> 'w guest_sandbox \<times> 'w" where
  "guest_step gp (Admit url intent profile) sw = snd (admit_guest gp url intent profile sw)"
| "guest_step gp (Terminate gid) sw = snd (terminate_guest gp gid sw)"

definition sandbox_ok :: "'w guest_sandbox \<Rightarrow> bool" where
  "sandbox_ok s \<longleftrightarrow> dict_ok (sb_active_guests s) \<and>
     list_all (\<lambda>(gid, info). gid = guest_key (sb_tenant_id s) (gi_package_url info) \<and> gi_resource_profile info \<noteq> [])
       (sb_active_guests s)"

lemma profile_or_default_nonempty [simp]: "profile_or_default profile \<noteq> []"
  by (auto simp: profile_or_default_def viriditas_defaults_def split: option.split list.split)

lemma sandbox_ok_register:
  assumes "sandbox_ok s" and "gi_resource_profile info \<noteq> []"
  shows "sandbox_ok (register_guest (guest_key (sb_tenant_id s) (gi_package_url info)) info s)"
  using assms by (auto simp: sandbox_ok_def register_guest_def list_all_iff dest!: map_of_dset_self)

lemma sandbox_ok_delete:
  assumes "sandbox_ok s" and "sb_active_guests s' = ddel (sb_active_guests s) gid" and "sb_tenant_id s' = sb_tenant_id s"
  shows "sandbox_ok s'"
proof -
  have "dict_ok (ddel (sb_active_guests s) gid)" using assms(1) by (auto simp: sandbox_ok_def)
  moreover have "set (ddel (sb_active_guests s) gid) \<subseteq> set (sb_active_guests s)"
    by (auto simp: ddel_def AList.delete_eq)
  ultimately show ?thesis using assms by (auto simp: sandbox_ok_def list_all_iff)
qed

lemma guest_step_ok:
  assumes "sandbox_ok s" and "guest_step gp call (s, w) = (s', w')"
  shows "sandbox_ok s' \<and> sb_tenant_id s' = sb_tenant_id s"
proof (cases call)
  case (Terminate gid)
  obtain r where "terminate_guest gp gid (s, w) = (r, s', w')"
    using assms(2) Terminate by (cases "terminate_guest gp gid (s, w)") simp
  from terminate_frame [OF this] sandbox_ok_delete [OF assms(1)] show ?thesis by simp
next
  case (Admit url intent profile)
  then have a: "snd (admit_guest gp url intent profile (s, w)) = (s', w')" using assms(2) by simp
  show ?thesis
  proof (cases rule: admit_guest_exhaust [where gp = gp and url = url and s = s and w = w and intent = intent and profile = profile])
    case (gate e w1)
    from admit_gate_failed [OF this] a assms(1) show ?thesis by simp
  next
    case (launch w1 e w2)
    from admit_launch_failed [OF this] a assms(1) show ?thesis by simp
  next
    case (registered w1 result w2 q w3)
    from admit_registered [OF this] a
    have "s' = register_guest (guest_key (sb_tenant_id s) url) (new_guest url intent result profile) s" by simp
    with sandbox_ok_register [OF assms(1), of "new_guest url intent result profile"] show ?thesis
      by (simp add: register_guest_def)
  qed
qed

text \<open>
  C23: after every sequence of admissions and terminations, whatever the platform does and
  whichever of them raise, each entry of the registry carries the tenant of the sandbox and its
  own address, no address has two entries, and every guest has resource limits.
\<close>

theorem guests_belong_to_tenant:
  "let s = fst (fold (guest_step gp) calls (sandbox_init tenant node codex, w))
   in sb_tenant_id s = tenant \<and> distinct (map (gi_package_url \<circ> snd) (sb_active_guests s)) \<and>
     list_all (\<lambda>(gid, info). gid = tenant @ '':'' @ gi_package_url info \<and> gi_resource_profile info \<noteq> [])
       (sb_active_guests s)"
proof -
  have run: "sandbox_ok (fst (fold (guest_step gp) calls (s, w))) \<and>
      sb_tenant_id (fst (fold (guest_step gp) calls (s, w))) = sb_tenant_id s" if "sandbox_ok s" for s w
    using that
  proof (induction calls arbitrary: s w)
    case Nil
    then show ?case by simp
  next
    case (Cons c calls)
    obtain s1 w1 where c: "guest_step gp c (s, w) = (s1, w1)" by fastforce
    from guest_step_ok [OF Cons.prems c] Cons.IH [of s1 w1] c show ?case by simp
  qed
  have "sandbox_ok (sandbox_init tenant node codex)" by (simp add: sandbox_ok_def sandbox_init_def)
  note r = run [OF this, of w]
  let ?s = "fst (fold (guest_step gp) calls (sandbox_init tenant node codex, w))"
  have t: "sb_tenant_id ?s = tenant" using r by (simp add: sandbox_init_def)
  with r have l: "list_all (\<lambda>(gid, info). gid = tenant @ '':'' @ gi_package_url info \<and> gi_resource_profile info \<noteq> [])
      (sb_active_guests ?s)" by (simp add: sandbox_ok_def guest_key_def)
  then have keys: "dkeys (sb_active_guests ?s) = map (\<lambda>u. tenant @ '':'' @ u) (map (gi_package_url \<circ> snd) (sb_active_guests ?s))"
    by (auto simp: list_all_iff)
  then have "distinct (map (gi_package_url \<circ> snd) (sb_active_guests ?s))"
  proof -
    have "distinct (dkeys (sb_active_guests ?s))" using r by (simp only: sandbox_ok_def dict_ok_def)
    with keys show ?thesis by (simp only: distinct_map)
  qed
  with t l show ?thesis by (simp add: Let_def)
qed

section \<open>The registry that the sandbox implements\<close>

text \<open>
  The specification: a map from identifiers to intent and limits. An admission takes effect when
  the gate lets the guest through and its launch returns; a termination always does.
\<close>

type_synonym guest_map = "string \<Rightarrow> (string \<times> pydict) option"

definition guests_of :: "'w guest_sandbox \<Rightarrow> guest_map" where
  "guests_of s = (\<lambda>gid. map_option (\<lambda>i. (gi_intent i, gi_resource_profile i)) (map_of (sb_active_guests s) gid))"

fun spec_step :: "string \<Rightarrow> guest_call \<Rightarrow> guest_map \<Rightarrow> guest_map" where
  "spec_step tenant (Admit url intent profile) m = m(guest_key tenant url \<mapsto> (intent, profile_or_default profile))"
| "spec_step tenant (Terminate gid) m = m(gid := None)"

fun takes_effect :: "'w guest_platform \<Rightarrow> string \<Rightarrow> guest_call \<Rightarrow> 'w \<Rightarrow> bool" where
  "takes_effect gp tenant (Admit url intent profile) w =
     (case opbind (install_gate gp url tenant) (\<lambda>_. launch_guest gp url intent) w of
        (Inl e, w') \<Rightarrow> False | (Inr result, w') \<Rightarrow> True)"
| "takes_effect gp tenant (Terminate gid) w = True"

fun effective :: "'w guest_platform \<Rightarrow> guest_call list \<Rightarrow> 'w guest_sandbox \<times> 'w \<Rightarrow> guest_call list" where
  "effective gp [] sw = []"
| "effective gp (c # calls) sw =
     (if takes_effect gp (sb_tenant_id (fst sw)) c (snd sw) then [c] else []) @ effective gp calls (guest_step gp c sw)"

lemma guest_step_spec:
  assumes "guest_step gp c (s, w) = (s', w')"
  shows "guests_of s' = (if takes_effect gp (sb_tenant_id s) c w then spec_step (sb_tenant_id s) c (guests_of s) else guests_of s)
     \<and> sb_tenant_id s' = sb_tenant_id s"
proof (cases c)
  case (Terminate gid)
  obtain r where "terminate_guest gp gid (s, w) = (r, s', w')"
    using assms Terminate by (cases "terminate_guest gp gid (s, w)") simp
  from terminate_frame [OF this] Terminate show ?thesis by (auto simp: guests_of_def fun_eq_iff)
next
  case (Admit url intent profile)
  then have a: "snd (admit_guest gp url intent profile (s, w)) = (s', w')" using assms by simp
  show ?thesis
  proof (cases rule: admit_guest_exhaust [where gp = gp and url = url and s = s and w = w and intent = intent and profile = profile])
    case (gate e w1)
    from admit_gate_failed [OF this] a gate Admit show ?thesis by (simp add: opbind_def)
  next
    case (launch w1 e w2)
    from admit_launch_failed [OF this] a launch Admit show ?thesis by (simp add: opbind_def)
  next
    case (registered w1 result w2 q w3)
    from admit_registered [OF this] a
    have s': "s' = register_guest (guest_key (sb_tenant_id s) url) (new_guest url intent result profile) s" by simp
    have "takes_effect gp (sb_tenant_id s) c w" using registered(1,2) by (simp add: Admit opbind_def)
    moreover have "sb_tenant_id s' = sb_tenant_id s" by (simp add: s' register_guest_def)
    ultimately show ?thesis
      by (simp add: Admit guests_of_def fun_eq_iff s' guest_registry.find_store)
  qed
qed

text \<open>
  C22: the sandbox implements the map. After any sequence of calls, whatever the platform does and
  whichever calls raise, the guests are those that the calls which took effect leave in a map
  that starts empty: an admission whose report or answer fails has still taken effect.
\<close>

theorem sandbox_refines_map:
  "guests_of (fst (fold (guest_step gp) calls (sandbox_init tenant node codex, w))) =
     fold (spec_step tenant) (effective gp calls (sandbox_init tenant node codex, w)) Map.empty"
proof -
  have run: "guests_of (fst (fold (guest_step gp) calls (s, w))) =
      fold (spec_step (sb_tenant_id s)) (effective gp calls (s, w)) (guests_of s)" for s w
  proof (induction calls arbitrary: s w)
    case Nil
    then show ?case by simp
  next
    case (Cons c calls)
    obtain s1 w1 where c: "guest_step gp c (s, w) = (s1, w1)" by fastforce
    from guest_step_spec [OF c] Cons.IH [of s1 w1] c show ?case by simp
  qed
  have "guests_of (sandbox_init tenant node codex) = Map.empty" "sb_tenant_id (sandbox_init tenant node codex) = tenant"
    by (simp_all add: guests_of_def sandbox_init_def fun_eq_iff)
  with run [of "sandbox_init tenant node codex" w] show ?thesis by simp
qed

end
