(* ===== verification/Spec2Isabelle.thy ===== *)
theory Spec2Isabelle
  imports Causal_Network Drain_Loop Reentrancy Concurrent_Restore Concurrent_Health Concurrent_Startup Save_Restore
    Interleaved_Events Deadline Package_Entry Shared_Tenants Lifecycle Concurrent_Signer Guest_Sandbox
begin

text \<open>
  \<^bold>\<open>GAIA-Server\<close>

  GAIA-Server is the server node of the GAIA cluster: a causal broadcast layer between cores, three
  storage backends behind small interfaces, the restore of a node from a checkpoint, an inference
  router, a registry of tenants, a sandbox for guest workloads, artifact signing, and the service
  and observability layer around them. This development models the Python package
  \<^verbatim>\<open>src/gaia_server\<close> and proves what makes its parts correct, and where they are not.

  \<^bold>\<open>How the program is modelled.\<close> An object is a record of its attributes and a method a function on
  it, with the source's names. A \<^verbatim>\<open>str\<close> is the list of its UTF-8 bytes, a \<^verbatim>\<open>bytes\<close> a list of 8-bit
  words, a \<^verbatim>\<open>dict\<close> an association list in insertion order, an \<^verbatim>\<open>int\<close> an integer, and a value whose
  shape is not known a \<^typ>\<open>pyval\<close>. An exception is a value of \<^typ>\<open>py_exn\<close>; a call that reads or changes
  something outside the component has type \<^typ>\<open>('w, 'a) op\<close>, a function of the world that gives an
  exception or a value and the next world, also when it raises. Methods that hold the object's lock
  are one step, and a coroutine is first modelled as running alone. What runs at the same time has
  models of its own beside these, proved to agree with them: handlers that call back into the object
  that holds the lock (\<^verbatim>\<open>Reentrancy\<close>), coroutines that interleave at every client call
  (\<^verbatim>\<open>Coroutine\<close> and the theories over it), a deadline that races with a waiting backend
  (\<^verbatim>\<open>Deadline\<close>), and threads that share a counter (\<^verbatim>\<open>Concurrent_Signer\<close>) or outlive a call
  (\<^verbatim>\<open>Lifecycle\<close>). A record is a value, but where callers share objects and write to them
  (\<^verbatim>\<open>Shared_Tenants\<close>) it is a cell of a store.

  \<^bold>\<open>Theories.\<close>
  \<^item> \<^verbatim>\<open>Gaia_Prelude\<close>: bytes, dictionaries, values, exceptions, operations on a world, and the
    collections \<^verbatim>\<open>op_simps\<close> and \<^verbatim>\<open>dict_simps\<close>. \<^verbatim>\<open>Py_Text\<close>, \<^verbatim>\<open>Json_Text\<close> and \<^verbatim>\<open>Py_Value\<close>: what the source
    uses of the language and its library (\<^verbatim>\<open>int\<close>, \<^verbatim>\<open>str\<close>, \<^verbatim>\<open>repr\<close>, \<^verbatim>\<open>json.dumps\<close>, indexing, \<^verbatim>\<open>os.environ\<close>).
  \<^item> \<^verbatim>\<open>Broadcast_Message\<close>, \<^verbatim>\<open>Causal_Broadcast\<close>, \<^verbatim>\<open>Drain_Loop\<close>, \<^verbatim>\<open>Causal_Order\<close>, \<^verbatim>\<open>Causal_Network\<close>
    with \<^verbatim>\<open>Mixed_Order\<close> (\<^verbatim>\<open>ipc/causal_broadcast.py\<close>): one endpoint with its vector clock and hold queue;
    the drain of the queue as the two loops of the source; causal order on messages, with and without
    health beacons; and networks of endpoints, which send both, as a step relation. Shown, in every
    reachable network: deliveries at an actor respect causal order up to the first beacon that it delivers, a message that
    is no beacon is delivered at most once, and, as long as nobody has sent a beacon, every message can
    still be delivered. Shown of an endpoint: the kinds of message apart, what a receive delivers and
    holds; without beacons, the order of arrival makes no difference to the state and each sender's messages come in
    order; a beacon can keep the message before it back for ever; and the loops end. \<^verbatim>\<open>Reentrancy\<close>
    has the endpoint with its lock as state and handlers that call back: exactly when a delivery
    returns and whom it calls, and that without callbacks it is the endpoint above.
  \<^item> \<^verbatim>\<open>Memory_World\<close>, \<^verbatim>\<open>Coordination\<close>, \<^verbatim>\<open>Etcd_Store\<close>, \<^verbatim>\<open>Minio_Store\<close>, \<^verbatim>\<open>JetStream_Store\<close>,
    \<^verbatim>\<open>Storage_Registry\<close>, \<^verbatim>\<open>Storage_Factory\<close> (\<^verbatim>\<open>storage/*.py\<close>): the three stores over their clients, the
    registry that joins them, and its construction; \<^verbatim>\<open>Storage_Package\<close> the lazy attributes of the
    package. Shown: compare-and-swap succeeds once, namespaces
    do not touch, a checkpoint is read back, cursors resume where they point, streams are created
    once.
  \<^item> \<^verbatim>\<open>Restore\<close> (\<^verbatim>\<open>restore/*.py\<close>): the restore sequence, over the interface \<^verbatim>\<open>coordination_backend\<close>.
    Shown: a restore that returns has passed every check, changes nothing but the trust entry of the
    node, spends a split-brain token once, does not trust a foreign checkpoint, and completes when
    its conditions hold. \<^verbatim>\<open>Save_Restore\<close>: what is saved through the three stores is what a restore
    returns and replays.
  \<^item> \<^verbatim>\<open>Coroutine\<close>: coroutines as values or steps, pools of them with a step relation, and two rules for
    every interleaving: what a coroutine guarantees while it can rely on the others, and a token that
    is taken once (locales \<^verbatim>\<open>interference\<close> and \<^verbatim>\<open>token_interference\<close>). \<^verbatim>\<open>Restore_Coroutine\<close>,
    \<^verbatim>\<open>Concurrent_Restore\<close>: the restore sequence as a coroutine, equal to \<^verbatim>\<open>restore\<close> when it runs alone,
    and any number of restores at once. Shown: what each has verified when it returns, that only
    trust entries change, that one restore per split-brain token returns, and that schedules end.
    \<^verbatim>\<open>Concurrent_Health\<close>, \<^verbatim>\<open>Concurrent_Startup\<close>: the joint check of the stores, and the startup check
    with the router's, under any schedule. \<^verbatim>\<open>Ownership\<close> adds to the first rule cells that a coroutine owns
    and facts that stay true; with it, \<^verbatim>\<open>Interleaved_Events\<close> has any number of readers and
    writers of the event store at once, and shows what each of them got or left in the log.
  \<^item> \<^verbatim>\<open>Settings\<close>, \<^verbatim>\<open>Inference\<close> (\<^verbatim>\<open>inference/*.py\<close>, \<^verbatim>\<open>storage/settings.py\<close>): the settings, the two backends,
    the router and its factory. Shown: settings are read back from the environment, and what the
    router answers, and what it lets out, in each case. \<^verbatim>\<open>Deadline\<close>: the router over backends that wait, with the race against the
    timer. Shown: when the answer is \<^verbatim>\<open>TIMEOUT\<close>, and that the timer has no effect on the two backends
    of the repository.
  \<^item> \<^verbatim>\<open>Keyed_Registry\<close>: the interface that the in-memory registries share, interpreted on the planetary
    hub, the router, the health aggregator and the guests.
  \<^item> \<^verbatim>\<open>Server_Config\<close>, \<^verbatim>\<open>Tenancy\<close> (\<^verbatim>\<open>config.py\<close>, \<^verbatim>\<open>tenancy/tenant_registry.py\<close>), \<^verbatim>\<open>Planetary\<close>
    (\<^verbatim>\<open>planetary/state_hub.py\<close>), \<^verbatim>\<open>Grpc_Server\<close> (\<^verbatim>\<open>ipc/grpc_server.py\<close>), \<^verbatim>\<open>Telemetry\<close>
    (\<^verbatim>\<open>observability/telemetry.py\<close>): the registries, the service methods over them, and the collector.
    Shown: capacity and history bounds over every run, nothing is forgotten, and what a snapshot or a
    summary holds. \<^verbatim>\<open>Shared_Tenants\<close>: the tenant registry over shared objects, which implements the one
    over values whatever its callers write, and what their writes can break. \<^verbatim>\<open>Lifecycle\<close>: the threads of the serve loop and of the collector over schedules of
    starts, stops and turns (interface \<^verbatim>\<open>stoppable\<close>): one of their schedules is the loop of \<^verbatim>\<open>Telemetry\<close>, they
    end after a stop, the history is right however they interleave, and a quick restart leaves two of
    them.
  \<^item> \<^verbatim>\<open>Pqc_Profile\<close>, \<^verbatim>\<open>Artifact_Signer\<close> (\<^verbatim>\<open>security/*.py\<close>): keys, encapsulation, signatures as tags (the
    interface \<^verbatim>\<open>tag_scheme\<close>), and the signer. Shown: exactly what verifies, that the keys the stub
    generates do not fit each other, that a changed payload is found out, and that signatures do not depend on
    the order of dictionaries, but do on the text that \<^verbatim>\<open>str\<close> gives for an object.
    \<^verbatim>\<open>Json_Payload\<close> has the text that is signed, for payloads with values of any kind: which have one, and
    that it is printable. \<^verbatim>\<open>Concurrent_Signer\<close>: signing by several threads, which read and store the
    counter in two steps: the bounds that are left, and that numbers repeat and increments are lost.
  \<^item> \<^verbatim>\<open>Guest_Sandbox\<close> (\<^verbatim>\<open>sandbox/guest_sandbox.py\<close>): admission, termination and listing of guests.
    Shown: each outcome of an admission and what is registered after it, and, for every sequence of
    calls, the invariant of the registry and the abstract map that it implements.
  \<^item> \<^verbatim>\<open>Startup\<close> (\<^verbatim>\<open>entrypoint.py\<close>, \<^verbatim>\<open>health.py\<close>, \<^verbatim>\<open>logging_config.py\<close>): the joint health check and the
    life of the process. Shown: what the joint status says, and that a failed backend does not stop
    the start. \<^verbatim>\<open>Package_Entry\<close> (\<^verbatim>\<open>__main__.py\<close>, the \<^verbatim>\<open>__init__.py\<close> files): every exported name resolves, and
    what the process exits with.

  \<^bold>\<open>Parameters.\<close> Code outside the repository is an argument: the NATS, MinIO and etcd clients (records
  of calls; what is assumed of them is a named predicate, or the laws of \<^verbatim>\<open>coordination_backend\<close>, and
  \<^verbatim>\<open>Memory_World\<close> gives an instance), the codecs and enumerations of \<^verbatim>\<open>gaia_core\<close>, its substrate, the
  hypervisor and codex, \<^verbatim>\<open>llama_cpp\<close>, the SHA-256 function, the random source, the clock, and the
  arithmetic and text of floats. No theorem fixes the hash; where a collision matters it is said so.

  \<^bold>\<open>Loops.\<close> The drain loop is total with the length of the hold queue as its measure, and its literal
  form is a partial function proved to return. The read loop of the event store is bounded by the
  limit that is asked for. The telemetry loop runs over the list of times at which it wakes; its threads
  over lists of events. The loop over delivery handlers is a partial function, as the handlers can
  make it endless. The one bound is the nesting of \<^verbatim>\<open>r_receive\<close>: a nested call finds the lock taken,
  so every bound above zero gives the same results.

  \<^bold>\<open>Not modelled.\<close> Log output (but for the JSON line, the level and what a telemetry snapshot logs), as
  it has no effect on the state; cancellation of other coroutines than the call of a backend, as
  nothing in the program cancels them; of the events that a restore reads while others write only
  the number enters its result, so which ones they are is said of the reads themselves
  (\<^verbatim>\<open>Interleaved_Events\<close>) and not again of the restores; keys of a signed payload that are floats or of
  other classes than \<^verbatim>\<open>str\<close>, \<^verbatim>\<open>int\<close>, \<^verbatim>\<open>bool\<close> and \<^verbatim>\<open>None\<close>, payloads that contain themselves, and the limits on recursion
  and on the digits of an integer. Tests,
  container and deployment files and documents hold no logic of the server.
\<close>

end
